(* ===== verification/Prelude.thy ===== *)
theory Prelude
  imports Complex_Main "HOL-Library.Word"
begin

text \<open>
  Shared vocabulary of the development: the result monad in which the asynchronous Python
  methods are written (a computation over a world \<open>'w\<close> that returns a value or raises),
  its weakest preconditions, and generic lemmas on digit strings.
\<close>

section \<open>Fact collections\<close>

named_theorems wp_simps "weakest preconditions of the combinators of the result monad"
named_theorems text_simps "digit strings and their readings"

section \<open>Computations that return or raise\<close>

text \<open>
  An \<open>async def\<close> over a world \<open>'w\<close> (the database session, the Redis server and the
  clock behind the awaits) takes the world and gives back the outcome, \<open>Inl\<close> of the
  exception raised or \<open>Inr\<close> of the value returned, together with the world it left.
\<close>

type_synonym ('w, 'e, 'a) py = "'w \<Rightarrow> ('e + 'a) \<times> 'w"

definition py_return :: "'a \<Rightarrow> ('w, 'e, 'a) py" where
  "py_return a w = (Inr a, w)"

definition py_raise :: "'e \<Rightarrow> ('w, 'e, 'a) py" where
  "py_raise e w = (Inl e, w)"

definition py_bind :: "('w, 'e, 'a) py \<Rightarrow> ('a \<Rightarrow> ('w, 'e, 'b) py) \<Rightarrow> ('w, 'e, 'b) py" where
  "py_bind m f w = (case m w of (Inl e, w') \<Rightarrow> (Inl e, w') | (Inr a, w') \<Rightarrow> f a w')"

text \<open>\<open>try: m except: h\<close>, with the handler deciding on the exception it is given.\<close>

definition py_catch :: "('w, 'e, 'a) py \<Rightarrow> ('e \<Rightarrow> ('w, 'e, 'a) py) \<Rightarrow> ('w, 'e, 'a) py" where
  "py_catch m h w = (case m w of (Inl e, w') \<Rightarrow> h e w' | (Inr a, w') \<Rightarrow> (Inr a, w'))"

section \<open>Weakest preconditions\<close>

text \<open>
  \<open>wp m Q E w\<close>: run from \<open>w\<close>, the computation ends in \<open>Q\<close> when it returns and in
  \<open>E\<close> when it raises. The equations below turn a method's body into the conditions on its calls.
\<close>

definition wp ::
  "('w, 'e, 'a) py \<Rightarrow> ('a \<Rightarrow> 'w \<Rightarrow> bool) \<Rightarrow> ('e \<Rightarrow> 'w \<Rightarrow> bool) \<Rightarrow> 'w \<Rightarrow> bool" where
  "wp m Q E w = (case m w of (Inl e, w') \<Rightarrow> E e w' | (Inr a, w') \<Rightarrow> Q a w')"

lemma wp_return [wp_simps]: "wp (py_return a) Q E w = Q a w"
  by (simp add: wp_def py_return_def)

lemma wp_raise [wp_simps]: "wp (py_raise e) Q E w = E e w"
  by (simp add: wp_def py_raise_def)

lemma wp_bind [wp_simps]: "wp (py_bind m f) Q E w = wp m (\<lambda>a. wp (f a) Q E) E w"
  by (simp add: wp_def py_bind_def split: prod.splits sum.splits)

lemma wp_catch [wp_simps]: "wp (py_catch m h) Q E w = wp m Q (\<lambda>e. wp (h e) Q E) w"
  by (simp add: wp_def py_catch_def split: prod.splits sum.splits)

lemma wp_if [wp_simps]:
  "wp (if b then m else n) Q E w = (if b then wp m Q E w else wp n Q E w)"
  by simp

lemma wp_case_option [wp_simps]:
  "wp (case x of None \<Rightarrow> m | Some y \<Rightarrow> f y) Q E w =
     (case x of None \<Rightarrow> wp m Q E w | Some y \<Rightarrow> wp (f y) Q E w)"
  by (simp split: option.splits)

lemma wp_mono:
  assumes "wp m Q E w"
    and "\<And>a w'. m w = (Inr a, w') \<Longrightarrow> Q a w' \<Longrightarrow> Q' a w'"
    and "\<And>e w'. m w = (Inl e, w') \<Longrightarrow> E e w' \<Longrightarrow> E' e w'"
  shows "wp m Q' E' w"
  using assms by (auto simp: wp_def split: prod.splits sum.splits)

lemma wp_returned: "wp m Q E w \<Longrightarrow> m w = (Inr a, w') \<Longrightarrow> Q a w'"
  by (simp add: wp_def)

lemma wp_raised: "wp m Q E w \<Longrightarrow> m w = (Inl e, w') \<Longrightarrow> E e w'"
  by (simp add: wp_def)

lemma wpI:
  assumes "\<And>a w'. m w = (Inr a, w') \<Longrightarrow> Q a w'" and "\<And>e w'. m w = (Inl e, w') \<Longrightarrow> E e w'"
  shows "wp m Q E w"
  using assms by (auto simp: wp_def split: prod.splits sum.splits)

text \<open>A condition on the world a computation leaves, however it ends.\<close>

lemma wp_snd: "wp m (\<lambda>_ w'. P w') (\<lambda>_ w'. P w') w \<longleftrightarrow> P (snd (m w))"
  by (simp add: wp_def split: prod.splits sum.splits)

lemma wp_conj: "wp m Q E w \<Longrightarrow> wp m Q' E' w \<Longrightarrow> wp m (\<lambda>a w'. Q a w' \<and> Q' a w') (\<lambda>e w'. E e w' \<and> E' e w') w"
  by (simp add: wp_def split: prod.splits sum.splits)

section \<open>Frames\<close>

text \<open>
  A computation that, from any world and however it ends, leaves a world in the relation \<open>S\<close> to the
  first. Where \<open>S\<close> is reflexive and transitive the programs built of such computations are
  such computations.
\<close>

definition leaves :: "('w \<Rightarrow> 'w \<Rightarrow> bool) \<Rightarrow> ('w, 'e, 'a) py \<Rightarrow> bool" where
  "leaves S m \<longleftrightarrow> (\<forall>w. S w (snd (m w)))"

lemma leavesI: "(\<And>w. wp m (\<lambda>_ w'. S w w') (\<lambda>_ w'. S w w') w) \<Longrightarrow> leaves S m"
  by (simp add: leaves_def wp_snd)

lemma wp_total: "wp m Q (\<lambda>_ _. False) w \<Longrightarrow> \<exists>a w'. m w = (Inr a, w') \<and> Q a w'"
  by (auto simp: wp_def split: prod.splits sum.splits)

lemma wp_leaves: "leaves S m \<Longrightarrow> wp m Q E w \<Longrightarrow> wp m (\<lambda>a w'. Q a w' \<and> S w w') (\<lambda>e w'. E e w' \<and> S w w') w"
  by (rule wp_conj) (simp_all add: wp_snd leaves_def)

lemma leaves_weaken: "leaves S m \<Longrightarrow> (\<And>w w'. S w w' \<Longrightarrow> T w w') \<Longrightarrow> leaves T m"
  by (simp add: leaves_def)

lemma leaves_if: "leaves S m \<Longrightarrow> leaves S n \<Longrightarrow> leaves S (if b then m else n)"
  by simp

lemma leaves_option: "leaves S m \<Longrightarrow> (\<And>a. leaves S (f a)) \<Longrightarrow> leaves S (case x of None \<Rightarrow> m | Some a \<Rightarrow> f a)"
  by (cases x) simp_all

lemma leaves_sum: "(\<And>a. leaves S (f a)) \<Longrightarrow> (\<And>b. leaves S (g b)) \<Longrightarrow> leaves S (case x of Inl a \<Rightarrow> f a | Inr b \<Rightarrow> g b)"
  by (cases x) simp_all

lemma leaves_pair: "(\<And>a b. leaves S (f a b)) \<Longrightarrow> leaves S (case p of (a, b) \<Rightarrow> f a b)"
  by (cases p) simp

locale py_frame =
  fixes S :: "'w \<Rightarrow> 'w \<Rightarrow> bool"
  assumes frame_refl: "S w w" and frame_trans: "S w w1 \<Longrightarrow> S w1 w2 \<Longrightarrow> S w w2"
begin

lemma leaves_return: "leaves S (py_return a)"
  by (simp add: leaves_def py_return_def frame_refl)

lemma leaves_raise: "leaves S (py_raise e)"
  by (simp add: leaves_def py_raise_def frame_refl)

lemma leaves_bind:
  assumes "leaves S m" and "\<And>a. leaves S (f a)"
  shows "leaves S (py_bind m f)"
  by (rule leavesI, unfold wp_bind, rule wp_mono [OF wp_leaves [OF assms(1), of "\<lambda>_ _. True" "\<lambda>_ _. True"]])
    (use assms(2) in \<open>auto simp: wp_snd leaves_def wp_def intro: frame_trans\<close>)

lemma leaves_catch:
  assumes "leaves S m" and "\<And>e. leaves S (h e)"
  shows "leaves S (py_catch m h)"
  by (rule leavesI, unfold wp_catch, rule wp_mono [OF wp_leaves [OF assms(1), of "\<lambda>_ _. True" "\<lambda>_ _. True"]])
    (use assms(2) in \<open>auto simp: wp_snd leaves_def wp_def intro: frame_trans\<close>)

lemmas leaves_rules = leaves_return leaves_raise leaves_bind leaves_catch leaves_if leaves_option leaves_sum leaves_pair

end

section \<open>Digit strings\<close>

text \<open>Decimal digits of a number, most significant first; \<open>0\<close> is the one digit \<open>0\<close>.\<close>

definition digit_char :: "nat \<Rightarrow> char" where
  "digit_char n = char_of (48 + n)"

definition is_digit :: "char \<Rightarrow> bool" where
  "is_digit c \<longleftrightarrow> 48 \<le> (of_char c :: nat) \<and> (of_char c :: nat) \<le> 57"

definition digit_val :: "char \<Rightarrow> nat" where
  "digit_val c = of_char c - 48"

fun nat_str :: "nat \<Rightarrow> string" where
  "nat_str n = (if n < 10 then [digit_char n] else nat_str (n div 10) @ [digit_char (n mod 10)])"

declare nat_str.simps [simp del]

definition nat_of_digits :: "string \<Rightarrow> nat" where
  "nat_of_digits ds = foldl (\<lambda>n c. n * 10 + digit_val c) 0 ds"

lemma is_digit_digit_char [text_simps]: "n < 10 \<Longrightarrow> is_digit (digit_char n)"
  by (simp add: is_digit_def digit_char_def of_char_of)

lemma digit_val_digit_char [text_simps]: "n < 10 \<Longrightarrow> digit_val (digit_char n) = n"
  by (simp add: digit_val_def digit_char_def of_char_of)

lemma nat_str_nonempty [simp]: "nat_str n \<noteq> []"
  by (subst nat_str.simps) simp

lemma nat_str_digits [text_simps]: "\<forall>c \<in> set (nat_str n). is_digit c"
proof (induction n rule: nat_str.induct)
  case (1 n)
  then show ?case by (subst nat_str.simps) (auto simp: text_simps)
qed

lemma nat_of_digits_snoc: "nat_of_digits (ds @ [c]) = nat_of_digits ds * 10 + digit_val c"
  by (simp add: nat_of_digits_def)

lemma nat_of_digits_nat_str [text_simps]: "nat_of_digits (nat_str n) = n"
proof (induction n rule: nat_str.induct)
  case (1 n)
  show ?case
  proof (cases "n < 10")
    case True
    then show ?thesis by (subst nat_str.simps) (simp add: nat_of_digits_def text_simps)
  next
    case False
    with "1.IH" show ?thesis by (subst nat_str.simps) (simp add: nat_of_digits_snoc text_simps)
  qed
qed

lemma nat_of_digits_zeros [text_simps]:
  "nat_of_digits (replicate k (CHR ''0'') @ ds) = nat_of_digits ds"
  by (induction k) (simp_all add: nat_of_digits_def digit_val_def)

lemma takeWhile_digits:
  "\<forall>c \<in> set ds. is_digit c \<Longrightarrow> rest = [] \<or> \<not> is_digit (hd rest) \<Longrightarrow>
     takeWhile is_digit (ds @ rest) = ds \<and> dropWhile is_digit (ds @ rest) = rest"
  by (induction ds) (cases rest; simp)+

end
