(* ===== verification/Decimals.thy ===== *)
theory Decimals
  imports Prelude
begin

text \<open>
  Python's \<open>decimal.Decimal\<close> as far as the program uses it: finite numbers, held as a
  coefficient and an exponent, compared by value, added and subtracted in the default context
  (28 digits, half-even), printed by \<open>str\<close> and read back by the constructor.
  \<open>dec_val\<close> is the number a decimal stands for; a wallet's column is \<open>Numeric(18, 2)\<close>,
  so balances are whole cents.
\<close>

section \<open>Representation and value\<close>

datatype decimal = Dec (coef: int) (expo: int)

definition dec_val :: "decimal \<Rightarrow> rat" where
  "dec_val d = of_int (coef d) * 10 powi expo d"

text \<open>The coefficient of a decimal written with the exponent \<open>m\<close>, for \<open>m\<close> at most its own.\<close>

definition rescale :: "int \<Rightarrow> decimal \<Rightarrow> int" where
  "rescale m d = coef d * 10 ^ nat (expo d - m)"

definition dec_less :: "decimal \<Rightarrow> decimal \<Rightarrow> bool" where
  "dec_less x y = (let m = min (expo x) (expo y) in rescale m x < rescale m y)"

definition dec_prec :: nat where "dec_prec = 28"

definition num_digits :: "int \<Rightarrow> nat" where
  "num_digits c = length (nat_str (nat \<bar>c\<bar>))"

text \<open>Division of a coefficient by \<open>10 ^ k\<close>, rounded to nearest with ties to even.\<close>

definition div_half_even :: "int \<Rightarrow> nat \<Rightarrow> int" where
  "div_half_even c k =
     (let b = 10 ^ k; q = \<bar>c\<bar> div b; r = \<bar>c\<bar> mod b;
          q' = (if 2 * r > b \<or> (2 * r = b \<and> odd q) then q + 1 else q)
      in sgn c * q')"

text \<open>\<open>Context._fix\<close>: round to the precision; a carry to one digit more is cut once.\<close>

definition dec_fix :: "decimal \<Rightarrow> decimal" where
  "dec_fix d =
     (if num_digits (coef d) \<le> dec_prec then d
      else let k = num_digits (coef d) - dec_prec; q = div_half_even (coef d) k
           in if num_digits q \<le> dec_prec then Dec q (expo d + int k)
              else Dec (q div 10) (expo d + int k + 1))"

definition dec_add :: "decimal \<Rightarrow> decimal \<Rightarrow> decimal" where
  "dec_add x y =
     (let m = min (expo x) (expo y) in dec_fix (Dec (rescale m x + rescale m y) m))"

definition dec_neg :: "decimal \<Rightarrow> decimal" where
  "dec_neg d = Dec (- coef d) (expo d)"

definition dec_sub :: "decimal \<Rightarrow> decimal \<Rightarrow> decimal" where
  "dec_sub x y = dec_add x (dec_neg y)"

lemma power_int_add_10: "(10::rat) powi (m + n) = 10 powi m * 10 powi n"
  by (simp add: power_int_add)

lemma rescale_val: "m \<le> expo d \<Longrightarrow> of_int (rescale m d) * 10 powi m = dec_val d"
proof -
  assume "m \<le> expo d"
  then obtain n where e: "expo d = int n + m"
    by (metis add.commute zle_iff_zadd)
  have "(10::rat) powi (int n + m) = 10 ^ n * 10 powi m"
    by (simp only: power_int_add_10 power_int_of_nat)
  then show ?thesis
    by (simp add: rescale_def dec_val_def e)
qed

lemma dec_less_val: "dec_less x y \<longleftrightarrow> dec_val x < dec_val y"
proof -
  define m where "m = min (expo x) (expo y)"
  have pos: "(0::rat) < 10 powi m" by simp
  have "dec_val x < dec_val y \<longleftrightarrow> (of_int (rescale m x) :: rat) * 10 powi m < of_int (rescale m y) * 10 powi m"
    by (simp add: rescale_val m_def)
  also have "\<dots> \<longleftrightarrow> rescale m x < rescale m y"
    using pos by (simp only: mult_less_cancel_right_pos of_int_less_iff)
  finally show ?thesis
    by (simp add: dec_less_def Let_def m_def)
qed

lemma dec_fix_exact: "num_digits (coef d) \<le> dec_prec \<Longrightarrow> dec_fix d = d"
  by (simp add: dec_fix_def)

lemma dec_add_exact:
  assumes "num_digits (rescale (min (expo x) (expo y)) x + rescale (min (expo x) (expo y)) y) \<le> dec_prec"
  shows "dec_val (dec_add x y) = dec_val x + dec_val y"
  using assms rescale_val[of "min (expo x) (expo y)" x] rescale_val[of "min (expo x) (expo y)" y]
  by (simp add: dec_add_def Let_def dec_fix_exact dec_val_def ring_distribs)

section \<open>Sizes of coefficients\<close>

lemma length_nat_str_le: "0 < k \<Longrightarrow> length (nat_str n) \<le> k \<longleftrightarrow> n < 10 ^ k"
proof (induction n arbitrary: k rule: nat_str.induct)
  case (1 n)
  show ?case
  proof (cases "n < 10")
    case True
    then have "n < 10 ^ k" if "0 < k" for k :: nat
      using that by (cases k) (auto intro: less_le_trans)
    with True "1.prems" show ?thesis by (simp add: nat_str.simps [of n])
  next
    case False
    show ?thesis
    proof (cases "k = 1")
      case True
      have "length (nat_str (n div 10)) \<noteq> 0" by simp
      with True False show ?thesis by (simp add: nat_str.simps [of n])
    next
      case k: False
      with "1.prems" obtain j where j: "k = Suc j" "0 < j" by (cases k) auto
      have "n div 10 < 10 ^ j \<longleftrightarrow> n < 10 ^ Suc j"
        by (simp add: less_mult_imp_div_less div_less_iff_less_mult mult.commute)
      with False j "1.IH" [OF False] show ?thesis by (simp add: nat_str.simps [of n])
    qed
  qed
qed

lemma num_digits_le: "0 < k \<Longrightarrow> num_digits c \<le> k \<longleftrightarrow> \<bar>c\<bar> < 10 ^ k"
proof -
  assume "0 < k"
  then have "num_digits c \<le> k \<longleftrightarrow> nat \<bar>c\<bar> < 10 ^ k"
    by (simp add: num_digits_def length_nat_str_le)
  also have "\<dots> \<longleftrightarrow> \<bar>c\<bar> < int (10 ^ k)" by linarith
  finally show ?thesis by simp
qed

lemma num_digits_pos: "0 < num_digits c"
  by (simp add: num_digits_def)

lemma num_digits_ge: "k < num_digits c \<Longrightarrow> 0 < k \<Longrightarrow> 10 ^ k \<le> \<bar>c\<bar>"
  using num_digits_le [of k c] by linarith

lemma num_digits_upper: "\<bar>c\<bar> < 10 ^ num_digits c"
  using num_digits_le [of "num_digits c" c] num_digits_pos by simp

lemma num_digits_shift:
  assumes "n \<noteq> 0"
  shows "num_digits (n * 10 ^ j) = num_digits n + j"
proof (rule antisym)
  have "\<bar>n * 10 ^ j\<bar> < 10 ^ (num_digits n + j)"
    using num_digits_upper [of n] by (simp add: abs_mult power_add)
  then show "num_digits (n * 10 ^ j) \<le> num_digits n + j"
    by (subst num_digits_le) (simp_all add: num_digits_pos)
next
  show "num_digits n + j \<le> num_digits (n * 10 ^ j)"
  proof (rule ccontr)
    assume "\<not> num_digits n + j \<le> num_digits (n * 10 ^ j)"
    then have less: "num_digits (n * 10 ^ j) \<le> num_digits n - 1 + j"
      using num_digits_pos [of n] by linarith
    show False
    proof (cases "num_digits n - 1 + j = 0")
      case True
      with less num_digits_pos [of "n * 10 ^ j"] show False by simp
    next
      case False
      with less have "\<bar>n * 10 ^ j\<bar> < 10 ^ (num_digits n - 1 + j)"
        by (simp only: num_digits_le)
      then have small: "\<bar>n\<bar> < 10 ^ (num_digits n - 1)"
        by (simp add: abs_mult power_add)
      show False
      proof (cases "num_digits n = 1")
        case True
        with small assms show False by simp
      next
        case False
        with num_digits_pos [of n] have "0 < num_digits n - 1" by linarith
        with small have "num_digits n \<le> num_digits n - 1" by (simp only: num_digits_le)
        with num_digits_pos [of n] show False by linarith
      qed
    qed
  qed
qed

section \<open>Whole cents\<close>

definition whole_cents :: "decimal \<Rightarrow> bool" where
  "whole_cents d \<longleftrightarrow> - 2 \<le> expo d \<or> coef d mod 10 ^ nat (- 2 - expo d) = 0"

definition cents :: "decimal \<Rightarrow> int" where
  "cents d =
     (if - 2 \<le> expo d then coef d * 10 ^ nat (expo d + 2)
      else coef d div 10 ^ nat (- 2 - expo d))"

lemma powi_minus_2: "(10::rat) powi (- 2) = 1 / 100"
  by (simp add: power_int_def field_simps)

lemma whole_cents_coef:
  assumes "whole_cents d" and "m \<le> expo d" and "m \<le> - 2"
  shows "rescale m d = cents d * 10 ^ nat (- 2 - m)"
proof (cases "- 2 \<le> expo d")
  case True
  then have "nat (expo d - m) = nat (expo d + 2) + nat (- 2 - m)"
    using assms(3) by linarith
  with True show ?thesis by (simp add: rescale_def cents_def power_add)
next
  case False
  with assms(1) have "coef d = cents d * 10 ^ nat (- 2 - expo d)"
    by (auto simp: whole_cents_def cents_def)
  moreover have "nat (- 2 - m) = nat (- 2 - expo d) + nat (expo d - m)"
    using False assms(2) by linarith
  ultimately show ?thesis by (simp add: rescale_def power_add)
qed

lemma whole_cents_val: "whole_cents d \<Longrightarrow> dec_val d = of_int (cents d) / 100"
proof -
  assume wc: "whole_cents d"
  define m where "m = min (expo d) (- 2)"
  define j where "j = nat (- 2 - m)"
  have le: "m \<le> expo d" "m \<le> - 2" by (simp_all add: m_def)
  then have j: "int j + m = - 2" by (simp add: j_def)
  have "dec_val d = of_int (rescale m d) * 10 powi m"
    using le by (simp add: rescale_val)
  also have "rescale m d = cents d * 10 ^ j"
    using whole_cents_coef [OF wc le] by (simp add: j_def)
  also have "of_int (cents d * 10 ^ j) * (10::rat) powi m = of_int (cents d) * 10 powi (int j + m)"
    by (simp only: power_int_add_10 power_int_of_nat of_int_mult of_int_power of_int_numeral mult.assoc)
  finally show ?thesis
    by (simp add: j powi_minus_2)
qed

lemma cents_unique:
  assumes "dec_val d = of_int n / 100"
  shows "whole_cents d \<and> cents d = n"
proof (cases "- 2 \<le> expo d")
  case True
  then have wc: "whole_cents d" by (simp add: whole_cents_def)
  with whole_cents_val [OF wc] assms show ?thesis by simp
next
  case False
  define j where "j = nat (- 2 - expo d)"
  have "dec_val d = of_int (coef d) * 10 powi expo d" by (simp add: dec_val_def)
  moreover have "(10::rat) powi (int j + expo d) = 10 ^ j * 10 powi expo d"
    by (simp only: power_int_add_10 power_int_of_nat)
  moreover have "int j + expo d = - 2" using False by (simp add: j_def)
  ultimately have "of_int (coef d) * 10 powi expo d = of_int n * (10 ^ j * (10::rat) powi expo d)"
    using assms powi_minus_2 by simp
  then have "(of_int (coef d) :: rat) = of_int (n * 10 ^ j)" by simp
  then have "coef d = n * 10 ^ j" by (simp only: of_int_eq_iff)
  with False show ?thesis by (simp add: whole_cents_def cents_def j_def)
qed

section \<open>Rounding to the context's precision\<close>

lemma div_half_even_exact: "10 ^ k dvd c \<Longrightarrow> div_half_even c k * 10 ^ k = c"
proof -
  assume d: "10 ^ k dvd c"
  then have m: "\<bar>c\<bar> mod 10 ^ k = 0" by (simp add: mod_eq_0_iff_dvd)
  then have "\<bar>c\<bar> div 10 ^ k * 10 ^ k = \<bar>c\<bar>"
    using div_mult_mod_eq [of "\<bar>c\<bar>" "10 ^ k"] by simp
  then show ?thesis
    using m by (simp add: div_half_even_def Let_def mult.assoc sgn_mult_abs)
qed

lemma div_half_even_lower:
  assumes "10 ^ (j + k) \<le> \<bar>c\<bar>"
  shows "10 ^ j \<le> \<bar>div_half_even c k\<bar>"
proof -
  have "(0::int) < 10 ^ (j + k)" by simp
  with assms have "c \<noteq> 0" by linarith
  then have s: "\<bar>sgn c\<bar> = 1" by (simp add: sgn_if)
  have "10 ^ j * 10 ^ k \<le> \<bar>c\<bar>" using assms by (simp add: power_add)
  then have "10 ^ j \<le> \<bar>c\<bar> div 10 ^ k" by (simp add: zdiv_mono1 [of "10 ^ j * 10 ^ k" "\<bar>c\<bar>" "10 ^ k", simplified])
  then show ?thesis
    using s by (auto simp: div_half_even_def Let_def abs_mult)
qed

lemma dec_fix_val_exact:
  assumes "10 ^ (num_digits (coef d) - dec_prec) dvd coef d"
  shows "dec_val (dec_fix d) = dec_val d"
proof (cases "num_digits (coef d) \<le> dec_prec")
  case True
  then show ?thesis by (simp add: dec_fix_def)
next
  case False
  define k where "k = num_digits (coef d) - dec_prec"
  define q where "q = div_half_even (coef d) k"
  have q: "q * 10 ^ k = coef d"
    using assms div_half_even_exact by (simp add: q_def k_def)
  have "num_digits (coef d) = dec_prec + k" using False by (simp add: k_def)
  with num_digits_upper [of "coef d"] have "\<bar>coef d\<bar> < 10 ^ (dec_prec + k)" by simp
  then have "\<bar>q * 10 ^ k\<bar> < 10 ^ (dec_prec + k)" by (simp only: q)
  then have "\<bar>q\<bar> < 10 ^ dec_prec" by (simp add: abs_mult power_add)
  then have small: "num_digits q \<le> dec_prec"
    by (subst num_digits_le) (simp_all add: dec_prec_def)
  have "of_int q * (10::rat) powi (int k + expo d) = of_int (q * 10 ^ k) * 10 powi expo d"
    by (simp only: power_int_add_10 power_int_of_nat of_int_mult of_int_power of_int_numeral mult.assoc)
  then show ?thesis
    using False small
    by (simp add: dec_fix_def Let_def dec_val_def q add.commute flip: k_def q_def)
qed

lemma dec_fix_lower:
  assumes "dec_prec < num_digits (coef d)"
  shows "10 powi (expo d + int (num_digits (coef d)) - 1) \<le> \<bar>dec_val (dec_fix d)\<bar>"
proof -
  define k where "k = num_digits (coef d) - dec_prec"
  define q where "q = div_half_even (coef d) k"
  have k: "int (num_digits (coef d)) = int k + 28"
    using assms by (simp add: k_def dec_prec_def)
  have "27 + k < num_digits (coef d)" using k by linarith
  then have "10 ^ (27 + k) \<le> \<bar>coef d\<bar>" by (rule num_digits_ge) simp
  then have q27: "10 ^ 27 \<le> \<bar>q\<bar>" unfolding q_def by (rule div_half_even_lower)
  have e: "expo d + int (num_digits (coef d)) - 1 = int 27 + (expo d + int k)" using k by simp
  show ?thesis
  proof (cases "num_digits q \<le> dec_prec")
    case True
    have "(10 ^ 27 :: rat) \<le> of_int \<bar>q\<bar>" using q27 by (metis of_int_le_iff of_int_numeral of_int_power)
    then show ?thesis
      using True assms unfolding e power_int_add_10 [of "int 27"] power_int_of_nat
      by (simp add: dec_fix_def Let_def dec_val_def abs_mult flip: k_def q_def)
  next
    case False
    then have "10 ^ 28 \<le> \<bar>q\<bar>"
      using num_digits_ge [of 28 q] by (simp add: dec_prec_def)
    then have "10 ^ 27 \<le> \<bar>q div 10\<bar>" by (cases "0 \<le> q") auto
    then have "(10 ^ 27 :: rat) \<le> of_int \<bar>q div 10\<bar>" by (metis of_int_le_iff of_int_numeral of_int_power)
    moreover have "(10::rat) powi (int 27 + (expo d + int k)) \<le> 10 powi (int 27 + (expo d + int k + 1))"
      by (rule power_int_increasing) simp_all
    ultimately have "10 powi (int 27 + (expo d + int k)) \<le> of_int \<bar>q div 10\<bar> * (10::rat) powi (expo d + int k + 1)"
      unfolding power_int_add_10 [of "int 27"] power_int_of_nat
      by (meson mult_right_mono order.trans zero_le_power_int zero_le_numeral)
    then show ?thesis
      using False assms unfolding e
      by (simp add: dec_fix_def Let_def dec_val_def abs_mult flip: k_def q_def)
  qed
qed

text \<open>
  The sum of two amounts of whole cents is exact, unless it is so large (at least \<open>10 ^ 26\<close>) that
  no \<open>Numeric(18, 2)\<close> column could hold it.
\<close>

lemma dec_add_exact_or_big:
  assumes x: "whole_cents x" and y: "whole_cents y" and xy: "expo x = - 2"
  shows "dec_val (dec_add x y) = dec_val x + dec_val y \<or>
    10 ^ 26 \<le> \<bar>dec_val (dec_add x y)\<bar> \<and> 10 ^ 28 \<le> \<bar>cents x + cents y\<bar>"
proof -
  define m where "m = min (expo x) (expo y)"
  define j where "j = nat (- 2 - m)"
  define n where "n = cents x + cents y"
  define s where "s = Dec (rescale m x + rescale m y) m"
  have m: "m \<le> expo x" "m \<le> expo y" "m \<le> - 2" by (simp_all add: m_def xy)
  then have j: "int j + m = - 2" by (simp add: j_def)
  have add: "dec_add x y = dec_fix s" by (simp add: dec_add_def Let_def m_def s_def)
  have val: "dec_val s = dec_val x + dec_val y"
    using rescale_val [OF m(1)] rescale_val [OF m(2)]
    by (simp add: s_def dec_val_def ring_distribs)
  have c: "coef s = n * 10 ^ j"
    using whole_cents_coef [OF x m(1,3)] whole_cents_coef [OF y m(2,3)]
    by (simp add: s_def n_def j_def ring_distribs)
  show ?thesis
  proof (cases "n = 0")
    case True
    then have "num_digits (coef s) \<le> dec_prec" by (simp add: c num_digits_le dec_prec_def)
    then show ?thesis using val by (simp add: add dec_fix_exact)
  next
    case False
    then have D: "num_digits (coef s) = num_digits n + j" by (simp add: c num_digits_shift)
    show ?thesis
    proof (cases "num_digits n \<le> dec_prec")
      case True
      then have "num_digits (coef s) - dec_prec \<le> j" using D by linarith
      then have "(10::int) ^ (num_digits (coef s) - dec_prec) dvd coef s"
        by (simp only: c dvd_mult le_imp_power_dvd)
      then show ?thesis using val by (simp add: add dec_fix_val_exact)
    next
      case False
      then have big: "dec_prec < num_digits (coef s)" and "29 \<le> num_digits n"
        using D by (simp_all add: dec_prec_def)
      then have "26 \<le> expo s + int (num_digits (coef s)) - 1"
        using D j by (simp add: s_def)
      then have "(10::rat) powi 26 \<le> 10 powi (expo s + int (num_digits (coef s)) - 1)"
        by (rule power_int_increasing) simp_all
      moreover have "10 ^ 28 \<le> \<bar>n\<bar>" by (rule num_digits_ge) (use \<open>29 \<le> num_digits n\<close> in simp_all)
      ultimately show ?thesis using dec_fix_lower [OF big] by (simp add: add n_def)
    qed
  qed
qed

section \<open>Storing a decimal in a \<open>Numeric(18, 2)\<close> column\<close>

text \<open>
  What the documentation of the column type promises: the value is rounded to two decimals and
  refused when more than sixteen digits stand before the point. It is read back with exponent -2.
\<close>

definition numeric_18_2 :: "decimal \<Rightarrow> decimal \<Rightarrow> bool" where
  "numeric_18_2 d b \<longleftrightarrow> expo b = - 2 \<and> \<bar>coef b\<bar> < 10 ^ 18 \<and> \<bar>dec_val d - dec_val b\<bar> \<le> 1 / 200"

lemma cents_expo_2 [simp]: "cents (Dec c (- 2)) = c" "whole_cents (Dec c (- 2))"
  by (simp_all add: cents_def whole_cents_def)

lemma expo_2_cents: "expo b = - 2 \<Longrightarrow> whole_cents b \<and> cents b = coef b"
  by (simp add: whole_cents_def cents_def)

lemma numeric_18_2_whole:
  assumes "numeric_18_2 d b" and "dec_val d = of_int n / 100"
  shows "cents b = n"
proof -
  have b: "dec_val b = of_int (coef b) / 100" and cb: "cents b = coef b"
    using assms(1) expo_2_cents [of b] whole_cents_val [of b] by (auto simp: numeric_18_2_def)
  have "\<bar>(of_int n :: rat) / 100 - of_int (coef b) / 100\<bar> \<le> 1 / 200"
    using assms b by (simp add: numeric_18_2_def)
  then have "\<bar>of_int (n - coef b) :: rat\<bar> < 1"
    by (simp add: diff_divide_distrib [symmetric] abs_divide field_simps)
  then have "\<bar>n - coef b\<bar> < 1"
    by (metis of_int_abs of_int_1 of_int_less_iff)
  with cb show ?thesis by linarith
qed

lemma numeric_18_2_small:
  assumes "numeric_18_2 d b"
  shows "\<bar>dec_val d\<bar> < 10 ^ 26"
proof -
  have "\<bar>dec_val b\<bar> = of_int \<bar>coef b\<bar> / 100"
    using assms expo_2_cents [of b] whole_cents_val [of b] by (simp add: numeric_18_2_def)
  moreover have "(of_int \<bar>coef b\<bar> :: rat) < 10 ^ 18"
    using assms by (metis numeric_18_2_def of_int_less_iff of_int_numeral of_int_power)
  ultimately have "\<bar>dec_val b\<bar> < 10 ^ 16" by simp
  moreover have "\<bar>dec_val d - dec_val b\<bar> \<le> 1 / 200"
    using assms by (simp only: numeric_18_2_def)
  ultimately have "\<bar>dec_val d\<bar> < 10 ^ 16 + 1" by linarith
  then show ?thesis by (rule less_le_trans) simp
qed

lemma numeric_18_2_add:
  assumes "whole_cents x" "whole_cents y" "expo x = - 2" and st: "numeric_18_2 (dec_add x y) b"
  shows "cents b = cents x + cents y"
proof -
  have "dec_val (dec_add x y) = dec_val x + dec_val y"
    using dec_add_exact_or_big [OF assms(1-3)] numeric_18_2_small [OF st] by linarith
  also have "\<dots> = of_int (cents x + cents y) / 100"
    using assms(1,2) by (simp add: whole_cents_val add_divide_distrib)
  finally show ?thesis by (rule numeric_18_2_whole [OF st])
qed

text \<open>Where the result fits the column, so does the sum itself.\<close>

lemma dec_add_small:
  assumes "whole_cents x" "whole_cents y" "expo x = - 2" and "\<bar>cents x + cents y\<bar> < 10 ^ 18"
  shows "whole_cents (dec_add x y) \<and> cents (dec_add x y) = cents x + cents y"
proof (rule cents_unique)
  have "\<not> 10 ^ 28 \<le> \<bar>cents x + cents y\<bar>" using assms(4) by simp
  then have "dec_val (dec_add x y) = dec_val x + dec_val y" using dec_add_exact_or_big [OF assms(1-3)] by blast
  then show "dec_val (dec_add x y) = of_int (cents x + cents y) / 100"
    using assms(1,2) by (simp add: whole_cents_val add_divide_distrib)
qed

lemma dec_neg_cents: "whole_cents y \<Longrightarrow> whole_cents (dec_neg y) \<and> cents (dec_neg y) = - cents y"
  by (rule cents_unique) (simp add: dec_neg_def dec_val_def whole_cents_val [unfolded dec_val_def])

lemma numeric_18_2_sub:
  assumes "whole_cents x" "whole_cents y" "expo x = - 2" and "numeric_18_2 (dec_sub x y) b"
  shows "cents b = cents x - cents y"
  using numeric_18_2_add [of x "dec_neg y" b] assms dec_neg_cents [OF assms(2)]
  by (simp add: dec_sub_def)

lemma dec_sub_small:
  assumes "whole_cents x" "whole_cents y" "expo x = - 2" and "\<bar>cents x - cents y\<bar> < 10 ^ 18"
  shows "whole_cents (dec_sub x y) \<and> cents (dec_sub x y) = cents x - cents y"
  using dec_add_small [of x "dec_neg y"] assms dec_neg_cents [OF assms(2)] by (simp add: dec_sub_def)

lemma dec_less_cents: "whole_cents x \<Longrightarrow> whole_cents y \<Longrightarrow> dec_less x y \<longleftrightarrow> cents x < cents y"
  by (simp add: dec_less_val whole_cents_val divide_less_cancel)

section \<open>Text: \<open>str(d)\<close> and \<open>Decimal(s)\<close>\<close>

definition sign_str :: "int \<Rightarrow> string" where
  "sign_str c = (if c < 0 then ''-'' else '''')"

text \<open>\<open>"%+d" % n\<close>\<close>

definition signed_str :: "int \<Rightarrow> string" where
  "signed_str n = (if n < 0 then ''-'' else ''+'') @ nat_str (nat \<bar>n\<bar>)"

text \<open>
  \<open>Decimal.__str__\<close>: plain notation when the exponent is not positive and the number is not
  tiny, else one digit before the point and an exponent.
\<close>

definition dec_str :: "decimal \<Rightarrow> string" where
  "dec_str d =
     (let ds = nat_str (nat \<bar>coef d\<bar>); leftdigits = expo d + int (length ds) in
      sign_str (coef d) @
      (if expo d \<le> 0 \<and> leftdigits > - 6 then
         (if leftdigits \<le> 0 then ''0.'' @ replicate (nat (- leftdigits)) (CHR ''0'') @ ds
          else if leftdigits \<ge> int (length ds) then ds
          else take (nat leftdigits) ds @ ''.'' @ drop (nat leftdigits) ds)
       else
         take 1 ds @ (if length ds = 1 then '''' else ''.'' @ drop 1 ds) @
         ''E'' @ signed_str (leftdigits - 1)))"

text \<open>
  The constructor: optional sign, digits with an optional point, optional exponent. The special
  values (\<open>NaN\<close>, \<open>Infinity\<close>), surrounding blanks and underscores between digits, which
  Python also accepts, are outside the finite numbers modelled and give \<open>None\<close>, as a
  malformed string does.
\<close>

fun split_sign :: "string \<Rightarrow> int \<times> string" where
  "split_sign (c # cs) =
     (if c = CHR ''-'' then (- 1, cs) else if c = CHR ''+'' then (1, cs) else (1, c # cs))"
| "split_sign [] = (1, [])"

definition parse_digits :: "string \<Rightarrow> nat option" where
  "parse_digits s = (if s \<noteq> [] \<and> list_all is_digit s then Some (nat_of_digits s) else None)"

definition parse_exponent :: "string \<Rightarrow> int option" where
  "parse_exponent s =
     (if s = [] then Some 0
      else if hd s = CHR ''E'' \<or> hd s = CHR ''e''
      then (let (sg, r) = split_sign (tl s) in map_option (\<lambda>n. sg * int n) (parse_digits r))
      else None)"

definition dec_parse :: "string \<Rightarrow> decimal option" where
  "dec_parse s =
     (let (sg, r) = split_sign s;
          ip = takeWhile is_digit r; r1 = dropWhile is_digit r;
          (fp, r2) = (if r1 \<noteq> [] \<and> hd r1 = CHR ''.''
                      then (takeWhile is_digit (tl r1), dropWhile is_digit (tl r1)) else ([], r1))
      in case parse_digits (ip @ fp) of
           None \<Rightarrow> None
         | Some n \<Rightarrow> map_option (\<lambda>e. Dec (sg * int n) (e - int (length fp))) (parse_exponent r2))"

lemma is_digit_ascii [simp]:
  "\<not> is_digit (CHR ''.'')" "\<not> is_digit (CHR ''E'')" "\<not> is_digit (CHR ''-'')" "\<not> is_digit (CHR ''+'')"
  "is_digit (CHR ''0'')"
  by (simp_all add: is_digit_def)

lemma split_sign_digits: "ds \<noteq> [] \<Longrightarrow> is_digit (hd ds) \<Longrightarrow> split_sign (ds @ r) = (1, ds @ r)"
  by (cases ds) auto

lemma split_sign_sign_str:
  "ds \<noteq> [] \<Longrightarrow> is_digit (hd ds) \<Longrightarrow>
     split_sign (sign_str c @ ds @ r) = (if c < 0 then - 1 else 1, ds @ r)"
  by (simp add: sign_str_def split_sign_digits)

lemma parse_signed_str: "parse_exponent (''E'' @ signed_str n) = Some n"
proof -
  have "is_digit (hd (nat_str k))" for k using nat_str_digits [of k] by simp
  then show ?thesis
    by (simp add: parse_exponent_def signed_str_def parse_digits_def nat_str_digits list_all_iff
        nat_of_digits_nat_str)
qed

text \<open>
  Reading a text with integer part \<open>ip\<close>, fraction \<open>fp\<close> and an exponent part: the one lemma
  behind the round trip.
\<close>

lemma dec_parse_parts:
  assumes ip: "ip \<noteq> []" "\<forall>c \<in> set ip. is_digit c" and fp: "\<forall>c \<in> set fp. is_digit c"
    and ex: "parse_exponent ex = Some e" "ex = [] \<or> hd ex = CHR ''E''"
    and dot: "dot = (if fp = [] then [] else CHR ''.'' # fp)"
  shows "dec_parse (sign_str c @ ip @ dot @ ex) =
    Some (Dec ((if c < 0 then - 1 else 1) * int (nat_of_digits (ip @ fp))) (e - int (length fp)))"
proof -
  have hd_ip: "is_digit (hd ip)" using ip by simp
  have stop: "dot @ ex = [] \<or> \<not> is_digit (hd (dot @ ex))" using ex(2) dot by auto
  have stop2: "ex = [] \<or> \<not> is_digit (hd ex)" using ex(2) by auto
  note tw = takeWhile_digits [OF ip(2) stop] takeWhile_digits [OF fp stop2]
  have all: "parse_digits (ip @ fp) = Some (nat_of_digits (ip @ fp))"
    using ip fp by (auto simp: parse_digits_def list_all_iff)
  show ?thesis
  proof (cases "fp = []")
    case True
    with dot have "dot = []" by simp
    with True tw all ex stop2 show ?thesis
      by (auto simp: dec_parse_def split_sign_sign_str [OF ip(1) hd_ip] Let_def)
  next
    case False
    with dot have "dot = CHR ''.'' # fp" by simp
    with tw all ex show ?thesis
      by (simp add: dec_parse_def split_sign_sign_str [OF ip(1) hd_ip] Let_def)
  qed
qed

text \<open>The same, for the text of a given decimal.\<close>

lemma dec_parse_reads:
  assumes "ip \<noteq> []" "\<forall>c \<in> set ip. is_digit c" "\<forall>c \<in> set fp. is_digit c"
    and "parse_exponent ex = Some e" "ex = [] \<or> hd ex = CHR ''E''"
    and "dot = (if fp = [] then [] else CHR ''.'' # fp)"
    and num: "nat_of_digits (ip @ fp) = nat \<bar>coef d\<bar>" and e: "e - int (length fp) = expo d"
  shows "dec_parse (sign_str (coef d) @ ip @ dot @ ex) = Some d"
  unfolding dec_parse_parts [OF assms(1-6)] num e by (cases d) simp

lemma dec_parse_str: "dec_parse (dec_str d) = Some d"
proof -
  define ds where "ds = nat_str (nat \<bar>coef d\<bar>)"
  define l where "l = expo d + int (length ds)"
  have ne: "ds \<noteq> []" and dig: "\<forall>c \<in> set ds. is_digit c" and num: "nat_of_digits ds = nat \<bar>coef d\<bar>"
    by (simp_all add: ds_def nat_str_digits nat_of_digits_nat_str)
  have no_ex: "parse_exponent [] = Some 0" by (simp add: parse_exponent_def)
  note fold = ds_def [symmetric] l_def [symmetric]
  consider (tiny) "expo d \<le> 0" "l > - 6" "l \<le> 0" | (whole) "expo d \<le> 0" "l > 0" "l \<ge> int (length ds)"
    | (point) "expo d \<le> 0" "l > 0" "l < int (length ds)" | (sci) "\<not> (expo d \<le> 0 \<and> l > - 6)"
    by linarith
  then show ?thesis
  proof cases
    case tiny
    define z where "z = replicate (nat (- l)) (CHR ''0'')"
    have s: "dec_str d = sign_str (coef d) @ ''0'' @ (CHR ''.'' # z @ ds) @ []"
      using tiny by (simp add: dec_str_def Let_def fold z_def)
    have n: "nat_of_digits (''0'' @ z @ ds) = nat \<bar>coef d\<bar>"
      using nat_of_digits_zeros [of "Suc (nat (- l))" ds] num by (simp add: z_def)
    have len: "0 - int (length (z @ ds)) = expo d"
      using tiny by (simp add: z_def l_def)
    show ?thesis
      unfolding s by (rule dec_parse_reads [where fp = "z @ ds", OF _ _ _ no_ex _ _ n len])
        (use ne dig in \<open>auto simp: z_def\<close>)
  next
    case whole
    have s: "dec_str d = sign_str (coef d) @ ds @ [] @ []"
      using whole by (simp add: dec_str_def Let_def fold)
    show ?thesis
      unfolding s by (rule dec_parse_reads [where fp = "[]", OF _ _ _ no_ex])
        (use ne dig num whole in \<open>auto simp: l_def\<close>)
  next
    case point
    have s: "dec_str d = sign_str (coef d) @ take (nat l) ds @ (CHR ''.'' # drop (nat l) ds) @ []"
      using point by (simp add: dec_str_def Let_def fold)
    have len: "0 - int (length (drop (nat l) ds)) = expo d" "drop (nat l) ds \<noteq> []" "take (nat l) ds \<noteq> []"
      using point ne by (auto simp: l_def)
    show ?thesis
      unfolding s by (rule dec_parse_reads [where fp = "drop (nat l) ds", OF _ _ _ no_ex _ _ _ len(1)])
        (use dig num len in \<open>auto dest: in_set_takeD in_set_dropD\<close>)
  next
    case sci
    define dot where "dot = (if drop 1 ds = [] then [] else CHR ''.'' # drop 1 ds)"
    have len: "length ds = 1 \<longleftrightarrow> drop 1 ds = []" using ne by (cases ds) auto
    have s: "dec_str d = sign_str (coef d) @ take 1 ds @ dot @ (''E'' @ signed_str (l - 1))"
      unfolding dec_str_def Let_def fold dot_def using sci len by auto
    have "int (length (drop 1 ds)) = int (length ds) - 1" using ne by (cases ds) auto
    then have e: "l - 1 - int (length (drop 1 ds)) = expo d" by (simp add: l_def)
    have n: "nat_of_digits (take 1 ds @ drop 1 ds) = nat \<bar>coef d\<bar>" by (simp only: append_take_drop_id num)
    show ?thesis
      unfolding s by (rule dec_parse_reads [OF _ _ _ parse_signed_str _ dot_def n e])
        (use ne dig in \<open>auto dest: in_set_takeD in_set_dropD\<close>)
  qed
qed

lemma dec_str_nonempty [simp]: "dec_str d \<noteq> []"
  using dec_parse_str [of d] by (auto simp: dec_parse_def parse_digits_def)

lemma dec_str_inj: "dec_str x = dec_str y \<Longrightarrow> x = y"
  by (metis dec_parse_str option.inject)

end
