(* ===== verification/Uuids.thy ===== *)
theory Uuids
  imports Prelude
begin

text \<open>
  Python's \<open>uuid.UUID\<close>: a 128-bit number, compared as that number (\<open>sorted\<close> of two wallet
  ids), printed in the hyphenated hexadecimal form and read back by the constructor.
\<close>

section \<open>Identifiers and their order\<close>

datatype uuid = UUID (uuid_int: "128 word")

instantiation uuid :: linorder
begin

definition less_eq_uuid :: "uuid \<Rightarrow> uuid \<Rightarrow> bool" where
  "less_eq_uuid a b = (uuid_int a \<le> uuid_int b)"

definition less_uuid :: "uuid \<Rightarrow> uuid \<Rightarrow> bool" where
  "less_uuid a b = (uuid_int a < uuid_int b)"

instance
  by standard (auto simp: less_eq_uuid_def less_uuid_def intro: uuid.expand)

end

section \<open>Hexadecimal text\<close>

definition hex_char :: "nat \<Rightarrow> char" where
  "hex_char n = (if n < 10 then digit_char n else char_of (87 + n))"

definition hex_val :: "char \<Rightarrow> nat option" where
  "hex_val c =
     (let n = of_char c :: nat in
      if 48 \<le> n \<and> n \<le> 57 then Some (n - 48)
      else if 97 \<le> n \<and> n \<le> 102 then Some (n - 87)
      else if 65 \<le> n \<and> n \<le> 70 then Some (n - 55)
      else None)"

text \<open>\<open>'%0kx' % n\<close> for an \<open>n\<close> of at most \<open>k\<close> hexadecimal digits.\<close>

fun hex_str :: "nat \<Rightarrow> nat \<Rightarrow> string" where
  "hex_str 0 n = []"
| "hex_str (Suc k) n = hex_str k (n div 16) @ [hex_char (n mod 16)]"

text \<open>
  \<open>int(s, 16)\<close>: blanks around the number, a sign, the prefix \<open>0x\<close>, and single underscores
  between digits are accepted.
\<close>

definition is_blank :: "char \<Rightarrow> bool" where
  "is_blank c \<longleftrightarrow> of_char c \<in> {9, 10, 11, 12, 13, 28, 29, 30, 31, 32 :: nat}"

definition strip_by :: "(char \<Rightarrow> bool) \<Rightarrow> string \<Rightarrow> string" where
  "strip_by p s = rev (dropWhile p (rev (dropWhile p s)))"

fun hex_digits :: "nat \<Rightarrow> string \<Rightarrow> nat option" where
  "hex_digits acc [] = Some acc"
| "hex_digits acc (c # cs) =
     (if c = CHR ''_'' then
        (case cs of [] \<Rightarrow> None
         | d # ds \<Rightarrow> (case hex_val d of None \<Rightarrow> None | Some v \<Rightarrow> hex_digits (acc * 16 + v) ds))
      else (case hex_val c of None \<Rightarrow> None | Some v \<Rightarrow> hex_digits (acc * 16 + v) cs))"

definition int_base16 :: "string \<Rightarrow> int option" where
  "int_base16 s =
     (let t = strip_by is_blank s;
          sg = (if t \<noteq> [] \<and> hd t = CHR ''-'' then - 1 else 1 :: int);
          u = (if t \<noteq> [] \<and> (hd t = CHR ''-'' \<or> hd t = CHR ''+'') then tl t else t);
          prefixed = (take 2 u = ''0x'' \<or> take 2 u = ''0X'');
          v = (if prefixed then drop 2 u else u);
          x = (if prefixed \<and> v \<noteq> [] \<and> hd v = CHR ''_'' then tl v else v)
      in if x = [] \<or> hd x = CHR ''_'' then None
         else map_option (\<lambda>n. sg * int n) (hex_digits 0 x))"

section \<open>\<open>str(u)\<close> and \<open>UUID(s)\<close>\<close>

definition uuid_str :: "uuid \<Rightarrow> string" where
  "uuid_str u =
     (let h = hex_str 32 (unat (uuid_int u)) in
      take 8 h @ ''-'' @ take 4 (drop 8 h) @ ''-'' @ take 4 (drop 12 h) @ ''-'' @
      take 4 (drop 16 h) @ ''-'' @ drop 20 h)"

text \<open>\<open>s.replace(p, '')\<close>, scanning from the left; the patterns used are not empty.\<close>

function remove_all :: "string \<Rightarrow> string \<Rightarrow> string" where
  "remove_all p s =
     (if s = [] then []
      else if p \<noteq> [] \<and> take (length p) s = p then remove_all p (drop (length p) s)
      else hd s # remove_all p (tl s))"
  by pat_completeness auto
termination
  by (relation "measure (\<lambda>(p, s). length s)") auto

declare remove_all.simps [simp del]

definition uuid_parse :: "string \<Rightarrow> uuid option" where
  "uuid_parse s =
     (let h = remove_all ''-'' (strip_by (\<lambda>c. c = CHR ''{'' \<or> c = CHR ''}'')
                (remove_all ''uuid:'' (remove_all ''urn:'' s)))
      in if length h \<noteq> 32 then None
         else (case int_base16 h of
                 None \<Rightarrow> None
               | Some n \<Rightarrow> if 0 \<le> n \<and> n < 2 ^ 128 then Some (UUID (word_of_int n)) else None))"

section \<open>Reading back what was printed\<close>

lemma remove_all_absent: "p \<noteq> [] \<Longrightarrow> hd p \<notin> set s \<Longrightarrow> remove_all p s = s"
proof (induction s)
  case Nil
  then show ?case by (simp add: remove_all.simps)
next
  case (Cons c s)
  have "take (length p) (c # s) \<noteq> p"
  proof
    assume *: "take (length p) (c # s) = p"
    have "hd p = hd (take (length p) (c # s))" by (simp only: *)
    also have "\<dots> = c" using Cons.prems(1) by (cases p) auto
    finally show False using Cons.prems(2) by simp
  qed
  with Cons show ?case by (subst remove_all.simps) simp
qed

lemma remove_all_char: "remove_all [c] s = filter (\<lambda>d. d \<noteq> c) s"
  by (induction s) (subst remove_all.simps; auto)+

lemma strip_by_none: "s \<noteq> [] \<Longrightarrow> \<not> p (hd s) \<Longrightarrow> \<not> p (last s) \<Longrightarrow> strip_by p s = s"
  by (simp add: strip_by_def dropWhile_eq_self_iff [THEN iffD2] hd_rev)

lemma length_hex_str [simp]: "length (hex_str k n) = k"
  by (induction k arbitrary: n) auto

lemma hex_val_hex_char [simp]: "n < 16 \<Longrightarrow> hex_val (hex_char n) = Some n"
  by (auto simp: hex_val_def hex_char_def digit_char_def of_char_of Let_def)

lemma hex_val_ascii [simp]:
  "hex_val (CHR ''_'') = None" "hex_val (CHR ''-'') = None" "hex_val (CHR ''+'') = None"
  "hex_val (CHR ''x'') = None" "hex_val (CHR ''X'') = None" "hex_val (CHR '':'') = None"
  "hex_val (CHR ''u'') = None" "hex_val (CHR ''{'') = None" "hex_val (CHR ''}'') = None"
  by (simp_all add: hex_val_def)

lemma hex_val_not_blank: "is_blank c \<Longrightarrow> hex_val c = None"
  by (auto simp: is_blank_def hex_val_def Let_def)

lemma hex_str_digits: "c \<in> set (hex_str k n) \<Longrightarrow> hex_val c \<noteq> None"
  by (induction k arbitrary: n) auto

lemma hex_digits_snoc:
  assumes "\<forall>c \<in> set s. hex_val c \<noteq> None" and "hex_val d = Some v"
  shows "hex_digits acc (s @ [d]) = map_option (\<lambda>n. n * 16 + v) (hex_digits acc s)"
  using assms by (induction s arbitrary: acc) auto

lemma hex_digits_hex_str: "n < 16 ^ k \<Longrightarrow> hex_digits 0 (hex_str k n) = Some n"
proof (induction k arbitrary: n)
  case 0
  then show ?case by simp
next
  case (Suc k)
  then have "n div 16 < 16 ^ k" by (simp add: less_mult_imp_div_less mult.commute)
  with Suc.IH have "hex_digits 0 (hex_str k (n div 16)) = Some (n div 16)" by blast
  moreover have "hex_digits 0 (hex_str k (n div 16) @ [hex_char (n mod 16)]) =
      map_option (\<lambda>q. q * 16 + n mod 16) (hex_digits 0 (hex_str k (n div 16)))"
    by (rule hex_digits_snoc) (auto dest: hex_str_digits)
  ultimately show ?case by simp
qed

text \<open>The characters of a printed identifier: hexadecimal digits and hyphens.\<close>

lemma uuid_str_set: "c \<in> set (uuid_str u) \<Longrightarrow> hex_val c \<noteq> None \<or> c = CHR ''-''"
  unfolding uuid_str_def Let_def
  by (auto dest!: in_set_takeD in_set_dropD dest: hex_str_digits)

lemma hex_str_no_hyphen: "CHR ''-'' \<notin> set (hex_str k n)"
  using hex_str_digits [of "CHR ''-''" k n] by auto

lemma split_32:
  "take 8 h @ take 4 (drop 8 h) @ take 4 (drop 12 h) @ take 4 (drop 16 h) @ drop 20 h = h"
proof -
  have "take 20 h = take 8 h @ take 4 (drop 8 h) @ take 4 (drop 12 h) @ take 4 (drop 16 h)"
    using take_add [of 8 12 h] take_add [of 4 8 "drop 8 h"] take_add [of 4 4 "drop 12 h"] by simp
  then show ?thesis using append_take_drop_id [of 20 h] by simp
qed

lemma uuid_str_hex: "filter (\<lambda>d. d \<noteq> CHR ''-'') (uuid_str u) = hex_str 32 (unat (uuid_int u))"
proof -
  define h where "h = hex_str 32 (unat (uuid_int u))"
  have *: "filter (\<lambda>d. d \<noteq> CHR ''-'') xs = xs" if "set xs \<subseteq> set h" for xs
    using that hex_str_no_hyphen [of 32 "unat (uuid_int u)"] by (intro filter_True) (auto simp: h_def)
  have "filter (\<lambda>d. d \<noteq> CHR ''-'') (uuid_str u) =
      take 8 h @ take 4 (drop 8 h) @ take 4 (drop 12 h) @ take 4 (drop 16 h) @ drop 20 h"
    by (simp add: uuid_str_def Let_def h_def [symmetric] * set_take_subset set_drop_subset
        order_trans [OF set_take_subset set_drop_subset])
  then show ?thesis by (simp add: split_32 h_def)
qed

lemma int_base16_hex_str:
  assumes "n < 16 ^ Suc k"
  shows "int_base16 (hex_str (Suc k) n) = Some (int n)"
proof -
  define h where "h = hex_str (Suc k) n"
  have hex: "hex_val c \<noteq> None" if "c \<in> set h" for c
    using that by (auto simp: h_def dest: hex_str_digits)
  have ne: "h \<noteq> []" by (simp add: h_def)
  have "\<not> is_blank c" if "c \<in> set h" for c
    using hex [OF that] hex_val_not_blank [of c] by auto
  then have strip: "strip_by is_blank h = h" using ne by (intro strip_by_none) simp_all
  have hd_h: "hd h \<noteq> CHR ''-''" "hd h \<noteq> CHR ''+''" "hd h \<noteq> CHR ''_''"
    using hex [OF hd_in_set [OF ne]] by auto
  have no_x: "CHR ''x'' \<notin> set (take 2 h)" "CHR ''X'' \<notin> set (take 2 h)"
    using hex [of "CHR ''x''"] hex [of "CHR ''X''"] by (auto dest: in_set_takeD)
  have "take 2 h \<noteq> ''0x''" using no_x(1) by (rule contrapos_nn) simp
  moreover have "take 2 h \<noteq> ''0X''" using no_x(2) by (rule contrapos_nn) simp
  moreover have "hex_digits 0 h = Some n" using assms by (simp only: h_def hex_digits_hex_str)
  ultimately show ?thesis
    using ne hd_h by (simp add: int_base16_def h_def [symmetric] strip Let_def del: hex_str.simps)
qed

lemma uuid_parse_str: "uuid_parse (uuid_str u) = Some u"
proof -
  let ?s = "uuid_str u"
  let ?n = "unat (uuid_int u)"
  have abs: "CHR ''u'' \<notin> set ?s" "CHR ''{'' \<notin> set ?s" "CHR ''}'' \<notin> set ?s"
    by (auto dest: uuid_str_set)
  have ne: "?s \<noteq> []" using uuid_str_hex [of u] by (auto dest: arg_cong [where f = length])
  have "remove_all ''uuid:'' (remove_all ''urn:'' ?s) = ?s"
    using abs by (simp add: remove_all_absent)
  moreover have "strip_by (\<lambda>c. c = CHR ''{'' \<or> c = CHR ''}'') ?s = ?s"
    using abs ne by (intro strip_by_none) (metis hd_in_set last_in_set)+
  moreover have "?n < 16 ^ Suc 31" using unsigned_less [of "uuid_int u"] by simp
  then have "int_base16 (hex_str 32 ?n) = Some (int ?n)"
    using int_base16_hex_str [of ?n 31] by simp
  moreover have "int ?n < 2 ^ 128" using unsigned_less [of "uuid_int u"] by simp
  ultimately show ?thesis
    by (cases u) (simp add: uuid_parse_def Let_def remove_all_char uuid_str_hex)
qed

lemma uuid_str_inj: "uuid_str u = uuid_str v \<Longrightarrow> u = v"
  by (metis option.inject uuid_parse_str)

end
