(* ===== verification/Models.thy ===== *)
theory Models
  imports Decimals Uuids
begin

text \<open>
  The ORM models of \<open>app/models\<close>: the rows of the three tables, the defaults filled in when a
  new object is flushed, the declared constraints, and the whole database as three maps from
  primary keys to rows. Instants are microseconds of UTC.
\<close>

section \<open>Rows\<close>

record user =
  u_id :: uuid
  u_email :: string
  u_password_hash :: string
  u_full_name :: string
  u_is_active :: bool
  u_created_at :: int
  u_updated_at :: int

record wallet =
  w_id :: uuid
  w_user_id :: uuid
  w_balance :: decimal
  w_currency :: string
  w_version :: int
  w_created_at :: int
  w_updated_at :: int

datatype transaction_status = PENDING | COMPLETED | FAILED

fun status_value :: "transaction_status \<Rightarrow> string" where
  "status_value PENDING = ''PENDING''"
| "status_value COMPLETED = ''COMPLETED''"
| "status_value FAILED = ''FAILED''"

record transaction =
  t_id :: uuid
  t_sender_wallet_id :: uuid
  t_receiver_wallet_id :: uuid
  t_amount :: decimal
  t_currency :: string
  t_status :: transaction_status
  t_idempotency_key :: string
  t_description :: "string option"
  t_created_at :: int

section \<open>New objects and column defaults\<close>

text \<open>
  What the services give to the constructors; the flush adds the defaults of the columns left out
  (a fresh \<open>uuid4\<close>, the time, and the constants below).
\<close>

record new_user =
  nu_email :: string
  nu_password_hash :: string
  nu_full_name :: string

record new_transaction =
  nt_sender_wallet_id :: uuid
  nt_receiver_wallet_id :: uuid
  nt_amount :: decimal
  nt_currency :: string
  nt_status :: transaction_status
  nt_idempotency_key :: string
  nt_description :: "string option"

definition user_row :: "uuid \<Rightarrow> int \<Rightarrow> int \<Rightarrow> new_user \<Rightarrow> user" where
  "user_row k created updated n =
     \<lparr>u_id = k, u_email = nu_email n, u_password_hash = nu_password_hash n,
      u_full_name = nu_full_name n, u_is_active = True,
      u_created_at = created, u_updated_at = updated\<rparr>"

text \<open>\<open>Wallet(user_id=...)\<close>: every other column takes its default.\<close>

definition wallet_row :: "uuid \<Rightarrow> int \<Rightarrow> int \<Rightarrow> uuid \<Rightarrow> wallet" where
  "wallet_row k created updated user_id =
     \<lparr>w_id = k, w_user_id = user_id, w_balance = Dec 0 (- 2), w_currency = ''USD'',
      w_version = 1, w_created_at = created, w_updated_at = updated\<rparr>"

definition transaction_row :: "uuid \<Rightarrow> int \<Rightarrow> decimal \<Rightarrow> new_transaction \<Rightarrow> transaction" where
  "transaction_row k created stored n =
     \<lparr>t_id = k, t_sender_wallet_id = nt_sender_wallet_id n,
      t_receiver_wallet_id = nt_receiver_wallet_id n, t_amount = stored,
      t_currency = nt_currency n, t_status = nt_status n,
      t_idempotency_key = nt_idempotency_key n, t_description = nt_description n,
      t_created_at = created\<rparr>"

section \<open>Declared constraints\<close>

definition chk_balance_non_negative :: "wallet \<Rightarrow> bool" where
  "chk_balance_non_negative x \<longleftrightarrow> 0 \<le> coef (w_balance x)"

definition chk_amount_positive :: "transaction \<Rightarrow> bool" where
  "chk_amount_positive x \<longleftrightarrow> 0 < coef (t_amount x)"

definition chk_different_wallets :: "transaction \<Rightarrow> bool" where
  "chk_different_wallets x \<longleftrightarrow> t_sender_wallet_id x \<noteq> t_receiver_wallet_id x"

section \<open>The database\<close>

record tables =
  users :: "uuid \<rightharpoonup> user"
  wallets :: "uuid \<rightharpoonup> wallet"
  txns :: "uuid \<rightharpoonup> transaction"

definition put_wallet :: "wallet \<Rightarrow> tables \<Rightarrow> tables" where
  "put_wallet x t = t\<lparr>wallets := (wallets t)(w_id x \<mapsto> x)\<rparr>"

definition put_user :: "user \<Rightarrow> tables \<Rightarrow> tables" where
  "put_user x t = t\<lparr>users := (users t)(u_id x \<mapsto> x)\<rparr>"

definition put_txn :: "transaction \<Rightarrow> tables \<Rightarrow> tables" where
  "put_txn x t = t\<lparr>txns := (txns t)(t_id x \<mapsto> x)\<rparr>"

lemma put_simps [simp]:
  "wallets (put_wallet x t) = (wallets t)(w_id x \<mapsto> x)" "users (put_wallet x t) = users t"
  "txns (put_wallet x t) = txns t" "wallets (put_user u t) = wallets t"
  "users (put_user u t) = (users t)(u_id u \<mapsto> u)" "txns (put_user u t) = txns t"
  "wallets (put_txn y t) = wallets t" "users (put_txn y t) = users t"
  "txns (put_txn y t) = (txns t)(t_id y \<mapsto> y)"
  by (simp_all add: put_wallet_def put_user_def put_txn_def)

text \<open>
  Everything the declarations demand of a committed database: rows under their primary keys,
  \<open>Numeric(18, 2)\<close> columns, the check constraints, the unique columns and the foreign keys.
\<close>

definition numeric_column :: "decimal \<Rightarrow> bool" where
  "numeric_column d \<longleftrightarrow> expo d = - 2 \<and> \<bar>coef d\<bar> < 10 ^ 18"

definition wallet_ok :: "tables \<Rightarrow> uuid \<Rightarrow> wallet \<Rightarrow> bool" where
  "wallet_ok t k x \<longleftrightarrow> w_id x = k \<and> numeric_column (w_balance x) \<and> chk_balance_non_negative x \<and>
     w_user_id x \<in> dom (users t)"

definition txn_ok :: "tables \<Rightarrow> uuid \<Rightarrow> transaction \<Rightarrow> bool" where
  "txn_ok t k x \<longleftrightarrow> t_id x = k \<and> numeric_column (t_amount x) \<and> chk_amount_positive x \<and>
     chk_different_wallets x \<and> t_sender_wallet_id x \<in> dom (wallets t) \<and>
     t_receiver_wallet_id x \<in> dom (wallets t)"

definition unique_by :: "('a \<Rightarrow> 'b) \<Rightarrow> ('k \<rightharpoonup> 'a) \<Rightarrow> bool" where
  "unique_by f m \<longleftrightarrow> (\<forall>i j x y. m i = Some x \<longrightarrow> m j = Some y \<longrightarrow> f x = f y \<longrightarrow> i = j)"

lemma unique_byD: "unique_by f m \<Longrightarrow> m i = Some x \<Longrightarrow> m j = Some y \<Longrightarrow> f x = f y \<Longrightarrow> i = j"
  by (simp add: unique_by_def)

lemma unique_by_same:
  assumes "unique_by f m" and "\<And>k w. n k = Some w \<Longrightarrow> \<exists>v. m k = Some v \<and> f w = f v"
  shows "unique_by f n"
  unfolding unique_by_def
proof (intro allI impI)
  fix i j v w
  assume "n i = Some v" "n j = Some w" "f v = f w"
  with assms(2) obtain x y where "m i = Some x" "f v = f x" "m j = Some y" "f w = f y" by blast
  with assms(1) \<open>f v = f w\<close> show "i = j" unfolding unique_by_def by force
qed

lemma unique_by_insert:
  "unique_by f m \<Longrightarrow> \<forall>j x. m j = Some x \<longrightarrow> f x \<noteq> f y \<Longrightarrow> unique_by f (m(k \<mapsto> y))"
  unfolding unique_by_def by (simp split: if_splits) metis

definition valid_db :: "tables \<Rightarrow> bool" where
  "valid_db t \<longleftrightarrow>
     (\<forall>k x. users t k = Some x \<longrightarrow> u_id x = k) \<and> unique_by u_email (users t) \<and>
     (\<forall>k x. wallets t k = Some x \<longrightarrow> wallet_ok t k x) \<and> unique_by w_user_id (wallets t) \<and>
     (\<forall>k x. txns t k = Some x \<longrightarrow> txn_ok t k x) \<and> unique_by t_idempotency_key (txns t)"

lemma valid_db_rows:
  assumes "valid_db t"
  shows "users t k = Some u \<Longrightarrow> u_id u = k" "wallets t k = Some x \<Longrightarrow> wallet_ok t k x"
    "txns t k = Some y \<Longrightarrow> txn_ok t k y"
  using assms by (simp_all add: valid_db_def)

lemma valid_db_unique:
  assumes "valid_db t"
  shows "unique_by u_email (users t)" "unique_by w_user_id (wallets t)" "unique_by t_idempotency_key (txns t)"
  using assms by (simp_all add: valid_db_def)

lemma valid_dbI:
  assumes "\<And>k u. users t k = Some u \<Longrightarrow> u_id u = k" "unique_by u_email (users t)"
    and "\<And>k x. wallets t k = Some x \<Longrightarrow> wallet_ok t k x" "unique_by w_user_id (wallets t)"
    and "\<And>k y. txns t k = Some y \<Longrightarrow> txn_ok t k y" "unique_by t_idempotency_key (txns t)"
  shows "valid_db t"
  using assms by (simp add: valid_db_def)

section \<open>Money in the system\<close>

definition total_cents :: "tables \<Rightarrow> int" where
  "total_cents t = (\<Sum>k \<in> dom (wallets t). cents (w_balance (the (wallets t k))))"

lemma total_cents_put_wallet:
  assumes "finite (dom (wallets t))" and "wallets t (w_id y) = Some x"
  shows "total_cents (put_wallet y t) = total_cents t - cents (w_balance x) + cents (w_balance y)"
proof -
  let ?D = "dom (wallets t)"
  let ?f = "\<lambda>m k. cents (w_balance (the (m k)))"
  have k: "w_id y \<in> ?D" using assms(2) by blast
  then have D: "dom (wallets (put_wallet y t)) = ?D" by auto
  have "total_cents (put_wallet y t) =
      ?f (wallets (put_wallet y t)) (w_id y) + (\<Sum>k \<in> ?D - {w_id y}. ?f (wallets (put_wallet y t)) k)"
    unfolding total_cents_def D by (rule sum.remove [OF assms(1) k])
  also have "(\<Sum>k \<in> ?D - {w_id y}. ?f (wallets (put_wallet y t)) k) = (\<Sum>k \<in> ?D - {w_id y}. ?f (wallets t) k)"
    by (rule sum.cong) auto
  also have "\<dots> = total_cents t - cents (w_balance x)"
    unfolding total_cents_def using sum.remove [OF assms(1) k, of "?f (wallets t)"] assms(2) by simp
  finally show ?thesis by simp
qed

lemma total_cents_put_txn [simp]: "total_cents (put_txn x t) = total_cents t"
  by (simp add: total_cents_def)

section \<open>Later versions of a wallet\<close>

text \<open>
  The program never deletes a wallet and changes a balance only together with the version. So a
  wallet seen at two moments is the same wallet, its version has not gone down, and equal versions
  mean equal balances: what the optimistic lock relies on.
\<close>

definition later :: "wallet \<Rightarrow> wallet \<Rightarrow> bool" where
  "later x y \<longleftrightarrow> w_id y = w_id x \<and> w_user_id y = w_user_id x \<and> w_currency y = w_currency x \<and>
     w_version x \<le> w_version y \<and> (w_version x = w_version y \<longrightarrow> w_balance y = w_balance x)"

lemma later_refl [simp]: "later x x"
  by (simp add: later_def)

lemma later_trans [trans]: "later x y \<Longrightarrow> later y z \<Longrightarrow> later x z"
  by (auto simp: later_def)

lemma laterD: "later x y \<Longrightarrow> w_id y = w_id x \<and> w_user_id y = w_user_id x"
  by (simp add: later_def)

definition rebalance :: "decimal \<Rightarrow> int \<Rightarrow> int \<Rightarrow> wallet \<Rightarrow> wallet" where
  "rebalance b v ts x = x\<lparr>w_balance := b, w_version := v, w_updated_at := ts\<rparr>"

lemma rebalance_simps [simp]:
  "w_id (rebalance b v ts x) = w_id x" "w_user_id (rebalance b v ts x) = w_user_id x"
  "w_balance (rebalance b v ts x) = b" "w_currency (rebalance b v ts x) = w_currency x"
  "w_version (rebalance b v ts x) = v"
  by (simp_all add: rebalance_def)

lemma later_rebalance: "w_version x < v \<Longrightarrow> later x (rebalance b v ts x)"
  by (simp add: later_def)

end
