(* ===== verification/Metadata.thy ===== *)
theory Metadata
  imports Models
begin

text \<open>
  What \<open>app/models\<close> declares to \<open>Base\<close>: the three tables with their columns and check constraints as data, as
  \<open>create_all\<close> receives them. The second part says what such declarations demand of stored rows, for any
  tables, in the terms of SQL (types, \<open>NULL\<close>, primary keys, unique columns, foreign keys, checks), and what
  a flush puts into the columns that a new object leaves out; the last one shows that this is \<open>valid_db\<close> and
  the row functions of \<open>Models\<close>.
\<close>

section \<open>Declarations\<close>

datatype column_type =
    UuidType
  | StringType nat
  | TextType
  | BooleanType
  | IntegerType
  | NumericType nat nat
  | DateTimeType
  | EnumType "string list"

text \<open>The values of a column.\<close>

datatype cell =
    Null
  | Uuid uuid
  | Str string
  | Flag bool
  | Number int
  | Amount decimal
  | Instant int
  | Member string

text \<open>The defaults: a constant, \<open>uuid.uuid4\<close>, or the lambda that takes the time.\<close>

datatype column_default = NoDefault | Default cell | Uuid4 | UtcNow

record column =
  cl_name :: string
  cl_type :: column_type
  cl_primary_key :: bool
  cl_foreign_key :: "(string \<times> string) option"
  cl_unique :: bool
  cl_default :: column_default
  cl_nullable :: bool
  cl_index :: bool

text \<open>\<open>mapped_column(type, nullable=False)\<close> and the same with a default.\<close>

definition mapped_column :: "string \<Rightarrow> column_type \<Rightarrow> column_default \<Rightarrow> column" where
  "mapped_column name ty d =
     \<lparr>cl_name = name, cl_type = ty, cl_primary_key = False, cl_foreign_key = None, cl_unique = False,
      cl_default = d, cl_nullable = False, cl_index = False\<rparr>"

definition id_column :: column where
  "id_column = (mapped_column ''id'' UuidType Uuid4)\<lparr>cl_primary_key := True\<rparr>"

text \<open>The three SQL expressions that occur in \<open>CheckConstraint\<close>: \<open>c > 0\<close>, \<open>c >= 0\<close> and \<open>c != d\<close>.\<close>

datatype check = IsPositive string | IsNonNegative string | AreDifferent string string

record table =
  tb_name :: string
  tb_columns :: "column list"
  tb_checks :: "(string \<times> check) list"

definition user_table :: table where
  "user_table =
     \<lparr>tb_name = ''users'',
      tb_columns =
        [id_column,
         (mapped_column ''email'' (StringType 255) NoDefault)\<lparr>cl_unique := True, cl_index := True\<rparr>,
         mapped_column ''password_hash'' (StringType 255) NoDefault,
         mapped_column ''full_name'' (StringType 255) NoDefault,
         mapped_column ''is_active'' BooleanType (Default (Flag True)),
         mapped_column ''created_at'' DateTimeType UtcNow,
         mapped_column ''updated_at'' DateTimeType UtcNow],
      tb_checks = []\<rparr>"

definition wallet_table :: table where
  "wallet_table =
     \<lparr>tb_name = ''wallets'',
      tb_columns =
        [id_column,
         (mapped_column ''user_id'' UuidType NoDefault)
           \<lparr>cl_foreign_key := Some (''users'', ''id''), cl_unique := True, cl_index := True\<rparr>,
         mapped_column ''balance'' (NumericType 18 2) (Default (Amount (Dec 0 (- 2)))),
         mapped_column ''currency'' (StringType 3) (Default (Str ''USD'')),
         mapped_column ''version'' IntegerType (Default (Number 1)),
         mapped_column ''created_at'' DateTimeType UtcNow,
         mapped_column ''updated_at'' DateTimeType UtcNow],
      tb_checks = [(''chk_balance_non_negative'', IsNonNegative ''balance'')]\<rparr>"

definition transaction_table :: table where
  "transaction_table =
     \<lparr>tb_name = ''transactions'',
      tb_columns =
        [id_column,
         (mapped_column ''sender_wallet_id'' UuidType NoDefault)
           \<lparr>cl_foreign_key := Some (''wallets'', ''id''), cl_index := True\<rparr>,
         (mapped_column ''receiver_wallet_id'' UuidType NoDefault)
           \<lparr>cl_foreign_key := Some (''wallets'', ''id''), cl_index := True\<rparr>,
         mapped_column ''amount'' (NumericType 18 2) NoDefault,
         mapped_column ''currency'' (StringType 3) (Default (Str ''USD'')),
         mapped_column ''status'' (EnumType (map status_value [PENDING, COMPLETED, FAILED]))
           (Default (Member (status_value PENDING))),
         (mapped_column ''idempotency_key'' (StringType 255) NoDefault)\<lparr>cl_unique := True, cl_index := True\<rparr>,
         (mapped_column ''description'' TextType NoDefault)\<lparr>cl_nullable := True\<rparr>,
         mapped_column ''created_at'' DateTimeType UtcNow],
      tb_checks =
        [(''chk_amount_positive'', IsPositive ''amount''),
         (''chk_different_wallets'', AreDifferent ''sender_wallet_id'' ''receiver_wallet_id'')]\<rparr>"

text \<open>\<open>Base.metadata\<close> after \<open>app.models\<close> is imported, in the order of the foreign keys.\<close>

definition base_metadata :: "table list" where
  "base_metadata = [user_table, wallet_table, transaction_table]"

lemma table_names:
  "tb_name user_table = ''users''" "tb_name wallet_table = ''wallets''" "tb_name transaction_table = ''transactions''"
  by (simp_all add: user_table_def wallet_table_def transaction_table_def)

text \<open>Every foreign key refers to the primary key of a table that is declared before.\<close>

fun keys_resolve :: "table list \<Rightarrow> table list \<Rightarrow> bool" where
  "keys_resolve before [] = True"
| "keys_resolve before (tb # tbs) =
     ((\<forall>c \<in> set (tb_columns tb). \<forall>t d. cl_foreign_key c = Some (t, d) \<longrightarrow>
         (\<exists>tb' \<in> set before. tb_name tb' = t \<and> (\<exists>c' \<in> set (tb_columns tb'). cl_name c' = d \<and> cl_primary_key c'))) \<and>
      keys_resolve (before @ [tb]) tbs)"

lemmas table_defs = user_table_def wallet_table_def transaction_table_def id_column_def mapped_column_def

lemma metadata_resolves: "keys_resolve [] base_metadata"
  by (simp add: base_metadata_def table_defs)

section \<open>What the declarations demand\<close>

text \<open>A row is read by the names of columns; a table holds its rows under their primary keys.\<close>

type_synonym cells = "string \<Rightarrow> cell"

definition cells_of :: "(string \<times> cell) list \<Rightarrow> cells" where
  "cells_of kvs c = (case map_of kvs c of None \<Rightarrow> Null | Some v \<Rightarrow> v)"

lemma cells_of_simps [simp]:
  "cells_of ((c, v) # kvs) c' = (if c' = c then v else cells_of kvs c')" "cells_of [] c' = Null"
  by (simp_all add: cells_of_def)

fun of_type :: "column_type \<Rightarrow> cell \<Rightarrow> bool" where
  "of_type ty Null = True"
| "of_type ty (Uuid u) = (ty = UuidType)"
| "of_type ty (Str s) = (case ty of StringType n \<Rightarrow> length s \<le> n | TextType \<Rightarrow> True | _ \<Rightarrow> False)"
| "of_type ty (Flag b) = (ty = BooleanType)"
| "of_type ty (Number i) = (ty = IntegerType \<and> - (2 ^ 31) \<le> i \<and> i < 2 ^ 31)"
| "of_type ty (Amount d) = (case ty of NumericType p s \<Rightarrow> expo d = - int s \<and> \<bar>coef d\<bar> < 10 ^ p | _ \<Rightarrow> False)"
| "of_type ty (Instant i) = (ty = DateTimeType)"
| "of_type ty (Member s) = (case ty of EnumType ss \<Rightarrow> s \<in> set ss | _ \<Rightarrow> False)"

text \<open>A check that is unknown, because of a \<open>NULL\<close>, counts as satisfied.\<close>

fun compares :: "(int \<Rightarrow> bool) \<Rightarrow> cell \<Rightarrow> bool" where
  "compares p (Amount d) = p (coef d)"
| "compares p (Number i) = p i"
| "compares p Null = True"
| "compares p _ = False"

fun check_holds :: "check \<Rightarrow> cells \<Rightarrow> bool" where
  "check_holds (IsPositive c) r = compares (\<lambda>i. 0 < i) (r c)"
| "check_holds (IsNonNegative c) r = compares (\<lambda>i. 0 \<le> i) (r c)"
| "check_holds (AreDifferent c d) r = (r c = Null \<or> r d = Null \<or> r c \<noteq> r d)"

definition column_holds :: "(string \<Rightarrow> uuid \<rightharpoonup> cells) \<Rightarrow> string \<Rightarrow> uuid \<Rightarrow> cells \<Rightarrow> column \<Rightarrow> bool" where
  "column_holds db t k r c \<longleftrightarrow>
     of_type (cl_type c) (r (cl_name c)) \<and> (\<not> cl_nullable c \<longrightarrow> r (cl_name c) \<noteq> Null) \<and>
     (cl_primary_key c \<longrightarrow> r (cl_name c) = Uuid k) \<and>
     (cl_unique c \<longrightarrow> (\<forall>k' r'. db t k' = Some r' \<and> r' (cl_name c) = r (cl_name c) \<and> r (cl_name c) \<noteq> Null \<longrightarrow> k' = k)) \<and>
     (\<forall>t' c'. cl_foreign_key c = Some (t', c') \<and> r (cl_name c) \<noteq> Null \<longrightarrow>
        (\<exists>k' r'. db t' k' = Some r' \<and> r' c' = r (cl_name c)))"

definition satisfies :: "table list \<Rightarrow> (string \<Rightarrow> uuid \<rightharpoonup> cells) \<Rightarrow> bool" where
  "satisfies md db \<longleftrightarrow>
     (\<forall>tb \<in> set md. \<forall>k r. db (tb_name tb) k = Some r \<longrightarrow>
        (\<forall>c \<in> set (tb_columns tb). column_holds db (tb_name tb) k r c) \<and>
        (\<forall>(_, ch) \<in> set (tb_checks tb). check_holds ch r))"

text \<open>A flush of a new object: what was given, else the default; two calls for the time may differ.\<close>

definition flushed :: "table \<Rightarrow> uuid \<Rightarrow> (string \<Rightarrow> int) \<Rightarrow> (string \<times> cell) list \<Rightarrow> (string \<times> cell) list" where
  "flushed tb fresh now given =
     map (\<lambda>c. (cl_name c,
       case map_of given (cl_name c) of
         Some v \<Rightarrow> v
       | None \<Rightarrow> (case cl_default c of NoDefault \<Rightarrow> Null | Default v \<Rightarrow> v | Uuid4 \<Rightarrow> Uuid fresh
           | UtcNow \<Rightarrow> Instant (now (cl_name c))))) (tb_columns tb)"

section \<open>The rows of the program\<close>

definition user_cells :: "user \<Rightarrow> (string \<times> cell) list" where
  "user_cells x =
     [(''id'', Uuid (u_id x)), (''email'', Str (u_email x)), (''password_hash'', Str (u_password_hash x)),
      (''full_name'', Str (u_full_name x)), (''is_active'', Flag (u_is_active x)),
      (''created_at'', Instant (u_created_at x)), (''updated_at'', Instant (u_updated_at x))]"

definition wallet_cells :: "wallet \<Rightarrow> (string \<times> cell) list" where
  "wallet_cells x =
     [(''id'', Uuid (w_id x)), (''user_id'', Uuid (w_user_id x)), (''balance'', Amount (w_balance x)),
      (''currency'', Str (w_currency x)), (''version'', Number (w_version x)),
      (''created_at'', Instant (w_created_at x)), (''updated_at'', Instant (w_updated_at x))]"

definition txn_cells :: "transaction \<Rightarrow> (string \<times> cell) list" where
  "txn_cells x =
     [(''id'', Uuid (t_id x)), (''sender_wallet_id'', Uuid (t_sender_wallet_id x)),
      (''receiver_wallet_id'', Uuid (t_receiver_wallet_id x)), (''amount'', Amount (t_amount x)),
      (''currency'', Str (t_currency x)), (''status'', Member (status_value (t_status x))),
      (''idempotency_key'', Str (t_idempotency_key x)),
      (''description'', case t_description x of None \<Rightarrow> Null | Some s \<Rightarrow> Str s),
      (''created_at'', Instant (t_created_at x))]"

definition stored_cells :: "tables \<Rightarrow> string \<Rightarrow> uuid \<rightharpoonup> cells" where
  "stored_cells t name k =
     (if name = ''users'' then map_option (\<lambda>x. cells_of (user_cells x)) (users t k)
      else if name = ''wallets'' then map_option (\<lambda>x. cells_of (wallet_cells x)) (wallets t k)
      else if name = ''transactions'' then map_option (\<lambda>x. cells_of (txn_cells x)) (txns t k)
      else None)"

text \<open>The bounds of the columns that are no constraints of \<open>valid_db\<close>: lengths, and 32 bits for the version.\<close>

definition user_fits :: "user \<Rightarrow> bool" where
  "user_fits x \<longleftrightarrow> length (u_email x) \<le> 255 \<and> length (u_password_hash x) \<le> 255 \<and> length (u_full_name x) \<le> 255"

definition wallet_fits :: "wallet \<Rightarrow> bool" where
  "wallet_fits x \<longleftrightarrow> length (w_currency x) \<le> 3 \<and> - (2 ^ 31) \<le> w_version x \<and> w_version x < 2 ^ 31"

definition txn_fits :: "transaction \<Rightarrow> bool" where
  "txn_fits x \<longleftrightarrow> length (t_currency x) \<le> 3 \<and> length (t_idempotency_key x) \<le> 255"

definition fits_columns :: "tables \<Rightarrow> bool" where
  "fits_columns t \<longleftrightarrow>
     (\<forall>k x. users t k = Some x \<longrightarrow> user_fits x) \<and> (\<forall>k x. wallets t k = Some x \<longrightarrow> wallet_fits x) \<and>
     (\<forall>k x. txns t k = Some x \<longrightarrow> txn_fits x)"

lemma stored_simps [simp]:
  "stored_cells t ''users'' k = map_option (\<lambda>x. cells_of (user_cells x)) (users t k)"
  "stored_cells t ''wallets'' k = map_option (\<lambda>x. cells_of (wallet_cells x)) (wallets t k)"
  "stored_cells t ''transactions'' k = map_option (\<lambda>x. cells_of (txn_cells x)) (txns t k)"
  by (simp_all add: stored_cells_def)

text \<open>The row functions are the flush with the declared defaults.\<close>

lemma flushed_rows:
  "user_cells (user_row k (now ''created_at'') (now ''updated_at'') n) =
     flushed user_table k now
       [(''email'', Str (nu_email n)), (''password_hash'', Str (nu_password_hash n)), (''full_name'', Str (nu_full_name n))]"
  "wallet_cells (wallet_row k (now ''created_at'') (now ''updated_at'') u) = flushed wallet_table k now [(''user_id'', Uuid u)]"
  "txn_cells (transaction_row k (now ''created_at'') stored m) =
     flushed transaction_table k now
       [(''sender_wallet_id'', Uuid (nt_sender_wallet_id m)), (''receiver_wallet_id'', Uuid (nt_receiver_wallet_id m)),
        (''amount'', Amount stored), (''currency'', Str (nt_currency m)), (''status'', Member (status_value (nt_status m))),
        (''idempotency_key'', Str (nt_idempotency_key m)),
        (''description'', case nt_description m of None \<Rightarrow> Null | Some s \<Rightarrow> Str s)]"
  by (simp_all add: flushed_def table_defs user_cells_def user_row_def wallet_cells_def wallet_row_def txn_cells_def
      transaction_row_def)

section \<open>The declarations are \<open>valid_db\<close>\<close>

definition row_holds :: "(string \<Rightarrow> uuid \<rightharpoonup> cells) \<Rightarrow> table \<Rightarrow> uuid \<Rightarrow> cells \<Rightarrow> bool" where
  "row_holds db tb k r \<longleftrightarrow>
     (\<forall>c \<in> set (tb_columns tb). column_holds db (tb_name tb) k r c) \<and> (\<forall>(_, ch) \<in> set (tb_checks tb). check_holds ch r)"

lemma satisfies_rows: "satisfies md db \<longleftrightarrow> (\<forall>tb \<in> set md. \<forall>k r. db (tb_name tb) k = Some r \<longrightarrow> row_holds db tb k r)"
  by (simp add: satisfies_def row_holds_def)

lemma some_row: "(\<exists>r. (\<exists>z. found = Some z \<and> f z = r) \<and> P r) \<longleftrightarrow> (\<exists>z. found = Some z \<and> P (f z))"
  by auto

lemma keyed_dom:
  assumes "\<And>k x. m k = Some x \<Longrightarrow> f x = k"
  shows "(\<exists>k x. m k = Some x \<and> f x = j) \<longleftrightarrow> j \<in> dom m"
proof
  assume "\<exists>k x. m k = Some x \<and> f x = j"
  then obtain k x where "m k = Some x" "f x = j" by blast
  with assms [of k x] show "j \<in> dom m" by auto
qed (use assms in auto)

lemma status_values: "status_value s = ''PENDING'' \<or> status_value s = ''COMPLETED'' \<or> status_value s = ''FAILED''"
  by (cases s) simp_all

text \<open>What the columns and checks of each table say of one row.\<close>

lemma user_row_holds:
  "row_holds (stored_cells t) user_table k (cells_of (user_cells x)) \<longleftrightarrow>
     u_id x = k \<and> user_fits x \<and> (\<forall>k' x'. users t k' = Some x' \<and> u_email x' = u_email x \<longrightarrow> k' = k)"
  by (auto simp: row_holds_def table_defs column_holds_def user_cells_def user_fits_def)

lemma wallet_row_holds:
  assumes keys: "\<And>k u. users t k = Some u \<Longrightarrow> u_id u = k"
  shows "row_holds (stored_cells t) wallet_table k (cells_of (wallet_cells x)) \<longleftrightarrow>
     wallet_ok t k x \<and> wallet_fits x \<and> (\<forall>k' x'. wallets t k' = Some x' \<and> w_user_id x' = w_user_id x \<longrightarrow> k' = k)"
proof -
  have "(\<exists>k' z. users t k' = Some z \<and> u_id z = w_user_id x) \<longleftrightarrow> w_user_id x \<in> dom (users t)"
    by (rule keyed_dom) (rule keys)
  then show ?thesis
    by (simp add: row_holds_def table_defs column_holds_def some_row wallet_cells_def user_cells_def wallet_fits_def
        wallet_ok_def numeric_column_def chk_balance_non_negative_def) argo
qed

lemma txn_row_holds:
  assumes keys: "\<And>k y. wallets t k = Some y \<Longrightarrow> w_id y = k"
  shows "row_holds (stored_cells t) transaction_table k (cells_of (txn_cells x)) \<longleftrightarrow>
     txn_ok t k x \<and> txn_fits x \<and> (\<forall>k' x'. txns t k' = Some x' \<and> t_idempotency_key x' = t_idempotency_key x \<longrightarrow> k' = k)"
proof -
  have "(\<exists>k' z. wallets t k' = Some z \<and> w_id z = j) \<longleftrightarrow> j \<in> dom (wallets t)" for j
    by (rule keyed_dom) (rule keys)
  moreover have "of_type TextType (case t_description x of None \<Rightarrow> Null | Some s \<Rightarrow> Str s)"
    by (simp split: option.split)
  ultimately show ?thesis
    by (simp add: row_holds_def table_defs column_holds_def some_row txn_cells_def wallet_cells_def txn_fits_def txn_ok_def
        numeric_column_def chk_amount_positive_def chk_different_wallets_def status_values) argo
qed

lemma satisfies_tables:
  "satisfies base_metadata (stored_cells t) \<longleftrightarrow>
     (\<forall>k x. users t k = Some x \<longrightarrow> row_holds (stored_cells t) user_table k (cells_of (user_cells x))) \<and>
     (\<forall>k x. wallets t k = Some x \<longrightarrow> row_holds (stored_cells t) wallet_table k (cells_of (wallet_cells x))) \<and>
     (\<forall>k x. txns t k = Some x \<longrightarrow> row_holds (stored_cells t) transaction_table k (cells_of (txn_cells x)))"
  unfolding satisfies_rows base_metadata_def by (auto simp: table_names)

lemma unique_by_rows:
  "unique_by f m \<longleftrightarrow> (\<forall>k x. m k = Some x \<longrightarrow> (\<forall>k' x'. m k' = Some x' \<and> f x' = f x \<longrightarrow> k' = k))"
  unfolding unique_by_def by metis

lemma satisfies_valid: "satisfies base_metadata (stored_cells t) \<longleftrightarrow> valid_db t \<and> fits_columns t"
proof (cases "(\<forall>k u. users t k = Some u \<longrightarrow> u_id u = k) \<and> (\<forall>k y. wallets t k = Some y \<longrightarrow> w_id y = k)")
  case True
  then have "row_holds (stored_cells t) wallet_table k (cells_of (wallet_cells x)) \<longleftrightarrow>
      wallet_ok t k x \<and> wallet_fits x \<and> (\<forall>k' x'. wallets t k' = Some x' \<and> w_user_id x' = w_user_id x \<longrightarrow> k' = k)"
    "row_holds (stored_cells t) transaction_table k (cells_of (txn_cells y)) \<longleftrightarrow>
      txn_ok t k y \<and> txn_fits y \<and> (\<forall>k' x'. txns t k' = Some x' \<and> t_idempotency_key x' = t_idempotency_key y \<longrightarrow> k' = k)"
    for k x y
    by (blast intro!: wallet_row_holds txn_row_holds)+
  then show ?thesis
    by (simp add: satisfies_tables valid_db_def fits_columns_def unique_by_rows user_row_holds imp_conjR
        all_conj_distrib) argo
next
  case False
  have "\<not> valid_db t" using False by (auto simp: valid_db_def wallet_ok_def)
  moreover have "u_id u = k" if "satisfies base_metadata (stored_cells t)" "users t k = Some u" for k u
    using that by (simp add: satisfies_tables user_row_holds)
  moreover have "w_id y = k" if "satisfies base_metadata (stored_cells t)" "wallets t k = Some y" for k y
  proof -
    have "row_holds (stored_cells t) wallet_table k (cells_of (wallet_cells y))" using that by (simp add: satisfies_tables)
    then show ?thesis by (simp add: row_holds_def table_defs column_holds_def wallet_cells_def)
  qed
  ultimately show ?thesis using False by blast
qed

end
