(* ===== verification/Errors.thy ===== *)
theory Errors
  imports Prelude
begin

text \<open>
  The exceptions a request can end in: the domain exceptions of
  \<open>app/core/exceptions.py\<close>, each an \<open>HTTPException\<close> with a status and a detail, the plain
  \<open>HTTPException\<close>s raised by routes and middleware, and the exceptions of the libraries
  below; a plain one may ask for response headers. The handlers of \<open>app/middleware/error_handler.py\<close> turn any of them
  into a JSON error response.
\<close>

section \<open>Exceptions\<close>

datatype domain_exn =
    UserNotFoundException string
  | UserAlreadyExistsException string
  | WalletNotFoundException
  | InsufficientBalanceException string string
  | DuplicateTransactionException
  | SelfTransferException
  | OptimisticLockException

text \<open>
  Exceptions of the libraries: SQLAlchemy's (an integrity error, an implicit load of an
  expired attribute in an asynchronous session, anything else the database raises), redis-py's,
  python-jose's, pydantic's, and the \<open>ValueError\<close>, \<open>KeyError\<close>, \<open>TypeError\<close> and bare \<open>Exception\<close> of
  Python itself.
\<close>

datatype library_exn =
    IntegrityError
  | MissingGreenlet
  | DatabaseError
  | RedisError
  | JWTError
  | ValueError
  | KeyError
  | TypeError
  | ValidationError
  | PlainException

text \<open>
  \<open>RequestInvalid\<close> is FastAPI's \<open>RequestValidationError\<close>: a location (already \<open>str\<close>-ed parts) and
  a message for every part of the request that does not fit its schema.
\<close>

datatype exn =
    Domain domain_exn
  | HTTPExc nat string "(string \<times> string) list"
  | RequestInvalid "(string list \<times> string) list"
  | Library library_exn

type_synonym ('w, 'a) io = "('w, exn, 'a) py"

abbreviation raise_domain :: "domain_exn \<Rightarrow> ('w, 'a) io" where
  "raise_domain e \<equiv> py_raise (Domain e)"

text \<open>Status code and detail given to \<open>super().__init__\<close> by each constructor.\<close>

fun domain_status :: "domain_exn \<Rightarrow> nat" where
  "domain_status (UserNotFoundException _) = 404"
| "domain_status (UserAlreadyExistsException _) = 409"
| "domain_status WalletNotFoundException = 404"
| "domain_status (InsufficientBalanceException _ _) = 402"
| "domain_status DuplicateTransactionException = 409"
| "domain_status SelfTransferException = 400"
| "domain_status OptimisticLockException = 409"

text \<open>The em dash of two of the details is written \<open>--\<close>: strings here are ASCII.\<close>

fun domain_detail :: "domain_exn \<Rightarrow> string" where
  "domain_detail (UserNotFoundException user_id) =
     (if user_id \<noteq> [] then ''User not found: '' @ user_id else ''User not found'')"
| "domain_detail (UserAlreadyExistsException email) =
     ''User with email '' @ [CHR 0x27] @ email @ [CHR 0x27] @ '' already exists''"
| "domain_detail WalletNotFoundException = ''Wallet not found for this user''"
| "domain_detail (InsufficientBalanceException available required) =
     (if available \<noteq> [] \<and> required \<noteq> []
      then ''Insufficient balance: available='' @ available @ '', required='' @ required
      else ''Insufficient balance'')"
| "domain_detail DuplicateTransactionException =
     ''Duplicate transaction -- this idempotency key has already been processed''"
| "domain_detail SelfTransferException = ''Cannot transfer money to yourself''"
| "domain_detail OptimisticLockException = ''Concurrent modification detected -- please retry''"

section \<open>Error responses\<close>

text \<open>The response carries no header of its own: \<open>exc.headers\<close> is not handed to \<open>JSONResponse\<close>.\<close>

definition status_to_error_code :: "nat \<Rightarrow> string" where
  "status_to_error_code status_code =
     (case map_of
        [(400, ''bad_request''), (401, ''unauthorized''), (402, ''insufficient_funds''),
         (403, ''forbidden''), (404, ''not_found''), (409, ''conflict''),
         (422, ''validation_error''), (429, ''rate_limited''), (500, ''internal_error'')]
        status_code of
        Some code \<Rightarrow> code
      | None \<Rightarrow> ''unknown_error'')"

record error_response =
  er_status :: nat
  er_error :: string
  er_detail :: string
  er_errors :: "(string \<times> string) list option"
  er_request_id :: string

definition http_exception_handler :: "string \<Rightarrow> nat \<Rightarrow> string \<Rightarrow> error_response" where
  "http_exception_handler rid status detail =
     \<lparr>er_status = status, er_error = status_to_error_code status, er_detail = detail,
      er_errors = None, er_request_id = rid\<rparr>"

fun join_arrow :: "string list \<Rightarrow> string" where
  "join_arrow [] = ''''"
| "join_arrow [l] = l"
| "join_arrow (l # ls) = l @ '' -> '' @ join_arrow ls"

definition validation_exception_handler :: "string \<Rightarrow> (string list \<times> string) list \<Rightarrow> error_response" where
  "validation_exception_handler rid errs =
     \<lparr>er_status = 422, er_error = ''validation_error'', er_detail = ''Request validation failed'',
      er_errors = Some (map (\<lambda>(loc, msg). (join_arrow loc, msg)) errs), er_request_id = rid\<rparr>"

definition unhandled_exception_handler :: "string \<Rightarrow> error_response" where
  "unhandled_exception_handler rid =
     \<lparr>er_status = 500, er_error = ''internal_error'',
      er_detail = ''An unexpected error occurred. Please try again.'',
      er_errors = None, er_request_id = rid\<rparr>"

text \<open>
  The dispatch the registrations set up: \<open>StarletteHTTPException\<close> and its subclasses go to the
  first handler, a \<open>RequestValidationError\<close> to the second, everything else to the last. Domain exceptions are \<open>HTTPException\<close>s.
\<close>

fun handle_exception :: "string \<Rightarrow> exn \<Rightarrow> error_response" where
  "handle_exception rid (Domain e) = http_exception_handler rid (domain_status e) (domain_detail e)"
| "handle_exception rid (HTTPExc status detail headers) = http_exception_handler rid status detail"
| "handle_exception rid (RequestInvalid errs) = validation_exception_handler rid errs"
| "handle_exception rid (Library e) = unhandled_exception_handler rid"

section \<open>What clients see\<close>

text \<open>The error code determines the status: no two mapped statuses share a code.\<close>

lemma status_to_error_code_known:
  "status_to_error_code s \<noteq> ''unknown_error'' \<longleftrightarrow>
     s \<in> {400, 401, 402, 403, 404, 409, 422, 429, 500}"
  by (auto simp: status_to_error_code_def)

lemma status_to_error_code_inj:
  "status_to_error_code s = status_to_error_code t \<Longrightarrow> status_to_error_code s \<noteq> ''unknown_error'' \<Longrightarrow>
     s = t"
  by (auto simp: status_to_error_code_def split: if_splits)

lemma domain_status_known: "domain_status e \<in> {400, 402, 404, 409}"
  by (cases e) simp_all

lemma handle_exception_request_id [simp]: "er_request_id (handle_exception rid e) = rid"
  by (cases e) (simp_all add: http_exception_handler_def validation_exception_handler_def unhandled_exception_handler_def)

end
