(* ===== verification/Json.thy ===== *)
theory Json
  imports Uuids
begin

text \<open>
  Python's \<open>json.dumps\<close> (default separators, \<open>ensure_ascii\<close>) and \<open>json.loads\<close>, through which the
  idempotency service and the cache keep responses in Redis. Strings are sequences of
  code points up to 255; an escape of a larger one is refused. A float literal is kept as its text
  (no component writes one). Recursion follows a fuel that the length of the text bounds.
\<close>

section \<open>Values\<close>

datatype json =
    JNull
  | JBool bool
  | JInt int
  | JFloat string
  | JStr string
  | JArr "json list"
  | JObj "(string \<times> json) list"

section \<open>\<open>dumps\<close>\<close>

definition ord :: "char \<Rightarrow> nat" where
  "ord c = of_char c"

definition quote :: char where "quote = CHR 0x22"
definition backslash :: char where "backslash = CHR 0x5C"

definition escape_char :: "char \<Rightarrow> string" where
  "escape_char c =
     (if c = quote then [backslash, quote]
      else if c = backslash then [backslash, backslash]
      else if ord c = 10 then [backslash, CHR ''n'']
      else if ord c = 13 then [backslash, CHR ''r'']
      else if ord c = 9 then [backslash, CHR ''t'']
      else if ord c = 12 then [backslash, CHR ''f'']
      else if ord c = 8 then [backslash, CHR ''b'']
      else if ord c < 32 \<or> 126 < ord c then [backslash, CHR ''u''] @ hex_str 4 (ord c)
      else [c])"

definition dumps_string :: "string \<Rightarrow> string" where
  "dumps_string s = quote # concat (map escape_char s) @ [quote]"

definition int_str :: "int \<Rightarrow> string" where
  "int_str n = (if n < 0 then ''-'' else '''') @ nat_str (nat \<bar>n\<bar>)"

fun join_comma :: "string list \<Rightarrow> string" where
  "join_comma [] = ''''"
| "join_comma [s] = s"
| "join_comma (s # ss) = s @ '', '' @ join_comma ss"

fun dumps :: "json \<Rightarrow> string" where
  "dumps JNull = ''null''"
| "dumps (JBool b) = (if b then ''true'' else ''false'')"
| "dumps (JInt n) = int_str n"
| "dumps (JFloat s) = s"
| "dumps (JStr s) = dumps_string s"
| "dumps (JArr js) = ''['' @ join_comma (map dumps js) @ '']''"
| "dumps (JObj ps) = ''{'' @ join_comma (map (\<lambda>(k, v). dumps_string k @ '': '' @ dumps v) ps) @ ''}''"

section \<open>\<open>loads\<close>\<close>

definition is_ws :: "char \<Rightarrow> bool" where
  "is_ws c \<longleftrightarrow> c = CHR '' '' \<or> ord c = 9 \<or> ord c = 10 \<or> ord c = 13"

definition skip_ws :: "string \<Rightarrow> string" where
  "skip_ws s = dropWhile is_ws s"

definition unescape :: "char \<Rightarrow> char option" where
  "unescape c =
     (if c = quote \<or> c = backslash \<or> c = CHR ''/'' then Some c
      else if c = CHR ''n'' then Some (char_of (10::nat))
      else if c = CHR ''r'' then Some (char_of (13::nat))
      else if c = CHR ''t'' then Some (char_of (9::nat))
      else if c = CHR ''f'' then Some (char_of (12::nat))
      else if c = CHR ''b'' then Some (char_of (8::nat))
      else None)"

definition hex4 :: "string \<Rightarrow> nat option" where
  "hex4 s = (if length s = 4 \<and> list_all (\<lambda>c. hex_val c \<noteq> None) s then hex_digits 0 s else None)"

text \<open>The rest of a string literal, after its opening quote.\<close>

function parse_string :: "string \<Rightarrow> (string \<times> string) option" where
  "parse_string [] = None"
| "parse_string (c # cs) =
     (if c = quote then Some ([], cs)
      else if c = backslash then
        (case cs of
           [] \<Rightarrow> None
         | e # es \<Rightarrow>
             if e = CHR ''u'' then
               (case hex4 (take 4 es) of
                  None \<Rightarrow> None
                | Some n \<Rightarrow>
                    if n < 256 then map_option (apfst ((#) (char_of n))) (parse_string (drop 4 es)) else None)
             else
               (case unescape e of
                  None \<Rightarrow> None
                | Some d \<Rightarrow> map_option (apfst ((#) d)) (parse_string es)))
      else if ord c < 32 then None
      else map_option (apfst ((#) c)) (parse_string cs))"
  by pat_completeness auto
termination
  by (relation "measure length") auto

text \<open>
  A number: the integer part \<open>0\<close> or digits without a leading zero, then a fraction and an
  exponent where they are well formed.
\<close>

definition frac_part :: "string \<Rightarrow> string" where
  "frac_part s =
     (if s \<noteq> [] \<and> hd s = CHR ''.'' \<and> takeWhile is_digit (tl s) \<noteq> []
      then CHR ''.'' # takeWhile is_digit (tl s) else [])"

definition exp_part :: "string \<Rightarrow> string" where
  "exp_part s =
     (if s \<noteq> [] \<and> (hd s = CHR ''e'' \<or> hd s = CHR ''E'') then
        (let sg = (if tl s \<noteq> [] \<and> (hd (tl s) = CHR ''-'' \<or> hd (tl s) = CHR ''+'') then [hd (tl s)] else []);
             ds = takeWhile is_digit (drop (length sg) (tl s))
         in if ds \<noteq> [] then hd s # sg @ ds else [])
      else [])"

definition parse_number :: "string \<Rightarrow> (json \<times> string) option" where
  "parse_number s =
     (let neg = (s \<noteq> [] \<and> hd s = CHR ''-''); t = (if neg then tl s else s);
          ds = (if t \<noteq> [] \<and> hd t = CHR ''0'' then ''0'' else takeWhile is_digit t);
          r = drop (length ds) t; f = frac_part r; r1 = drop (length f) r;
          e = exp_part r1; r2 = drop (length e) r1
      in if ds = [] then None
         else if f = [] \<and> e = [] then Some (JInt ((if neg then - 1 else 1) * int (nat_of_digits ds)), r)
         else Some (JFloat ((if neg then ''-'' else '''') @ ds @ f @ e), r2))"

text \<open>\<open>dict\<close> of the members read: a repeated key keeps its place and takes the later value.\<close>

fun dict_set :: "string \<Rightarrow> json \<Rightarrow> (string \<times> json) list \<Rightarrow> (string \<times> json) list" where
  "dict_set k v [] = [(k, v)]"
| "dict_set k v ((k', v') # ps) = (if k = k' then (k, v) # ps else (k', v') # dict_set k v ps)"

definition dict_of :: "(string \<times> json) list \<Rightarrow> (string \<times> json) list" where
  "dict_of ps = foldl (\<lambda>d (k, v). dict_set k v d) [] ps"

definition starts :: "string \<Rightarrow> string \<Rightarrow> bool" where
  "starts p s \<longleftrightarrow> take (length p) s = p"

fun parse_value :: "nat \<Rightarrow> string \<Rightarrow> (json \<times> string) option"
  and parse_elems :: "nat \<Rightarrow> string \<Rightarrow> (json list \<times> string) option"
  and parse_members :: "nat \<Rightarrow> string \<Rightarrow> ((string \<times> json) list \<times> string) option" where
  "parse_value 0 s = None"
| "parse_value (Suc n) s =
     (if s = [] then None
      else if hd s = quote then map_option (apfst JStr) (parse_string (tl s))
      else if hd s = CHR ''{'' then
        (let r = skip_ws (tl s) in
         if r = [] then None
         else if hd r = CHR ''}'' then Some (JObj [], tl r)
         else map_option (apfst (\<lambda>ps. JObj (dict_of ps))) (parse_members n r))
      else if hd s = CHR ''['' then
        (let r = skip_ws (tl s) in
         if r = [] then None
         else if hd r = CHR '']'' then Some (JArr [], tl r)
         else map_option (apfst JArr) (parse_elems n r))
      else if starts ''null'' s then Some (JNull, drop 4 s)
      else if starts ''true'' s then Some (JBool True, drop 4 s)
      else if starts ''false'' s then Some (JBool False, drop 5 s)
      else if starts ''NaN'' s then Some (JFloat ''NaN'', drop 3 s)
      else if starts ''Infinity'' s then Some (JFloat ''Infinity'', drop 8 s)
      else if starts ''-Infinity'' s then Some (JFloat ''-Infinity'', drop 9 s)
      else parse_number s)"
| "parse_elems 0 s = None"
| "parse_elems (Suc n) s =
     (case parse_value n s of
        None \<Rightarrow> None
      | Some (v, r0) \<Rightarrow>
          (let r = skip_ws r0 in
           if r = [] then None
           else if hd r = CHR '']'' then Some ([v], tl r)
           else if hd r = CHR '','' then map_option (apfst ((#) v)) (parse_elems n (skip_ws (tl r)))
           else None))"
| "parse_members 0 s = None"
| "parse_members (Suc n) s =
     (if s = [] \<or> hd s \<noteq> quote then None
      else case parse_string (tl s) of
        None \<Rightarrow> None
      | Some (k, r0) \<Rightarrow>
          (let r = skip_ws r0 in
           if r = [] \<or> hd r \<noteq> CHR '':'' then None
           else case parse_value n (skip_ws (tl r)) of
             None \<Rightarrow> None
           | Some (v, q0) \<Rightarrow>
               (let q = skip_ws q0 in
                if q = [] then None
                else if hd q = CHR ''}'' then Some ([(k, v)], tl q)
                else if hd q = CHR '','' then
                  map_option (apfst ((#) (k, v))) (parse_members n (skip_ws (tl q)))
                else None)))"

definition loads :: "string \<Rightarrow> json option" where
  "loads s =
     (case parse_value (Suc (length s)) (skip_ws s) of
        None \<Rightarrow> None
      | Some (v, r) \<Rightarrow> if skip_ws r = [] then Some v else None)"

text \<open>\<open>d[k]\<close> on a value read back: \<open>None\<close> where Python raises.\<close>

fun json_get :: "string \<Rightarrow> json \<Rightarrow> json option" where
  "json_get k (JObj ps) = map_of ps k"
| "json_get k _ = None"

section \<open>Reading back what was written\<close>

text \<open>Values that come back unchanged: no float literals, dictionaries with distinct keys.\<close>

fun plain_json :: "json \<Rightarrow> bool" where
  "plain_json (JFloat s) = False"
| "plain_json (JArr js) = (\<forall>j \<in> set js. plain_json j)"
| "plain_json (JObj ps) = (distinct (map fst ps) \<and> (\<forall>p \<in> set ps. plain_json (snd p)))"
| "plain_json _ = True"

lemma is_digit_ord: "is_digit c \<longleftrightarrow> 48 \<le> ord c \<and> ord c \<le> 57"
  by (simp add: is_digit_def ord_def)

lemma hex4_hex_str: "n < 65536 \<Longrightarrow> hex4 (hex_str 4 n) = Some n"
proof -
  assume "n < 65536"
  then have "hex_digits 0 (hex_str 4 n) = Some n" by (intro hex_digits_hex_str) simp
  moreover have "list_all (\<lambda>c. hex_val c \<noteq> None) (hex_str 4 n)"
    using hex_str_digits by (fastforce simp: list_all_iff)
  ultimately show ?thesis by (simp add: hex4_def del: hex_str.simps)
qed

lemma ord_less: "ord c < 256"
  by (simp add: ord_def nat_of_char_less_256)

lemma char_of_ord: "ord c = n \<Longrightarrow> char_of n = c"
  by (auto simp: ord_def)

lemma escape_char_back:
  "parse_string (escape_char c @ r) = map_option (apfst ((#) c)) (parse_string r)"
proof -
  consider "c = quote" | "c = backslash" | "ord c \<in> {8, 9, 10, 12, 13}"
    | (hex) "c \<noteq> quote" "c \<noteq> backslash" "ord c \<notin> {8, 9, 10, 12, 13}" "ord c < 32 \<or> 126 < ord c"
    | (plain) "c \<noteq> quote" "c \<noteq> backslash" "32 \<le> ord c" "ord c \<le> 126"
    by linarith
  then show ?thesis
  proof cases
    case hex
    then have "escape_char c = [backslash, CHR ''u''] @ hex_str 4 (ord c)"
      by (simp add: escape_char_def del: hex_str.simps)
    moreover have "hex4 (hex_str 4 (ord c)) = Some (ord c)"
      using ord_less [of c] by (intro hex4_hex_str) simp
    ultimately show ?thesis
      using ord_less [of c] char_of_ord [of c]
      by (simp add: quote_def backslash_def del: hex_str.simps)
  next
    case plain
    then show ?thesis by (simp add: escape_char_def)
  qed (auto simp: escape_char_def unescape_def quote_def backslash_def ord_def char_of_ord [unfolded ord_def])
qed

lemma parse_dumps_string:
  "parse_string (concat (map escape_char s) @ quote # r) = Some (s, r)"
  by (induction s) (simp_all add: escape_char_back)

text \<open>What may follow a number without being read as part of it.\<close>

definition number_stop :: "string \<Rightarrow> bool" where
  "number_stop r \<longleftrightarrow>
     r = [] \<or> \<not> is_digit (hd r) \<and> hd r \<noteq> CHR ''.'' \<and> hd r \<noteq> CHR ''e'' \<and> hd r \<noteq> CHR ''E''"

lemma nat_str_leading_zero: "hd (nat_str n) = CHR ''0'' \<Longrightarrow> n = 0"
proof (induction n rule: nat_str.induct)
  case (1 n)
  show ?case
  proof (cases "n < 10")
    case True
    then have "digit_val (hd (nat_str n)) = n" by (simp add: nat_str.simps [of n] digit_val_digit_char)
    with 1(2) show ?thesis by (simp add: digit_val_def)
  next
    case False
    then have "hd (nat_str n) = hd (nat_str (n div 10))" by (simp add: nat_str.simps [of n])
    with False 1 show ?thesis by simp
  qed
qed

lemma number_stop_parts: "number_stop r \<Longrightarrow> frac_part r = [] \<and> exp_part r = []"
  by (auto simp: number_stop_def frac_part_def exp_part_def)

lemma parse_number_int_str:
  assumes "number_stop r"
  shows "parse_number (int_str n @ r) = Some (JInt n, r)"
proof -
  define ds where "ds = nat_str (nat \<bar>n\<bar>)"
  have ne: "ds \<noteq> []" and dig: "\<forall>c \<in> set ds. is_digit c" and num: "nat_of_digits ds = nat \<bar>n\<bar>"
    by (simp_all add: ds_def nat_str_digits nat_of_digits_nat_str)
  have zero: "ds = ''0''" if "hd ds = CHR ''0''"
    using nat_str_leading_zero [of "nat \<bar>n\<bar>"] that
    by (simp add: ds_def nat_str.simps [of 0] digit_char_def)
  have tw: "takeWhile is_digit (ds @ r) = ds"
    using takeWhile_digits [OF dig] assms by (auto simp: number_stop_def)

  have "is_digit (hd ds)" using ne dig by simp
  then have hd: "hd ds \<noteq> CHR ''-''" by (auto simp: is_digit_def)
  have s: "int_str n @ r = (if n < 0 then ''-'' else '''') @ ds @ r"
    by (simp add: int_str_def ds_def)
  show ?thesis
  proof (cases "hd ds = CHR ''0''")
    case True
    then have ds: "ds = ''0''" by (rule zero)
    with num have "n = 0" by (simp add: nat_of_digits_def digit_val_def)
    with s ds show ?thesis
      by (simp add: parse_number_def Let_def nat_of_digits_def digit_val_def number_stop_parts [OF assms])
  next
    case False
    then show ?thesis
      using s hd by (cases "n < 0")
        (simp_all add: parse_number_def Let_def ne tw num number_stop_parts [OF assms])
  qed
qed

subsection \<open>Dictionaries, arrays and nesting\<close>

lemma dict_set_new: "k \<notin> fst ` set d \<Longrightarrow> dict_set k v d = d @ [(k, v)]"
  by (induction k v d rule: dict_set.induct) auto

lemma dict_of_append:
  "distinct (map fst (d @ ps)) \<Longrightarrow> foldl (\<lambda>d (k, v). dict_set k v d) d ps = d @ ps"
proof (induction ps arbitrary: d)
  case Nil
  then show ?case by simp
next
  case (Cons p ps)
  obtain k v where p: "p = (k, v)" by fastforce
  with Cons.prems have "dict_set k v d = d @ [(k, v)]"
    by (intro dict_set_new) auto
  with Cons p show ?case by simp
qed

lemma dict_of_distinct: "distinct (map fst ps) \<Longrightarrow> dict_of ps = ps"
  unfolding dict_of_def using dict_of_append [of "[]" ps] by simp

lemma starts_hd: "starts p s \<Longrightarrow> p \<noteq> [] \<Longrightarrow> s \<noteq> [] \<and> hd s = hd p"
  unfolding starts_def by (cases s; cases p) auto

lemma starts_cons [simp]:
  "starts [] s" "starts (c # cs) s \<longleftrightarrow> s \<noteq> [] \<and> hd s = c \<and> starts cs (tl s)"
  by (cases s; auto simp: starts_def)+

lemma skip_ws_cons [simp]: "\<not> is_ws c \<Longrightarrow> skip_ws (c # s) = c # s" "skip_ws (CHR '' '' # s) = skip_ws s"
  "skip_ws [] = []"
  by (simp_all add: skip_ws_def is_ws_def)

lemma is_ws_ascii [simp]:
  "\<not> is_ws (CHR '','')" "\<not> is_ws (CHR '':'')" "\<not> is_ws (CHR '']'')" "\<not> is_ws (CHR ''}'')"
  "\<not> is_ws quote" "\<not> is_ws (CHR ''['')" "\<not> is_ws (CHR ''{'')" "\<not> is_ws (CHR ''-'')"
  "\<not> is_ws (CHR ''n'')" "\<not> is_ws (CHR ''t'')" "\<not> is_ws (CHR ''f'')"
  by (simp_all add: is_ws_def ord_def quote_def)

lemma is_ws_digit: "is_digit c \<Longrightarrow> \<not> is_ws c"
  by (auto simp: is_ws_def is_digit_ord ord_def)

text \<open>The first character of a value: never white space, a closing bracket or a separator.\<close>

definition value_start :: "string \<Rightarrow> bool" where
  "value_start s \<longleftrightarrow> s \<noteq> [] \<and> \<not> is_ws (hd s) \<and> hd s \<noteq> CHR '']'' \<and> hd s \<noteq> CHR ''}''"

lemma int_str_start: "int_str n \<noteq> [] \<and> (hd (int_str n) = CHR ''-'' \<or> is_digit (hd (int_str n)))"
  using nat_str_digits [of "nat \<bar>n\<bar>"] by (auto simp: int_str_def)

lemma dumps_start: "plain_json j \<Longrightarrow> value_start (dumps j)"
proof (cases j)
  case (JInt n)
  have "hd (int_str n) \<noteq> CHR '']''" "hd (int_str n) \<noteq> CHR ''}''" "\<not> is_ws (hd (int_str n))"
    using int_str_start [of n] is_ws_digit by (auto simp: is_digit_def)
  with JInt int_str_start [of n] show ?thesis by (simp add: value_start_def)
qed (auto simp: value_start_def dumps_string_def quote_def is_ws_def ord_def)

lemma skip_ws_start: "value_start s \<Longrightarrow> skip_ws (s @ r) = s @ r"
  by (cases s) (auto simp: value_start_def)

lemma number_stop_simps [simp]:
  "number_stop (CHR '','' # r)" "number_stop (CHR '']'' # r)" "number_stop (CHR ''}'' # r)" "number_stop []"
  by (simp_all add: number_stop_def is_digit_def)

lemma join_comma_cons: "ss \<noteq> [] \<Longrightarrow> join_comma (s # ss) = s @ '', '' @ join_comma ss"
  by (cases ss) auto

lemma join_comma_start: "ss \<noteq> [] \<Longrightarrow> value_start (hd ss) \<Longrightarrow> value_start (join_comma ss)"
  by (cases ss rule: join_comma.cases) (auto simp: value_start_def)

lemma parse_elems_dumps:
  assumes IH: "\<And>j n r. j \<in> set js \<Longrightarrow> length (dumps j) \<le> n \<Longrightarrow> number_stop r \<Longrightarrow>
      parse_value n (dumps j @ r) = Some (j, r)"
    and plain: "\<forall>j \<in> set js. plain_json j" and ne: "js \<noteq> []"
    and fuel: "length (join_comma (map dumps js)) < n"
  shows "parse_elems n (join_comma (map dumps js) @ CHR '']'' # r) = Some (js, r)"
  using assms
proof (induction js arbitrary: n)
  case Nil
  then show ?case by simp
next
  case (Cons j js)
  obtain m where n: "n = Suc m" using Cons.prems(4) by (cases n) auto
  show ?case
  proof (cases "js = []")
    case True
    have "parse_value m (dumps j @ CHR '']'' # r) = Some (j, CHR '']'' # r)"
      using True n Cons.prems(4) by (intro Cons.prems(1)) auto
    with True n show ?thesis by simp
  next
    case False
    let ?rest = "join_comma (map dumps js)"
    have start: "value_start ?rest"
      using False Cons.prems(2) by (intro join_comma_start) (auto simp: hd_map intro: dumps_start)
    have js: "parse_elems m (?rest @ CHR '']'' # r) = Some (js, r)"
      using False n Cons.prems by (intro Cons.IH) (auto simp: join_comma_cons)
    have "parse_value m (dumps j @ CHR '','' # CHR '' '' # ?rest @ CHR '']'' # r) =
        Some (j, CHR '','' # CHR '' '' # ?rest @ CHR '']'' # r)"
      using False n Cons.prems(4) by (intro Cons.prems(1)) (auto simp: join_comma_cons)
    with False n js skip_ws_start [OF start] show ?thesis
      by (simp add: join_comma_cons)
  qed
qed

abbreviation member_str :: "string \<times> json \<Rightarrow> string" where
  "member_str \<equiv> \<lambda>(k, v). dumps_string k @ '': '' @ dumps v"

lemma member_start: "value_start (member_str p)"
  by (cases p) (simp add: value_start_def dumps_string_def quote_def is_ws_def ord_def)

lemma parse_member_string:
  "dumps_string k @ r = quote # concat (map escape_char k) @ quote # r"
  by (simp add: dumps_string_def)

lemma parse_members_dumps:
  assumes IH: "\<And>p n r. p \<in> set ps \<Longrightarrow> length (dumps (snd p)) \<le> n \<Longrightarrow> number_stop r \<Longrightarrow>
      parse_value n (dumps (snd p) @ r) = Some (snd p, r)"
    and plain: "\<forall>p \<in> set ps. plain_json (snd p)" and ne: "ps \<noteq> []"
    and fuel: "length (join_comma (map member_str ps)) < n"
  shows "parse_members n (join_comma (map member_str ps) @ CHR ''}'' # r) = Some (ps, r)"
  using assms
proof (induction ps arbitrary: n)
  case Nil
  then show ?case by simp
next
  case (Cons p ps)
  obtain k v where p: "p = (k, v)" by fastforce
  obtain m where n: "n = Suc m" using Cons.prems(4) by (cases n) auto
  have v: "value_start (dumps v)" using Cons.prems(2) p by (intro dumps_start) simp
  show ?case
  proof (cases "ps = []")
    case True
    have "length (dumps v) \<le> m"
      using True n p Cons.prems(4) by simp
    then have "parse_value m (dumps v @ CHR ''}'' # r) = Some (v, CHR ''}'' # r)"
      using Cons.prems(1) [of p] p by simp
    with True n p skip_ws_start [OF v] show ?thesis
      by (simp add: parse_member_string parse_dumps_string)
  next
    case False
    let ?rest = "join_comma (map member_str ps)"
    have len: "length (dumps v) \<le> m" "length ?rest < m"
      using False n p Cons.prems(4) by (simp_all add: join_comma_cons)
    have start: "value_start ?rest"
      using False member_start by (intro join_comma_start) (simp_all add: hd_map)
    have ps: "parse_members m (?rest @ CHR ''}'' # r) = Some (ps, r)"
      using False len Cons.prems by (intro Cons.IH) auto
    have "parse_value m (dumps v @ CHR '','' # CHR '' '' # ?rest @ CHR ''}'' # r) =
        Some (v, CHR '','' # CHR '' '' # ?rest @ CHR ''}'' # r)"
      using Cons.prems(1) [of p] p len by simp
    with False n p ps skip_ws_start [OF start] skip_ws_start [OF v] show ?thesis
      by (simp add: join_comma_cons parse_member_string parse_dumps_string)
  qed
qed

lemma parse_value_int:
  assumes "number_stop r"
  shows "parse_value (Suc n) (int_str i @ r) = Some (JInt i, r)"
proof -
  let ?s = "int_str i @ r"
  have hd: "hd ?s = CHR ''-'' \<or> is_digit (hd ?s)" and ne: "?s \<noteq> []"
    using int_str_start [of i] by auto
  then have other: "hd ?s \<notin> {quote, CHR ''{'', CHR ''['', CHR ''n'', CHR ''t'', CHR ''f'', CHR ''N'', CHR ''I''}"
    by (auto simp: is_digit_def quote_def)
  have inf: "\<not> starts ''-Infinity'' ?s"
  proof
    assume "starts ''-Infinity'' ?s"
    then have *: "hd ?s = CHR ''-''" "hd (tl ?s) = CHR ''I''" by simp_all
    have d: "is_digit (hd (nat_str (nat \<bar>i\<bar>)))" using nat_str_digits [of "nat \<bar>i\<bar>"] by simp
    show False
    proof (cases "i < 0")
      case True
      then have "hd (tl ?s) = hd (nat_str (nat \<bar>i\<bar>))" by (simp add: int_str_def)
      with * d show False by (simp add: is_digit_def)
    next
      case False
      then have "hd ?s = hd (nat_str (nat \<bar>i\<bar>))" by (simp add: int_str_def)
      with * d show False by (simp add: is_digit_def)
    qed
  qed
  moreover have "\<not> starts p ?s" if "p \<noteq> []" "hd p \<in> {CHR ''n'', CHR ''t'', CHR ''f'', CHR ''N'', CHR ''I''}" for p
    using starts_hd [OF _ that(1), of ?s] that(2) other by auto
  ultimately have "parse_value (Suc n) ?s = parse_number ?s"
    using ne other by (auto simp del: starts_cons)
  then show ?thesis by (simp only: parse_number_int_str [OF assms])
qed

lemma parse_value_dumps:
  "plain_json j \<Longrightarrow> length (dumps j) \<le> n \<Longrightarrow> number_stop r \<Longrightarrow>
     parse_value n (dumps j @ r) = Some (j, r)"
proof (induction j arbitrary: n r)
  case JNull
  then show ?case by (cases n) (simp_all add: quote_def)
next
  case (JBool b)
  then show ?case by (cases n; cases b) (simp_all add: quote_def)
next
  case (JInt i)
  obtain m where "n = Suc m" using JInt.prems(2) int_str_start [of i] by (cases n) auto
  with JInt.prems(3) show ?case by (simp only: dumps.simps parse_value_int)
next
  case (JFloat s)
  then show ?case by simp
next
  case (JStr s)
  then show ?case
    by (cases n) (simp_all add: parse_member_string parse_dumps_string, simp add: dumps_string_def)
next
  case (JArr js)
  obtain m where n: "n = Suc m" using JArr.prems(2) by (cases n) auto
  show ?case
  proof (cases "js = []")
    case True
    with n show ?thesis by (simp add: quote_def)
  next
    case False
    have "value_start (join_comma (map dumps js))"
      using False JArr.prems(1) by (intro join_comma_start) (auto simp: hd_map intro: dumps_start)
    then have start: "skip_ws (join_comma (map dumps js) @ CHR '']'' # r) = join_comma (map dumps js) @ CHR '']'' # r"
      "join_comma (map dumps js) \<noteq> []" "hd (join_comma (map dumps js)) \<noteq> CHR '']''"
      by (simp_all add: skip_ws_start value_start_def)
    have "parse_elems m (join_comma (map dumps js) @ CHR '']'' # r) = Some (js, r)"
      using False JArr.prems n by (intro parse_elems_dumps JArr.IH) auto
    with n start show ?thesis by (simp add: quote_def)
  qed
next
  case (JObj ps)
  obtain m where n: "n = Suc m" using JObj.prems(2) by (cases n) auto
  show ?case
  proof (cases "ps = []")
    case True
    with n show ?thesis by (simp add: quote_def)
  next
    case False
    have "value_start (join_comma (map member_str ps))"
      using False member_start by (intro join_comma_start) (simp_all add: hd_map)
    then have start: "skip_ws (join_comma (map member_str ps) @ CHR ''}'' # r) = join_comma (map member_str ps) @ CHR ''}'' # r"
      "join_comma (map member_str ps) \<noteq> []" "hd (join_comma (map member_str ps)) \<noteq> CHR ''}''"
      by (simp_all add: skip_ws_start value_start_def)
    have IH: "parse_value n (dumps (snd p) @ r) = Some (snd p, r)"
      if "p \<in> set ps" "length (dumps (snd p)) \<le> n" "number_stop r" for p n r
    proof -
      have "plain_json (snd p)" using that(1) JObj.prems(1) by simp
      then show ?thesis using JObj.IH [of p "snd p"] that by (cases p) simp
    qed
    have "parse_members m (join_comma (map member_str ps) @ CHR ''}'' # r) = Some (ps, r)"
      using False JObj.prems n by (intro parse_members_dumps IH) auto
    with n start JObj.prems(1) show ?thesis by (simp add: quote_def dict_of_distinct)
  qed
qed

lemma loads_dumps: "plain_json j \<Longrightarrow> loads (dumps j) = Some j"
proof -
  assume j: "plain_json j"
  have "skip_ws (dumps j) = dumps j" using skip_ws_start [OF dumps_start [OF j], of "[]"] by simp
  moreover have "parse_value (Suc (length (dumps j))) (dumps j @ []) = Some (j, [])"
    by (rule parse_value_dumps [OF j]) simp_all
  ultimately show ?thesis by (simp add: loads_def)
qed

lemma dumps_nonempty [simp]: "plain_json j \<Longrightarrow> dumps j \<noteq> []"
  using dumps_start [of j] by (simp add: value_start_def)

end
