(* ===== verification/Connections.thy ===== *)
theory Connections
  imports Metadata Security
begin

text \<open>
  The module-level objects of \<open>app/core/database.py\<close> and \<open>app/core/redis.py\<close>, as the options they are made
  with, \<open>get_settings\<close>, \<open>get_redis\<close>, and \<open>scripts/init_db.py\<close>. The engine is a parameter: what is assumed of it is that
  \<open>engine.begin()\<close> is a transaction and that \<open>create_all\<close> adds the tables that are missing.
\<close>

section \<open>The settings\<close>

text \<open>
  \<open>get_settings\<close> under \<open>lru_cache\<close>: \<open>load\<close> is the parsing of the environment and of \<open>.env\<close>, which may fail;
  \<open>cached\<close> and \<open>keep\<close> are the cache of the function in the world. An exception is not cached.
\<close>

definition get_settings ::
  "('w \<Rightarrow> settings option) \<Rightarrow> (settings \<Rightarrow> 'w \<Rightarrow> 'w) \<Rightarrow> ('w, settings) io \<Rightarrow> ('w, settings) io" where
  "get_settings cached keep load w =
     (case cached w of
        Some s \<Rightarrow> (Inr s, w)
      | None \<Rightarrow> (case load w of (Inl e, w') \<Rightarrow> (Inl e, w') | (Inr s, w') \<Rightarrow> (Inr s, keep s w')))"

text \<open>So every module of a process has the same settings, and the environment is read once.\<close>

lemma settings_are_read_once:
  assumes "\<And>s w. cached (keep s w) = Some s" and "get_settings cached keep load w = (Inr s, w1)"
  shows "cached w1 = Some s" and "get_settings cached keep load' w1 = (Inr s, w1)"
proof -
  show c: "cached w1 = Some s"
    using assms by (auto simp: get_settings_def split: option.splits prod.splits sum.splits)
  then show "get_settings cached keep load' w1 = (Inr s, w1)" by (simp add: get_settings_def)
qed

section \<open>The engine, the session factory and the client\<close>

record engine_options =
  eo_database_url :: string
  eo_echo :: bool
  eo_pool_size :: nat
  eo_max_overflow :: nat
  eo_pool_timeout :: nat
  eo_pool_recycle :: nat
  eo_pool_pre_ping :: bool

definition create_engine :: "settings \<Rightarrow> engine_options" where
  "create_engine settings =
     \<lparr>eo_database_url = st_database_url settings, eo_echo = st_debug settings, eo_pool_size = 20, eo_max_overflow = 10,
      eo_pool_timeout = 30, eo_pool_recycle = 1800, eo_pool_pre_ping = True\<rparr>"

text \<open>\<open>so_expire_on_commit\<close> is why \<open>lawful_session\<close> lets a commit expire nothing.\<close>

record session_options =
  so_bind :: engine_options
  so_expire_on_commit :: bool

definition async_session_factory :: "settings \<Rightarrow> session_options" where
  "async_session_factory settings = \<lparr>so_bind = create_engine settings, so_expire_on_commit = False\<rparr>"

record redis_options =
  ro_url :: string
  ro_encoding :: string
  ro_decode_responses :: bool

definition redis_from_url :: "settings \<Rightarrow> redis_options" where
  "redis_from_url settings = \<lparr>ro_url = st_redis_url settings, ro_encoding = ''utf-8'', ro_decode_responses = True\<rparr>"

definition get_redis :: "'r \<Rightarrow> ('w, 'r) io" where
  "get_redis client = py_return client"

section \<open>The script that makes the tables\<close>

record 'w ddl =
  ddl_begin :: "('w, unit) io"
  ddl_create_all :: "table list \<Rightarrow> ('w, unit) io"
  ddl_commit :: "('w, unit) io"
  ddl_rollback :: "('w, unit) io"
  ddl_dispose :: "('w, unit) io"

text \<open>\<open>async with engine.begin() as conn: body\<close>.\<close>

definition engine_begin :: "'w ddl \<Rightarrow> ('w, unit) io \<Rightarrow> ('w, unit) io" where
  "engine_begin e body =
     py_bind (ddl_begin e) (\<lambda>_.
     py_bind (py_catch body (\<lambda>exn. py_bind (ddl_rollback e) (\<lambda>_. py_raise exn))) (\<lambda>_. ddl_commit e))"

definition init_db :: "(string \<Rightarrow> ('w, unit) io) \<Rightarrow> 'w ddl \<Rightarrow> ('w, unit) io" where
  "init_db print e =
     py_bind (print ''Creating database tables...'') (\<lambda>_.
     py_bind (engine_begin e (ddl_create_all e base_metadata)) (\<lambda>_.
     py_bind (print ''Tables created successfully!'') (\<lambda>_. ddl_dispose e)))"

section \<open>What it leaves\<close>

text \<open>The tables that are there, committed and as the transaction sees them, and what was printed.\<close>

record 'w catalog =
  ct_durable :: "'w \<Rightarrow> string \<rightharpoonup> table"
  ct_view :: "'w \<Rightarrow> string \<rightharpoonup> table"
  ct_printed :: "'w \<Rightarrow> string list"

text \<open>A table that exists is left as it is, whatever its columns.\<close>

definition with_missing :: "table list \<Rightarrow> (string \<rightharpoonup> table) \<Rightarrow> (string \<rightharpoonup> table)" where
  "with_missing md c = map_of (map (\<lambda>tb. (tb_name tb, tb)) md) ++ c"

definition ddl_keeps :: "'w catalog \<Rightarrow> 'w \<Rightarrow> 'w \<Rightarrow> bool" where
  "ddl_keeps C w w' \<longleftrightarrow> ct_durable C w' = ct_durable C w \<and> ct_printed C w' = ct_printed C w"

definition lawful_ddl :: "(string \<Rightarrow> ('w, unit) io) \<Rightarrow> 'w ddl \<Rightarrow> 'w catalog \<Rightarrow> bool" where
  "lawful_ddl print e C \<longleftrightarrow>
     (\<forall>s w. wp (print s)
        (\<lambda>_ w'. ct_durable C w' = ct_durable C w \<and> ct_printed C w' = ct_printed C w @ [s])
        (\<lambda>_ w'. ddl_keeps C w w') w) \<and>
     (\<forall>w. wp (ddl_begin e) (\<lambda>_ w'. ddl_keeps C w w' \<and> ct_view C w' = ct_durable C w') (\<lambda>_ w'. ddl_keeps C w w') w) \<and>
     (\<forall>md w. wp (ddl_create_all e md) (\<lambda>_ w'. ddl_keeps C w w' \<and> ct_view C w' = with_missing md (ct_view C w))
        (\<lambda>_ w'. ddl_keeps C w w') w) \<and>
     (\<forall>w. wp (ddl_commit e) (\<lambda>_ w'. ct_durable C w' = ct_view C w \<and> ct_printed C w' = ct_printed C w)
        (\<lambda>_ w'. ct_durable C w' \<in> {ct_durable C w, ct_view C w} \<and> ct_printed C w' = ct_printed C w) w) \<and>
     (\<forall>w. wp (ddl_rollback e) (\<lambda>_ w'. ddl_keeps C w w') (\<lambda>_ w'. ddl_keeps C w w') w) \<and>
     (\<forall>w. wp (ddl_dispose e) (\<lambda>_ w'. ddl_keeps C w w') (\<lambda>_ w'. ddl_keeps C w w') w)"

lemma ddl_laws:
  assumes "lawful_ddl print e C"
  shows "wp (print s)
      (\<lambda>_ w'. ct_durable C w' = ct_durable C w \<and> ct_printed C w' = ct_printed C w @ [s]) (\<lambda>_ w'. ddl_keeps C w w') w"
    and "wp (ddl_begin e) (\<lambda>_ w'. ddl_keeps C w w' \<and> ct_view C w' = ct_durable C w') (\<lambda>_ w'. ddl_keeps C w w') w"
    and "wp (ddl_create_all e md) (\<lambda>_ w'. ddl_keeps C w w' \<and> ct_view C w' = with_missing md (ct_view C w))
      (\<lambda>_ w'. ddl_keeps C w w') w"
    and "wp (ddl_commit e) (\<lambda>_ w'. ct_durable C w' = ct_view C w \<and> ct_printed C w' = ct_printed C w)
      (\<lambda>_ w'. ct_durable C w' \<in> {ct_durable C w, ct_view C w} \<and> ct_printed C w' = ct_printed C w) w"
    and "wp (ddl_rollback e) (\<lambda>_ w'. ddl_keeps C w w') (\<lambda>_ w'. ddl_keeps C w w') w"
    and "wp (ddl_dispose e) (\<lambda>_ w'. ddl_keeps C w w') (\<lambda>_ w'. ddl_keeps C w w') w"
  using assms by (simp_all add: lawful_ddl_def)

lemma wp_engine_begin:
  assumes e: "lawful_ddl print e C"
  shows "wp (engine_begin e (ddl_create_all e md))
    (\<lambda>_ w'. ct_durable C w' = with_missing md (ct_durable C w) \<and> ct_printed C w' = ct_printed C w)
    (\<lambda>_ w'. ct_durable C w' \<in> {ct_durable C w, with_missing md (ct_durable C w)} \<and> ct_printed C w' = ct_printed C w) w"
    (is "wp _ (\<lambda>_. ?Q w) (\<lambda>_. ?E w) w")
proof -
  note L = ddl_laws [OF e]
  have rollback: "wp (ddl_rollback e) (\<lambda>_. ?E w) (\<lambda>_. ?E w) w1" if "ddl_keeps C w w1" for w1
    by (rule wp_mono [OF L(5)]) (use that in \<open>simp_all add: ddl_keeps_def\<close>)
  have commit: "wp (ddl_commit e) (\<lambda>_. ?Q w) (\<lambda>_. ?E w) w1"
    if "ddl_keeps C w w1" "ct_view C w1 = with_missing md (ct_durable C w)" for w1
    by (rule wp_mono [OF L(4)]) (use that in \<open>simp_all add: ddl_keeps_def\<close>)
  have create: "wp (ddl_create_all e md) (\<lambda>_. wp (ddl_commit e) (\<lambda>_. ?Q w) (\<lambda>_. ?E w))
      (\<lambda>_. wp (ddl_rollback e) (\<lambda>_. ?E w) (\<lambda>_. ?E w)) w1"
    if "ddl_keeps C w w1" "ct_view C w1 = ct_durable C w1" for w1
  proof (rule wp_mono [OF L(3)], goal_cases)
    case (1 a w2)
    then show ?case by (intro commit) (use that in \<open>simp_all add: ddl_keeps_def\<close>)
  next
    case (2 exn w2)
    then show ?case by (intro rollback) (use that in \<open>simp add: ddl_keeps_def\<close>)
  qed
  show ?thesis
    unfolding engine_begin_def wp_bind wp_catch wp_raise
    by (rule wp_mono [OF L(2)]) (blast intro: create, simp add: ddl_keeps_def)
qed

text \<open>
  The script returns with every missing table made and the others as they were; when it fails, all of
  the missing tables were made or none, and it has not said that they were unless they were.
\<close>

lemma wp_init_db:
  assumes e: "lawful_ddl print e C"
  shows "wp (init_db print e)
    (\<lambda>_ w'. ct_durable C w' = with_missing base_metadata (ct_durable C w) \<and>
       ct_printed C w' = ct_printed C w @ [''Creating database tables...'', ''Tables created successfully!''])
    (\<lambda>_ w'. ct_durable C w' = with_missing base_metadata (ct_durable C w) \<or>
       ct_durable C w' = ct_durable C w \<and> ct_printed C w' \<in> {ct_printed C w, ct_printed C w @ [''Creating database tables...'']}) w"
    (is "wp _ (\<lambda>_. ?Q w) (\<lambda>_. ?E w) w")
proof -
  note L = ddl_laws [OF e]
  have dispose: "wp (ddl_dispose e) (\<lambda>_. ?Q w) (\<lambda>_. ?E w) w1" if "?Q w w1" for w1
    by (rule wp_mono [OF L(6)]) (use that in \<open>simp_all add: ddl_keeps_def\<close>)
  have told: "wp (print ''Tables created successfully!'') (\<lambda>_. wp (ddl_dispose e) (\<lambda>_. ?Q w) (\<lambda>_. ?E w)) (\<lambda>_. ?E w) w1"
    if "ct_durable C w1 = with_missing base_metadata (ct_durable C w)"
      "ct_printed C w1 = ct_printed C w @ [''Creating database tables...'']" for w1
    by (rule wp_mono [OF L(1)], rule dispose) (use that in \<open>simp_all add: ddl_keeps_def\<close>)
  have create: "wp (engine_begin e (ddl_create_all e base_metadata))
      (\<lambda>_. wp (print ''Tables created successfully!'') (\<lambda>_. wp (ddl_dispose e) (\<lambda>_. ?Q w) (\<lambda>_. ?E w)) (\<lambda>_. ?E w)) (\<lambda>_. ?E w) w1"
    if "ct_durable C w1 = ct_durable C w" "ct_printed C w1 = ct_printed C w @ [''Creating database tables...'']" for w1
    by (rule wp_mono [OF wp_engine_begin [OF e]], rule told) (use that in auto)
  show ?thesis
    unfolding init_db_def wp_bind
    by (rule wp_mono [OF L(1)], rule create) (auto simp: ddl_keeps_def)
qed

text \<open>Then the three tables are there; running the script again changes nothing.\<close>

lemma created_again: "with_missing md (with_missing md c) = with_missing md c"
proof -
  have "m ++ m = m" for m :: "string \<rightharpoonup> table" by (simp add: map_add_def fun_eq_iff split: option.split)
  then show ?thesis unfolding with_missing_def map_add_assoc by simp
qed

lemma created_tables:
  "with_missing base_metadata Map.empty =
     [''transactions'' \<mapsto> transaction_table, ''wallets'' \<mapsto> wallet_table, ''users'' \<mapsto> user_table]"
  by (simp add: with_missing_def base_metadata_def table_names)

text \<open>The laws hold together: a catalog in memory whose calls do not fail.\<close>

type_synonym mem_catalog = "(string \<rightharpoonup> table) \<times> (string \<rightharpoonup> table) \<times> string list"

definition mem_print :: "string \<Rightarrow> (mem_catalog, unit) io" where
  "mem_print s w = (case w of (d, v, out) \<Rightarrow> (Inr (), d, v, out @ [s]))"

definition mem_ddl :: "mem_catalog ddl" where
  "mem_ddl =
     \<lparr>ddl_begin = \<lambda>(d, v, out). (Inr (), d, d, out), ddl_create_all = \<lambda>md (d, v, out). (Inr (), d, with_missing md v, out),
      ddl_commit = \<lambda>(d, v, out). (Inr (), v, v, out), ddl_rollback = \<lambda>(d, v, out). (Inr (), d, d, out),
      ddl_dispose = \<lambda>w. (Inr (), w)\<rparr>"

definition mem_catalog :: "mem_catalog catalog" where
  "mem_catalog = \<lparr>ct_durable = fst, ct_view = fst \<circ> snd, ct_printed = snd \<circ> snd\<rparr>"

lemma lawful_mem_ddl: "lawful_ddl mem_print mem_ddl mem_catalog"
  by (simp add: lawful_ddl_def mem_ddl_def mem_print_def mem_catalog_def wp_def ddl_keeps_def split: prod.split)

text \<open>On an empty database, then, the script makes the three tables and says so.\<close>

lemma init_db_on_empty:
  "wp (init_db mem_print mem_ddl)
    (\<lambda>_ w'. ct_durable mem_catalog w' =
         [''transactions'' \<mapsto> transaction_table, ''wallets'' \<mapsto> wallet_table, ''users'' \<mapsto> user_table] \<and>
       ct_printed mem_catalog w' = [''Creating database tables...'', ''Tables created successfully!''])
    (\<lambda>_ _. True) (Map.empty, Map.empty, [])"
  by (rule wp_mono [OF wp_init_db [OF lawful_mem_ddl]]) (simp_all add: mem_catalog_def created_tables)

end
