(* ===== verification/Session.thy ===== *)
theory Session
  imports Models Errors
begin

text \<open>
  SQLAlchemy's \<open>AsyncSession\<close> over PostgreSQL is not code of the repository: it is the parameter
  \<open>db\<close> of the services, a record of the calls they make on it. \<open>lawful_session\<close> collects what
  the documentation of the two libraries promises for each call, over an abstraction of the world:
  what the next statement sees, what is committed, which wallet rows this transaction has locked,
  and the attribute state of the objects in the session's identity map. Other
  sessions commit between any two calls, within a relation \<open>R\<close> about which only row
  locks and the program's own discipline on rows are assumed.
\<close>

section \<open>The calls\<close>

datatype wallet_cond = Wallet_user_id uuid | Wallet_id uuid
datatype user_cond = User_id uuid | User_email string
datatype txn_cond = Txn_idempotency_key string | Txn_id uuid | Txn_wallet_id uuid

text \<open>
  Objects are named by their identity key, the primary key. A select stands for
  \<open>execute\<close> followed by \<open>scalar_one_or_none\<close> (its flag is \<open>with_for_update\<close>), an insert for
  \<open>add\<close> followed by \<open>flush\<close>, and reading attributes of a mapped object is a call of its own,
  since an expired attribute cannot be loaded implicitly in an asynchronous session.
\<close>

record 'w session =
  select_user :: "user_cond \<Rightarrow> ('w, uuid option) io"
  select_wallet :: "wallet_cond \<Rightarrow> bool \<Rightarrow> ('w, uuid option) io"
  select_txn :: "txn_cond \<Rightarrow> ('w, uuid option) io"
  count_txns :: "txn_cond \<Rightarrow> ('w, nat) io"
  page_txns :: "txn_cond \<Rightarrow> int \<Rightarrow> int \<Rightarrow> ('w, uuid list) io"
  update_wallet :: "uuid \<Rightarrow> int \<Rightarrow> decimal \<Rightarrow> int \<Rightarrow> ('w, nat) io"
  insert_user :: "new_user \<Rightarrow> ('w, uuid) io"
  insert_wallet :: "uuid \<Rightarrow> ('w, uuid) io"
  insert_txn :: "new_transaction \<Rightarrow> ('w, uuid) io"
  commit_tx :: "('w, unit) io"
  rollback_tx :: "('w, unit) io"
  refresh_user :: "uuid \<Rightarrow> ('w, unit) io"
  refresh_wallet :: "uuid \<Rightarrow> ('w, unit) io"
  refresh_txn :: "uuid \<Rightarrow> ('w, unit) io"
  user_attrs :: "uuid \<Rightarrow> ('w, user) io"
  wallet_attrs :: "uuid \<Rightarrow> ('w, wallet) io"
  txn_attrs :: "uuid \<Rightarrow> ('w, transaction) io"
  set_wallet_balance :: "uuid \<Rightarrow> decimal \<Rightarrow> ('w, unit) io"

fun wallet_matches :: "wallet_cond \<Rightarrow> wallet \<Rightarrow> bool" where
  "wallet_matches (Wallet_user_id u) x = (w_user_id x = u)"
| "wallet_matches (Wallet_id k) x = (w_id x = k)"

fun user_matches :: "user_cond \<Rightarrow> user \<Rightarrow> bool" where
  "user_matches (User_id k) x = (u_id x = k)"
| "user_matches (User_email e) x = (u_email x = e)"

fun txn_matches :: "txn_cond \<Rightarrow> transaction \<Rightarrow> bool" where
  "txn_matches (Txn_idempotency_key s) x = (t_idempotency_key x = s)"
| "txn_matches (Txn_id k) x = (t_id x = k)"
| "txn_matches (Txn_wallet_id k) x = (t_sender_wallet_id x = k \<or> t_receiver_wallet_id x = k)"

section \<open>What is observed of the world\<close>

record 'w absn =
  view :: "'w \<Rightarrow> tables"
  durable :: "'w \<Rightarrow> tables"
  locked :: "'w \<Rightarrow> uuid set"
  loaded_user :: "'w \<Rightarrow> uuid \<rightharpoonup> user"
  loaded_wallet :: "'w \<Rightarrow> uuid \<rightharpoonup> wallet"
  loaded_txn :: "'w \<Rightarrow> uuid \<rightharpoonup> transaction"
  dirty :: "'w \<Rightarrow> bool"

type_synonym rely = "uuid set \<Rightarrow> tables \<Rightarrow> tables \<Rightarrow> bool"

text \<open>
  \<open>R L t t'\<close>: while this session holds the row locks \<open>L\<close>, other sessions may take the tables
  from \<open>t\<close> to \<open>t'\<close>. A locked row does not change, and what others do does not depend on
  this session's uncommitted values of the rows it has locked.
\<close>

definition rely_ok :: "rely \<Rightarrow> bool" where
  "rely_ok R \<longleftrightarrow>
     (\<forall>L t. R L t t) \<and>
     (\<forall>L t u v. R L t u \<longrightarrow> R L u v \<longrightarrow> R L t v) \<and>
     (\<forall>L M t u. R L t u \<longrightarrow> M \<subseteq> L \<longrightarrow> R M t u) \<and>
     (\<forall>L t u k. R L t u \<longrightarrow> k \<in> L \<longrightarrow> wallets u k = wallets t k) \<and>
     (\<forall>L t u k x. R L t u \<longrightarrow> wallets t k = Some x \<longrightarrow> (\<exists>y. wallets u k = Some y \<and> later x y)) \<and>
     (\<forall>L t u. R L t u \<longrightarrow> txns t \<subseteq>\<^sub>m txns u \<and> users t \<subseteq>\<^sub>m users u) \<and>
     (\<forall>L t u x y. R L t u \<longrightarrow> wallets t (w_id x) = Some y \<longrightarrow> w_user_id y = w_user_id x \<longrightarrow> w_id x \<in> L \<longrightarrow>
        R L (put_wallet x t) (put_wallet x u))"

text \<open>
  A statement that leaves this session seeing \<open>t\<close> with the locks \<open>L\<close>, up to what others commit
  (read committed: without writes of its own it goes on seeing what is durable).
\<close>

definition tx_step :: "'w absn \<Rightarrow> rely \<Rightarrow> uuid set \<Rightarrow> tables \<Rightarrow> 'w \<Rightarrow> 'w \<Rightarrow> bool" where
  "tx_step V R L t w w' \<longleftrightarrow>
     locked V w' = L \<and> R L t (view V w') \<and> R {} (durable V w) (durable V w') \<and>
     (t = durable V w \<longrightarrow> view V w' = durable V w') \<and> dirty V w' = dirty V w"

definition same_objects :: "'w absn \<Rightarrow> 'w \<Rightarrow> 'w \<Rightarrow> bool" where
  "same_objects V w w' \<longleftrightarrow> loaded_user V w' = loaded_user V w \<and>
     loaded_wallet V w' = loaded_wallet V w \<and> loaded_txn V w' = loaded_txn V w"

text \<open>A failed call: an exception of the library, and nothing of this session becomes durable.\<close>

definition db_error :: "exn \<Rightarrow> bool" where
  "db_error e \<longleftrightarrow> e \<in> {Library IntegrityError, Library DatabaseError, Library MissingGreenlet}"

definition failed :: "'w absn \<Rightarrow> rely \<Rightarrow> exn \<Rightarrow> 'w \<Rightarrow> 'w \<Rightarrow> bool" where
  "failed V R e w w' \<longleftrightarrow> db_error e \<and> R {} (durable V w) (durable V w')"

section \<open>The laws\<close>

text \<open>
  A select sees the current rows; an object already in the identity map keeps the attributes it
  has (\<open>populate_existing\<close> is not used), a new one takes the row's.
\<close>

definition law_select_wallet :: "'w session \<Rightarrow> 'w absn \<Rightarrow> rely \<Rightarrow> bool" where
  "law_select_wallet db V R \<longleftrightarrow>
     (\<forall>c fu w. \<not> dirty V w \<longrightarrow>
        wp (select_wallet db c fu)
          (\<lambda>r w'. case r of
             None \<Rightarrow> (\<forall>k x. wallets (view V w) k = Some x \<longrightarrow> \<not> wallet_matches c x) \<and>
               tx_step V R (locked V w) (view V w) w w' \<and> same_objects V w w'
           | Some k \<Rightarrow> (\<exists>x. wallets (view V w) k = Some x \<and> w_id x = k \<and> wallet_matches c x \<and>
               numeric_column (w_balance x) \<and>
               tx_step V R (locked V w \<union> (if fu then {k} else {})) (view V w) w w' \<and>
               loaded_wallet V w' = (loaded_wallet V w)
                 (k \<mapsto> (case loaded_wallet V w k of None \<Rightarrow> x | Some y \<Rightarrow> y)) \<and>
               loaded_user V w' = loaded_user V w \<and> loaded_txn V w' = loaded_txn V w))
          (\<lambda>e. failed V R e w) w)"

definition law_select_user :: "'w session \<Rightarrow> 'w absn \<Rightarrow> rely \<Rightarrow> bool" where
  "law_select_user db V R \<longleftrightarrow>
     (\<forall>c w. \<not> dirty V w \<longrightarrow>
        wp (select_user db c)
          (\<lambda>r w'. tx_step V R (locked V w) (view V w) w w' \<and>
             loaded_wallet V w' = loaded_wallet V w \<and> loaded_txn V w' = loaded_txn V w \<and>
             (case r of
                None \<Rightarrow> (\<forall>k x. users (view V w) k = Some x \<longrightarrow> \<not> user_matches c x) \<and>
                  loaded_user V w' = loaded_user V w
              | Some k \<Rightarrow> (\<exists>x. users (view V w) k = Some x \<and> u_id x = k \<and> user_matches c x \<and>
                  loaded_user V w' = (loaded_user V w)
                    (k \<mapsto> (case loaded_user V w k of None \<Rightarrow> x | Some y \<Rightarrow> y)))))
          (\<lambda>e. failed V R e w) w)"

definition law_select_txn :: "'w session \<Rightarrow> 'w absn \<Rightarrow> rely \<Rightarrow> bool" where
  "law_select_txn db V R \<longleftrightarrow>
     (\<forall>c w. \<not> dirty V w \<longrightarrow>
        wp (select_txn db c)
          (\<lambda>r w'. tx_step V R (locked V w) (view V w) w w' \<and>
             loaded_wallet V w' = loaded_wallet V w \<and> loaded_user V w' = loaded_user V w \<and>
             (case r of
                None \<Rightarrow> (\<forall>k x. txns (view V w) k = Some x \<longrightarrow> \<not> txn_matches c x) \<and>
                  loaded_txn V w' = loaded_txn V w
              | Some k \<Rightarrow> (\<exists>x. txns (view V w) k = Some x \<and> t_id x = k \<and> txn_matches c x \<and>
                  loaded_txn V w' = (loaded_txn V w)
                    (k \<mapsto> (case loaded_txn V w k of None \<Rightarrow> x | Some y \<Rightarrow> y)))))
          (\<lambda>e. failed V R e w) w)"

text \<open>
  \<open>SELECT count(*)\<close>, and a page of the rows that match, latest first: a cut of some list of all of
  them ordered by the instant of creation (\<open>ORDER BY created_at DESC OFFSET LIMIT\<close>; which of two
  rows of the same instant comes first is open).
\<close>

definition matching_txns :: "txn_cond \<Rightarrow> tables \<Rightarrow> uuid set" where
  "matching_txns c t = {k. \<exists>x. txns t k = Some x \<and> txn_matches c x}"

definition latest_first :: "tables \<Rightarrow> uuid list \<Rightarrow> bool" where
  "latest_first t ks \<longleftrightarrow>
     sorted_wrt (\<lambda>i j. t_created_at (the (txns t j)) \<le> t_created_at (the (txns t i))) ks"

definition law_history :: "'w session \<Rightarrow> 'w absn \<Rightarrow> rely \<Rightarrow> bool" where
  "law_history db V R \<longleftrightarrow>
     (\<forall>c w. \<not> dirty V w \<longrightarrow>
        wp (count_txns db c)
          (\<lambda>n w'. n = card (matching_txns c (view V w)) \<and>
             tx_step V R (locked V w) (view V w) w w' \<and> same_objects V w w')
          (\<lambda>e. failed V R e w) w) \<and>
     (\<forall>c off lim w. \<not> dirty V w \<longrightarrow> 0 \<le> off \<longrightarrow> 0 \<le> lim \<longrightarrow>
        wp (page_txns db c off lim)
          (\<lambda>ks w'. tx_step V R (locked V w) (view V w) w w' \<and>
             (\<exists>all. distinct all \<and> set all = matching_txns c (view V w) \<and> latest_first (view V w) all \<and>
                ks = take (nat lim) (drop (nat off) all)) \<and>
             loaded_wallet V w' = loaded_wallet V w \<and> loaded_user V w' = loaded_user V w \<and>
             (\<forall>k. loaded_txn V w' k = (if k \<in> set ks \<and> loaded_txn V w k = None
                then txns (view V w) k else loaded_txn V w k)))
          (\<lambda>e. failed V R e w) w)"

text \<open>
  \<open>UPDATE wallets SET balance, version WHERE id AND version\<close>: the number of rows that matched; the
  row is locked, the column refuses what does not fit it and the check constraint a negative
  balance. Attributes of the matching object may be brought up to date.
\<close>

definition law_update_wallet :: "'w session \<Rightarrow> 'w absn \<Rightarrow> rely \<Rightarrow> bool" where
  "law_update_wallet db V R \<longleftrightarrow>
     (\<forall>k ev nb nv w. \<not> dirty V w \<longrightarrow>
        wp (update_wallet db k ev nb nv)
          (\<lambda>n w'. loaded_user V w' = loaded_user V w \<and> loaded_txn V w' = loaded_txn V w \<and>
             (\<forall>j. j \<noteq> k \<longrightarrow> loaded_wallet V w' j = loaded_wallet V w j) \<and>
             (if n = 0
              then (\<forall>x. wallets (view V w) k = Some x \<longrightarrow> w_version x \<noteq> ev) \<and>
                tx_step V R (locked V w) (view V w) w w' \<and>
                (loaded_wallet V w' k = None \<longleftrightarrow> loaded_wallet V w k = None)
              else (\<exists>x b ts. wallets (view V w) k = Some x \<and> w_version x = ev \<and> w_id x = k \<and>
                numeric_18_2 nb b \<and> 0 \<le> coef b \<and>
                tx_step V R (insert k (locked V w)) (put_wallet (rebalance b nv ts x) (view V w)) w w' \<and>
                (loaded_wallet V w' k = loaded_wallet V w k \<or>
                 loaded_wallet V w k \<noteq> None \<and> loaded_wallet V w' k = Some (rebalance b nv ts x)))))
          (\<lambda>e. failed V R e w) w)"

text \<open>
  Inserts fill in the defaults and hold to the constraints, or fail. The new object keeps the
  amount it was given, the row has what the column made of it.
\<close>

definition law_insert_txn :: "'w session \<Rightarrow> 'w absn \<Rightarrow> rely \<Rightarrow> bool" where
  "law_insert_txn db V R \<longleftrightarrow>
     (\<forall>n w. \<not> dirty V w \<longrightarrow>
        wp (insert_txn db n)
          (\<lambda>k w'. \<exists>ts b. let y = transaction_row k ts b n in
             numeric_18_2 (nt_amount n) b \<and> chk_amount_positive y \<and> chk_different_wallets y \<and>
             nt_sender_wallet_id n \<in> dom (wallets (view V w)) \<and>
             nt_receiver_wallet_id n \<in> dom (wallets (view V w)) \<and>
             txns (view V w) k = None \<and>
             (\<forall>j x. txns (view V w) j = Some x \<longrightarrow> t_idempotency_key x \<noteq> nt_idempotency_key n) \<and>
             tx_step V R (locked V w) (put_txn y (view V w)) w w' \<and>
             loaded_txn V w' = (loaded_txn V w)(k \<mapsto> transaction_row k ts (nt_amount n) n) \<and>
             loaded_wallet V w' = loaded_wallet V w \<and> loaded_user V w' = loaded_user V w)
          (\<lambda>e. failed V R e w) w)"

definition law_insert_user :: "'w session \<Rightarrow> 'w absn \<Rightarrow> rely \<Rightarrow> bool" where
  "law_insert_user db V R \<longleftrightarrow>
     (\<forall>n w. \<not> dirty V w \<longrightarrow>
        wp (insert_user db n)
          (\<lambda>k w'. \<exists>c u. let y = user_row k c u n in
             users (view V w) k = None \<and>
             (\<forall>j x. users (view V w) j = Some x \<longrightarrow> u_email x \<noteq> nu_email n) \<and>
             tx_step V R (locked V w) (put_user y (view V w)) w w' \<and>
             loaded_user V w' = (loaded_user V w)(k \<mapsto> y) \<and>
             loaded_wallet V w' = loaded_wallet V w \<and> loaded_txn V w' = loaded_txn V w)
          (\<lambda>e. failed V R e w) w)"

definition law_insert_wallet :: "'w session \<Rightarrow> 'w absn \<Rightarrow> rely \<Rightarrow> bool" where
  "law_insert_wallet db V R \<longleftrightarrow>
     (\<forall>u w. \<not> dirty V w \<longrightarrow>
        wp (insert_wallet db u)
          (\<lambda>k w'. \<exists>c d. let y = wallet_row k c d u in
             wallets (view V w) k = None \<and> u \<in> dom (users (view V w)) \<and>
             (\<forall>j x. wallets (view V w) j = Some x \<longrightarrow> w_user_id x \<noteq> u) \<and>
             tx_step V R (insert k (locked V w)) (put_wallet y (view V w)) w w' \<and>
             loaded_wallet V w' = (loaded_wallet V w)(k \<mapsto> y) \<and>
             loaded_user V w' = loaded_user V w \<and> loaded_txn V w' = loaded_txn V w)
          (\<lambda>e. failed V R e w) w)"

text \<open>
  A commit makes the session's view durable and keeps attributes (\<open>expire_on_commit=False\<close>); if it
  fails it may have happened or not (the connection was lost), but a constraint violation means
  it has not, and no commit takes away a committed user or transaction. A rollback undoes and expires every attribute. Neither a rollback nor reading back violates a constraint.
\<close>

definition rows_kept :: "'w absn \<Rightarrow> 'w \<Rightarrow> 'w \<Rightarrow> bool" where
  "rows_kept V w w' \<longleftrightarrow> txns (durable V w) \<subseteq>\<^sub>m txns (durable V w') \<and>
     users (durable V w) \<subseteq>\<^sub>m users (durable V w')"

definition law_commit :: "'w session \<Rightarrow> 'w absn \<Rightarrow> rely \<Rightarrow> bool" where
  "law_commit db V R \<longleftrightarrow>
     (\<forall>w. \<not> dirty V w \<longrightarrow>
        wp (commit_tx db)
          (\<lambda>_ w'. R {} (view V w) (durable V w') \<and> rows_kept V w w' \<and> view V w' = durable V w' \<and>
             locked V w' = {} \<and> \<not> dirty V w' \<and> same_objects V w w')
          (\<lambda>e w'. db_error e \<and>
             (R {} (durable V w) (durable V w') \<or>
              e \<noteq> Library IntegrityError \<and> R {} (view V w) (durable V w') \<and> rows_kept V w w')) w)"

definition law_rollback :: "'w session \<Rightarrow> 'w absn \<Rightarrow> rely \<Rightarrow> bool" where
  "law_rollback db V R \<longleftrightarrow>
     (\<forall>w. wp (rollback_tx db)
        (\<lambda>_ w'. R {} (durable V w) (durable V w') \<and> view V w' = durable V w' \<and>
           locked V w' = {} \<and> \<not> dirty V w' \<and> loaded_user V w' = Map.empty \<and>
           loaded_wallet V w' = Map.empty \<and> loaded_txn V w' = Map.empty)
        (\<lambda>e w'. e \<noteq> Library IntegrityError \<and> failed V R e w w') w)"

definition law_refresh :: "'w session \<Rightarrow> 'w absn \<Rightarrow> rely \<Rightarrow> bool" where
  "law_refresh db V R \<longleftrightarrow>
     (\<forall>k w. \<not> dirty V w \<longrightarrow>
        wp (refresh_wallet db k)
          (\<lambda>_ w'. tx_step V R (locked V w) (view V w) w w' \<and>
             (\<exists>x. wallets (view V w) k = Some x \<and> loaded_wallet V w' = (loaded_wallet V w)(k \<mapsto> x)) \<and>
             loaded_user V w' = loaded_user V w \<and> loaded_txn V w' = loaded_txn V w)
          (\<lambda>e w'. e \<noteq> Library IntegrityError \<and> failed V R e w w') w \<and>
        wp (refresh_txn db k)
          (\<lambda>_ w'. tx_step V R (locked V w) (view V w) w w' \<and>
             (\<exists>x. txns (view V w) k = Some x \<and> loaded_txn V w' = (loaded_txn V w)(k \<mapsto> x)) \<and>
             loaded_user V w' = loaded_user V w \<and> loaded_wallet V w' = loaded_wallet V w)
          (\<lambda>e w'. e \<noteq> Library IntegrityError \<and> failed V R e w w') w \<and>
        wp (refresh_user db k)
          (\<lambda>_ w'. tx_step V R (locked V w) (view V w) w w' \<and>
             (\<exists>x. users (view V w) k = Some x \<and> loaded_user V w' = (loaded_user V w)(k \<mapsto> x)) \<and>
             loaded_wallet V w' = loaded_wallet V w \<and> loaded_txn V w' = loaded_txn V w)
          (\<lambda>e w'. e \<noteq> Library IntegrityError \<and> failed V R e w w') w)"

text \<open>Attributes of a loaded object are read in memory; expired ones raise \<open>MissingGreenlet\<close>.\<close>

definition law_attrs :: "'w session \<Rightarrow> 'w absn \<Rightarrow> bool" where
  "law_attrs db V \<longleftrightarrow>
     (\<forall>k w. wallet_attrs db k w =
          (case loaded_wallet V w k of None \<Rightarrow> (Inl (Library MissingGreenlet), w) | Some x \<Rightarrow> (Inr x, w))) \<and>
     (\<forall>k w. user_attrs db k w =
          (case loaded_user V w k of None \<Rightarrow> (Inl (Library MissingGreenlet), w) | Some x \<Rightarrow> (Inr x, w))) \<and>
     (\<forall>k w. txn_attrs db k w =
          (case loaded_txn V w k of None \<Rightarrow> (Inl (Library MissingGreenlet), w) | Some x \<Rightarrow> (Inr x, w)))"

text \<open>Assigning to a mapped attribute changes the object and marks the session dirty.\<close>

definition law_set_balance :: "'w session \<Rightarrow> 'w absn \<Rightarrow> bool" where
  "law_set_balance db V \<longleftrightarrow>
     (\<forall>k b w x. loaded_wallet V w k = Some x \<longrightarrow>
        (\<exists>w'. set_wallet_balance db k b w = (Inr (), w') \<and>
           loaded_wallet V w' = (loaded_wallet V w)(k \<mapsto> x\<lparr>w_balance := b\<rparr>) \<and>
           loaded_user V w' = loaded_user V w \<and> loaded_txn V w' = loaded_txn V w \<and>
           view V w' = view V w \<and> durable V w' = durable V w \<and> locked V w' = locked V w))"

definition lawful_session :: "'w session \<Rightarrow> 'w absn \<Rightarrow> rely \<Rightarrow> bool" where
  "lawful_session db V R \<longleftrightarrow> rely_ok R \<and>
     law_select_wallet db V R \<and> law_select_user db V R \<and> law_select_txn db V R \<and>
     law_update_wallet db V R \<and> law_insert_txn db V R \<and> law_insert_user db V R \<and>
     law_insert_wallet db V R \<and> law_commit db V R \<and> law_rollback db V R \<and>
     law_refresh db V R \<and> law_attrs db V \<and> law_set_balance db V \<and> law_history db V R"

text \<open>A session as \<open>get_db\<close> hands it to a request.\<close>

definition fresh_session :: "'w absn \<Rightarrow> 'w \<Rightarrow> bool" where
  "fresh_session V w \<longleftrightarrow> view V w = durable V w \<and> locked V w = {} \<and> \<not> dirty V w \<and>
     loaded_user V w = Map.empty \<and> loaded_wallet V w = Map.empty \<and> loaded_txn V w = Map.empty"

end
