(* ===== verification/Repositories.thy ===== *)
theory Repositories
  imports Session
begin

text \<open>
  The repositories of \<open>app/repositories\<close>: one definition per method, each a statement or two on
  the session it is given, and what a lawful session makes of them.
\<close>

section \<open>The methods\<close>

subsection \<open>Users\<close>

definition user_get_by_id :: "'w session \<Rightarrow> uuid \<Rightarrow> ('w, uuid option) io" where
  "user_get_by_id db user_id = select_user db (User_id user_id)"

definition user_get_by_email :: "'w session \<Rightarrow> string \<Rightarrow> ('w, uuid option) io" where
  "user_get_by_email db email = select_user db (User_email email)"

definition user_create :: "'w session \<Rightarrow> new_user \<Rightarrow> ('w, uuid) io" where
  "user_create db user = insert_user db user"

subsection \<open>Wallets\<close>

definition wallet_get_by_user_id :: "'w session \<Rightarrow> uuid \<Rightarrow> ('w, uuid option) io" where
  "wallet_get_by_user_id db user_id = select_wallet db (Wallet_user_id user_id) False"

definition wallet_get_by_id :: "'w session \<Rightarrow> uuid \<Rightarrow> ('w, uuid option) io" where
  "wallet_get_by_id db wallet_id = select_wallet db (Wallet_id wallet_id) False"

definition wallet_get_by_id_for_update :: "'w session \<Rightarrow> uuid \<Rightarrow> ('w, uuid option) io" where
  "wallet_get_by_id_for_update db wallet_id = select_wallet db (Wallet_id wallet_id) True"

definition wallet_create :: "'w session \<Rightarrow> uuid \<Rightarrow> ('w, uuid) io" where
  "wallet_create db user_id = insert_wallet db user_id"

definition wallet_update_balance ::
  "'w session \<Rightarrow> uuid \<Rightarrow> decimal \<Rightarrow> int \<Rightarrow> ('w, bool) io" where
  "wallet_update_balance db wallet_id new_balance expected_version =
     py_bind (update_wallet db wallet_id expected_version new_balance (expected_version + 1))
       (\<lambda>rowcount. py_return (rowcount > 0))"

subsection \<open>Transactions\<close>

definition txn_create :: "'w session \<Rightarrow> new_transaction \<Rightarrow> ('w, uuid) io" where
  "txn_create db txn = insert_txn db txn"

definition txn_get_by_idempotency_key :: "'w session \<Rightarrow> string \<Rightarrow> ('w, uuid option) io" where
  "txn_get_by_idempotency_key db key = select_txn db (Txn_idempotency_key key)"

definition txn_get_by_wallet_id ::
  "'w session \<Rightarrow> uuid \<Rightarrow> int \<Rightarrow> int \<Rightarrow> ('w, uuid list \<times> nat) io" where
  "txn_get_by_wallet_id db wallet_id page page_size =
     py_bind (count_txns db (Txn_wallet_id wallet_id)) (\<lambda>total.
       let offset = (page - 1) * page_size in
       py_bind (page_txns db (Txn_wallet_id wallet_id) offset page_size) (\<lambda>transactions.
         py_return (transactions, total)))"

section \<open>Relying on other sessions\<close>

lemma rely_conjuncts:
  assumes "rely_ok R"
  shows "\<forall>L t. R L t t"
    and "\<forall>L t u v. R L t u \<longrightarrow> R L u v \<longrightarrow> R L t v"
    and "\<forall>L M t u. R L t u \<longrightarrow> M \<subseteq> L \<longrightarrow> R M t u"
    and "\<forall>L t u k. R L t u \<longrightarrow> k \<in> L \<longrightarrow> wallets u k = wallets t k"
    and "\<forall>L t u k x. R L t u \<longrightarrow> wallets t k = Some x \<longrightarrow> (\<exists>y. wallets u k = Some y \<and> later x y)"
    and "\<forall>L t u. R L t u \<longrightarrow> txns t \<subseteq>\<^sub>m txns u \<and> users t \<subseteq>\<^sub>m users u"
    and "\<forall>L t u x y. R L t u \<longrightarrow> wallets t (w_id x) = Some y \<longrightarrow> w_user_id y = w_user_id x \<longrightarrow> w_id x \<in> L \<longrightarrow>
      R L (put_wallet x t) (put_wallet x u)"
  using assms unfolding rely_ok_def by - (elim conjE, assumption)+

lemma rely_refl: "rely_ok R \<Longrightarrow> R L t t"
  using rely_conjuncts(1) by blast

lemma rely_trans: "rely_ok R \<Longrightarrow> R L t u \<Longrightarrow> R L u v \<Longrightarrow> R L t v"
  using rely_conjuncts(2) by blast

lemma rely_shrink: "rely_ok R \<Longrightarrow> R L t u \<Longrightarrow> M \<subseteq> L \<Longrightarrow> R M t u"
  using rely_conjuncts(3) by blast

lemma rely_weaken: "rely_ok R \<Longrightarrow> R L t u \<Longrightarrow> R {} t u"
  by (rule rely_shrink) simp_all

lemma rely_locked: "rely_ok R \<Longrightarrow> R L t u \<Longrightarrow> k \<in> L \<Longrightarrow> wallets u k = wallets t k"
  using rely_conjuncts(4) by blast

lemma rely_later:
  "rely_ok R \<Longrightarrow> R L t u \<Longrightarrow> wallets t k = Some x \<Longrightarrow> \<exists>y. wallets u k = Some y \<and> later x y"
  using rely_conjuncts(5) by blast

lemma rely_rows: "rely_ok R \<Longrightarrow> R L t u \<Longrightarrow> txns t \<subseteq>\<^sub>m txns u \<and> users t \<subseteq>\<^sub>m users u"
  using rely_conjuncts(6) by blast

lemma rely_txns: "rely_ok R \<Longrightarrow> R L t u \<Longrightarrow> txns t k = Some x \<Longrightarrow> txns u k = Some x"
  using rely_rows [of R L t u] by (simp add: map_le_def dom_def)

lemma rely_users: "rely_ok R \<Longrightarrow> R L t u \<Longrightarrow> users t k = Some x \<Longrightarrow> users u k = Some x"
  using rely_rows [of R L t u] by (simp add: map_le_def dom_def)

lemma rely_put:
  "rely_ok R \<Longrightarrow> R L t u \<Longrightarrow> wallets t (w_id x) = Some y \<Longrightarrow> w_user_id y = w_user_id x \<Longrightarrow> w_id x \<in> L \<Longrightarrow>
   R L (put_wallet x t) (put_wallet x u)"
  using rely_conjuncts(7) by blast

text \<open>
  What others do while a row is locked does not depend on its uncommitted value: a statement of
  this session on a locked row can be moved after theirs.
\<close>

lemma put_wallet_cancel:
  "w_id x = w_id y \<Longrightarrow> wallets t (w_id y) = Some x \<Longrightarrow> put_wallet x (put_wallet y t) = t"
  by (cases t) (auto simp: put_wallet_def)

lemma rely_commute_put:
  assumes R: "rely_ok R" and step: "R L (put_wallet y t) u"
    and row: "wallets t (w_id y) = Some x" "w_id x = w_id y" "w_user_id x = w_user_id y" and lock: "w_id y \<in> L"
  obtains t' where "R L t t'" and "u = put_wallet y t'" and "wallets t' (w_id y) = Some x"
proof
  show "R L t (put_wallet x u)"
    using rely_put [OF R step, of x y] lock row put_wallet_cancel [of x y t] by simp
  have "wallets u (w_id y) = Some y"
    using rely_locked [OF R step lock] by simp
  then show "u = put_wallet y (put_wallet x u)"
    using row(2) put_wallet_cancel [of y x u] by simp
  show "wallets (put_wallet x u) (w_id y) = Some x"
    using row(2) by simp
qed

section \<open>Lawful sessions\<close>

text \<open>
  The objects a session holds were read from rows it saw: each is an earlier version of the row.
\<close>

definition snapshots_ok :: "'w absn \<Rightarrow> 'w \<Rightarrow> bool" where
  "snapshots_ok V w \<longleftrightarrow> \<not> dirty V w \<and>
     (\<forall>k y. loaded_wallet V w k = Some y \<longrightarrow> w_id y = k \<and> numeric_column (w_balance y) \<and>
        (\<exists>x. wallets (view V w) k = Some x \<and> later y x)) \<and>
     (\<forall>k y. loaded_txn V w k = Some y \<longrightarrow> txns (view V w) k = Some y)"

text \<open>Nothing of this session has been written: what became durable is the others' doing.\<close>

definition unchanged :: "'w absn \<Rightarrow> rely \<Rightarrow> 'w \<Rightarrow> 'w \<Rightarrow> bool" where
  "unchanged V R w w' \<longleftrightarrow> R {} (view V w) (view V w') \<and> R {} (durable V w) (durable V w') \<and>
     (view V w = durable V w \<longrightarrow> view V w' = durable V w') \<and>
     locked V w \<subseteq> locked V w' \<and> snapshots_ok V w'"

lemma snapshots_ok_fresh: "fresh_session V w \<Longrightarrow> snapshots_ok V w"
  by (simp add: fresh_session_def snapshots_ok_def)

lemma snapshot_row:
  "snapshots_ok V w \<Longrightarrow> loaded_wallet V w k = Some y \<Longrightarrow>
     w_id y = k \<and> numeric_column (w_balance y) \<and> (\<exists>x. wallets (view V w) k = Some x \<and> later y x)"
  by (simp add: snapshots_ok_def)

lemma unchanged_trans:
  "rely_ok R \<Longrightarrow> unchanged V R w w1 \<Longrightarrow> unchanged V R w1 w2 \<Longrightarrow> unchanged V R w w2"
  unfolding unchanged_def by (meson order_trans rely_trans)

lemma failed_after:
  "rely_ok R \<Longrightarrow> unchanged V R w w1 \<Longrightarrow> failed V R e w1 w2 \<Longrightarrow> failed V R e w w2"
  unfolding unchanged_def failed_def by (meson rely_trans)

lemma lawful_rely: "lawful_session db V R \<Longrightarrow> rely_ok R"
  by (simp add: lawful_session_def)

text \<open>A step over unchanged objects, or with one object more, keeps the snapshots.\<close>

lemma snapshots_step:
  assumes R: "rely_ok R" and ok: "snapshots_ok V w"
    and step: "tx_step V R L (view V w) w w'"
    and tx: "\<forall>k y. loaded_txn V w' k = Some y \<longrightarrow> loaded_txn V w k = Some y \<or> txns (view V w) k = Some y"
    and wl: "\<forall>k y. loaded_wallet V w' k = Some y \<longrightarrow> loaded_wallet V w k = Some y \<or>
      (wallets (view V w) k = Some y \<and> w_id y = k \<and> numeric_column (w_balance y))"
  shows "snapshots_ok V w'"
proof -
  have R': "R L (view V w) (view V w')" and d: "dirty V w' = dirty V w"
    using step by (simp_all add: tx_step_def)
  have "w_id y = k \<and> numeric_column (w_balance y) \<and> (\<exists>x. wallets (view V w') k = Some x \<and> later y x)"
    if y: "loaded_wallet V w' k = Some y" for k y
  proof -
    obtain x where x: "wallets (view V w) k = Some x" "later y x" "w_id y = k" "numeric_column (w_balance y)"
      using wl y ok snapshot_row [OF ok] later_refl by metis
    with rely_later [OF R R' x(1)] show ?thesis by (metis later_trans)
  qed
  moreover have "txns (view V w') k = Some y" if "loaded_txn V w' k = Some y" for k y
    using tx that ok rely_txns [OF R R', of k y] unfolding snapshots_ok_def by blast
  ultimately show ?thesis
    using ok d by (simp add: snapshots_ok_def)
qed

lemma unchanged_step:
  assumes "rely_ok R" "snapshots_ok V w" and step: "tx_step V R L (view V w) w w'" and "locked V w \<subseteq> L"
    and "\<forall>k y. loaded_txn V w' k = Some y \<longrightarrow> loaded_txn V w k = Some y \<or> txns (view V w) k = Some y"
    and "\<forall>k y. loaded_wallet V w' k = Some y \<longrightarrow> loaded_wallet V w k = Some y \<or>
      (wallets (view V w) k = Some y \<and> w_id y = k \<and> numeric_column (w_balance y))"
  shows "unchanged V R w w'"
  using snapshots_step [OF assms(1,2) step assms(5,6)] assms(1,4) step
  by (auto simp: unchanged_def tx_step_def intro: rely_weaken)

section \<open>What the methods guarantee\<close>

lemma lawful_laws:
  assumes "lawful_session db V R"
  shows "law_select_wallet db V R" "law_select_user db V R" "law_select_txn db V R"
    "law_update_wallet db V R" "law_insert_txn db V R" "law_insert_user db V R"
    "law_insert_wallet db V R" "law_commit db V R" "law_rollback db V R" "law_refresh db V R"
    "law_attrs db V" "law_set_balance db V" "law_history db V R"
  using assms unfolding lawful_session_def by simp_all

lemma snapshots_clean: "snapshots_ok V w \<Longrightarrow> \<not> dirty V w"
  by (simp add: snapshots_ok_def)

text \<open>Looking a wallet up: the object returned is a version of the row that matched.\<close>

lemma wp_select_wallet:
  assumes law: "lawful_session db V R" and ok: "snapshots_ok V w"
  shows "wp (select_wallet db c fu)
    (\<lambda>r w'. unchanged V R w w' \<and> loaded_txn V w' = loaded_txn V w \<and>
       (\<forall>j y. loaded_wallet V w j = Some y \<longrightarrow> loaded_wallet V w' j = Some y) \<and>
       (case r of
          None \<Rightarrow> \<forall>k x. wallets (view V w) k = Some x \<longrightarrow> \<not> wallet_matches c x
        | Some k \<Rightarrow> \<exists>x y. wallets (view V w) k = Some x \<and> wallet_matches c x \<and> w_id x = k \<and>
            loaded_wallet V w' k = Some y \<and> later y x \<and> (loaded_wallet V w k = None \<longrightarrow> y = x) \<and>
            (fu \<longrightarrow> k \<in> locked V w')))
    (\<lambda>e. failed V R e w) w"
proof -
  have R: "rely_ok R" using law by (rule lawful_rely)
  note L = lawful_laws(1) [OF law, unfolded law_select_wallet_def, rule_format, OF snapshots_clean [OF ok]]
  show ?thesis
  proof (rule wp_mono [OF L], goal_cases)
    case (1 r w')
    show ?case
    proof (cases r)
      case None
      with 1 have "tx_step V R (locked V w) (view V w) w w'" and same: "same_objects V w w'" by simp_all
      then have "unchanged V R w w'"
        by (intro unchanged_step [OF R ok]) (auto simp: same_objects_def)
      with None 1 show ?thesis by (simp add: same_objects_def)
    next
      case (Some k)
      with 1 obtain x where x: "wallets (view V w) k = Some x" "w_id x = k" "wallet_matches c x"
          "numeric_column (w_balance x)"
        and step: "tx_step V R (locked V w \<union> (if fu then {k} else {})) (view V w) w w'"
        and lw: "loaded_wallet V w' = (loaded_wallet V w)
          (k \<mapsto> (case loaded_wallet V w k of None \<Rightarrow> x | Some y \<Rightarrow> y))"
        and lt: "loaded_txn V w' = loaded_txn V w"
        by auto
      have "unchanged V R w w'"
        using x lt lw by (intro unchanged_step [OF R ok step]) (auto split: option.splits)
      moreover have "later (case loaded_wallet V w k of None \<Rightarrow> x | Some y \<Rightarrow> y) x"
        using snapshot_row [OF ok] x(1) by (force split: option.splits)
      moreover have "fu \<longrightarrow> k \<in> locked V w'" using step by (simp add: tx_step_def)
      ultimately show ?thesis
        using Some x lt lw by auto
    qed
  qed
qed

lemma wp_select_txn:
  assumes law: "lawful_session db V R" and ok: "snapshots_ok V w"
  shows "wp (select_txn db c)
    (\<lambda>r w'. unchanged V R w w' \<and> loaded_wallet V w' = loaded_wallet V w \<and>
       (case r of
          None \<Rightarrow> \<forall>k x. txns (view V w) k = Some x \<longrightarrow> \<not> txn_matches c x
        | Some k \<Rightarrow> \<exists>x. txns (view V w) k = Some x \<and> txn_matches c x \<and> t_id x = k \<and>
            loaded_txn V w' k = Some x))
    (\<lambda>e. failed V R e w) w"
proof -
  have R: "rely_ok R" using law by (rule lawful_rely)
  note L = lawful_laws(3) [OF law, unfolded law_select_txn_def, rule_format, OF snapshots_clean [OF ok]]
  have same: "loaded_txn V w k = Some y \<Longrightarrow> txns (view V w) k = Some y" for k y
    using ok by (simp add: snapshots_ok_def)
  show ?thesis
  proof (rule wp_mono [OF L], goal_cases)
    case (1 r w')
    then have "unchanged V R w w'"
      by (intro unchanged_step [OF R ok]) (auto split: option.splits if_splits dest: same)
    with 1 show ?case
      by (auto split: option.splits dest: same) (metis option.inject same)
  qed
qed

end
