(* ===== verification/Redis_Client.thy ===== *)
theory Redis_Client
  imports Session Json
begin

text \<open>
  The redis-py client is not code of the repository: it is the parameter \<open>rd\<close>, a record of the
  commands the program sends. \<open>lawful_redis\<close> states the documented effect of each command on
  the server's keys, with expiry by the server's clock; a failed command may or may not have been
  executed. The server may have other clients, whose commands come between any two of ours. The last section
  states that the two stores, Redis and the database, are separate.
\<close>

section \<open>Commands\<close>

record 'w redis =
  redis_get :: "string \<Rightarrow> ('w, string option) io"
  redis_setex :: "string \<Rightarrow> int \<Rightarrow> string \<Rightarrow> ('w, unit) io"
  redis_delete :: "string \<Rightarrow> ('w, unit) io"
  redis_incr :: "string \<Rightarrow> ('w, int) io"
  redis_expire :: "string \<Rightarrow> int \<Rightarrow> ('w, unit) io"
  redis_pipeline_delete :: "string list \<Rightarrow> ('w, unit) io"
  redis_ping :: "('w, bool) io"

text \<open>
  Keys with their values and, where one is set, the instant at which they expire. \<open>writers\<close>
  is for the other clients, \<open>None\<close> when there are none: the pairs of key and value that they may have stored
  by now. They may also delete any key and change the lifetime of any entry.
\<close>

type_synonym entry = "string \<times> int option"

record 'w kv =
  entries :: "'w \<Rightarrow> string \<rightharpoonup> entry"
  clock :: "'w \<Rightarrow> int"
  writers :: "('w \<Rightarrow> (string \<times> string) set) option"

definition exclusive :: "'w kv \<Rightarrow> bool" where
  "exclusive K \<longleftrightarrow> writers K = None"

definition may_write :: "'w kv \<Rightarrow> 'w \<Rightarrow> string \<Rightarrow> string \<Rightarrow> bool" where
  "may_write K w k v \<longleftrightarrow> (case writers K of None \<Rightarrow> False | Some W \<Rightarrow> (k, v) \<in> W w)"

fun live_entry :: "int \<Rightarrow> entry option \<Rightarrow> string option" where
  "live_entry now None = None"
| "live_entry now (Some (v, None)) = Some v"
| "live_entry now (Some (v, Some t)) = (if now < t then Some v else None)"

definition live :: "'w kv \<Rightarrow> 'w \<Rightarrow> string \<Rightarrow> string option" where
  "live K w k = live_entry (clock K w) (entries K w k)"

text \<open>What a command sent in \<open>w\<close> finds under a key at the time of \<open>w'\<close>.\<close>

definition fetched :: "'w kv \<Rightarrow> 'w \<Rightarrow> 'w \<Rightarrow> string \<Rightarrow> string option" where
  "fetched K w w' k = live_entry (clock K w') (entries K w k)"

fun expiry_of :: "entry option \<Rightarrow> int option" where
  "expiry_of None = None"
| "expiry_of (Some (_, t)) = t"

section \<open>The laws\<close>

text \<open>What the other clients may make of the keys \<open>m\<close> by the time the world is \<open>w\<close>.\<close>

definition meanwhile :: "'w kv \<Rightarrow> 'w \<Rightarrow> (string \<rightharpoonup> entry) \<Rightarrow> (string \<rightharpoonup> entry) \<Rightarrow> bool" where
  "meanwhile K w m m' \<longleftrightarrow> (exclusive K \<longrightarrow> m' = m) \<and>
     (\<forall>k v t. m' k = Some (v, t) \<longrightarrow> (\<exists>t'. m k = Some (v, t')) \<or> may_write K w k v)"

text \<open>
  Time does not go back, what others may store they may store from then on, and an executed command leaves the
  keys as stated, until the other clients go on.
\<close>

definition kv_step :: "'w kv \<Rightarrow> (int \<Rightarrow> (string \<rightharpoonup> entry)) \<Rightarrow> 'w \<Rightarrow> 'w \<Rightarrow> bool" where
  "kv_step K m w w' \<longleftrightarrow> clock K w \<le> clock K w' \<and> (\<forall>k v. may_write K w k v \<longrightarrow> may_write K w' k v) \<and>
     meanwhile K w' (m (clock K w')) (entries K w')"

abbreviation kv_same :: "'w kv \<Rightarrow> 'w \<Rightarrow> 'w \<Rightarrow> bool" where
  "kv_same K w w' \<equiv> kv_step K (\<lambda>_. entries K w) w w'"

definition kv_failed :: "'w kv \<Rightarrow> (int \<Rightarrow> (string \<rightharpoonup> entry)) \<Rightarrow> exn \<Rightarrow> 'w \<Rightarrow> 'w \<Rightarrow> bool" where
  "kv_failed K m e w w' \<longleftrightarrow> e = Library RedisError \<and> (kv_same K w w' \<or> kv_step K m w w')"

lemma kv_step_exclusive:
  "exclusive K \<Longrightarrow> kv_step K m w w' \<longleftrightarrow> clock K w \<le> clock K w' \<and> entries K w' = m (clock K w')"
  by (auto simp: kv_step_def meanwhile_def may_write_def exclusive_def)

lemma kv_step_clock: "kv_step K m w w' \<Longrightarrow> clock K w \<le> clock K w'"
  by (simp add: kv_step_def)

text \<open>A step that nobody else interfered with is also a step of a server with other clients.\<close>

lemma kv_step_shared:
  "exclusive K \<Longrightarrow> kv_step K m w w' \<Longrightarrow> W w \<subseteq> W w' \<Longrightarrow> kv_step (K\<lparr>writers := Some W\<rparr>) m w w'"
  by (auto simp: kv_step_exclusive) (auto simp: kv_step_def meanwhile_def may_write_def exclusive_def)

text \<open>Where an entry found after a step comes from.\<close>

lemma kv_step_entry:
  assumes "kv_step K m w w'" and "entries K w' k = Some (v, t)"
  obtains t' where "m (clock K w') k = Some (v, t')" | "may_write K w' k v"
  using assms unfolding kv_step_def meanwhile_def by blast

lemma fetched_exclusive: "exclusive K \<Longrightarrow> kv_same K w w' \<Longrightarrow> fetched K w w' k = live K w' k"
  by (simp add: fetched_def live_def kv_step_exclusive)

lemma live_entry_some: "live_entry now x = Some s \<Longrightarrow> \<exists>t. x = Some (s, t)"
  by (cases "(now, x)" rule: live_entry.cases) (auto split: if_splits)

lemma fetched_entry: "fetched K w w' k = Some v \<Longrightarrow> \<exists>t. entries K w k = Some (v, t)"
  unfolding fetched_def by (rule live_entry_some)

lemma kv_same_refl: "kv_same K w w"
  by (auto simp: kv_step_def meanwhile_def)

lemma meanwhile_trans:
  assumes "meanwhile K w1 m m1" and "meanwhile K w2 m1 m2" and "\<And>k v. may_write K w1 k v \<Longrightarrow> may_write K w2 k v"
  shows "meanwhile K w2 m m2"
  using assms unfolding meanwhile_def by metis

text \<open>A command that maps keys with the same value alike commutes with what the others did before.\<close>

definition value_wise :: "(int \<Rightarrow> (string \<rightharpoonup> entry) \<Rightarrow> (string \<rightharpoonup> entry)) \<Rightarrow> bool" where
  "value_wise f \<longleftrightarrow> (\<forall>now m m1 k v t. f now m1 k = Some (v, t) \<longrightarrow>
     (\<exists>t'. f now m k = Some (v, t')) \<or> (\<exists>t'. m1 k = Some (v, t') \<and> (\<forall>t'. m k \<noteq> Some (v, t'))))"

lemma kv_step_after:
  assumes f: "value_wise f" and same: "kv_same K w w1" and step: "kv_step K (\<lambda>now. f now (entries K w1)) w1 w2"
  shows "kv_step K (\<lambda>now. f now (entries K w)) w w2"
proof -
  have "(\<exists>t'. f (clock K w2) (entries K w) k = Some (v, t')) \<or> may_write K w2 k v" if e: "entries K w2 k = Some (v, t)" for k v t
    using step e
  proof (rule kv_step_entry)
    fix t'
    assume "f (clock K w2) (entries K w1) k = Some (v, t')"
    then consider "\<exists>t'. f (clock K w2) (entries K w) k = Some (v, t')"
      | t'' where "entries K w1 k = Some (v, t'')" "\<forall>t'. entries K w k \<noteq> Some (v, t')"
      using f unfolding value_wise_def by metis
    then show ?thesis
    proof cases
      case 2
      from same this(1) have "may_write K w1 k v" by (rule kv_step_entry) (use 2(2) in blast)+
      then show ?thesis using step by (simp add: kv_step_def)
    qed simp
  qed simp
  moreover have "exclusive K \<longrightarrow> entries K w2 = f (clock K w2) (entries K w)"
  proof
    assume "exclusive K"
    with same step show "entries K w2 = f (clock K w2) (entries K w)" by (simp only: kv_step_exclusive)
  qed
  ultimately show ?thesis using same step by (auto simp: kv_step_def meanwhile_def)
qed

lemma kv_same_trans: "kv_same K w w1 \<Longrightarrow> kv_same K w1 w2 \<Longrightarrow> kv_same K w w2"
  by (rule kv_step_after [where f = "\<lambda>now m. m"]) (auto simp: value_wise_def)

definition del_keys :: "string list \<Rightarrow> (string \<rightharpoonup> entry) \<Rightarrow> (string \<rightharpoonup> entry)" where
  "del_keys ks m = (\<lambda>k. if k \<in> set ks then None else m k)"

definition set_key :: "string \<Rightarrow> int \<Rightarrow> string \<Rightarrow> (string \<rightharpoonup> entry) \<Rightarrow> int \<Rightarrow> (string \<rightharpoonup> entry)" where
  "set_key k ttl v m now = m(k \<mapsto> (v, Some (now + ttl)))"

definition expire_key :: "string \<Rightarrow> int \<Rightarrow> (string \<rightharpoonup> entry) \<Rightarrow> int \<Rightarrow> (string \<rightharpoonup> entry)" where
  "expire_key k ttl m now =
     (case live_entry now (m k) of None \<Rightarrow> m | Some v \<Rightarrow> m(k \<mapsto> (v, Some (now + ttl))))"

lemma value_wise_set: "value_wise (\<lambda>now m. set_key k ttl v m now)"
  by (auto simp: value_wise_def set_key_def)

lemma value_wise_del: "value_wise (\<lambda>now. del_keys ks)"
  by (auto simp: value_wise_def del_keys_def)

text \<open>The number a counter key stands for; a missing or expired key counts as 0.\<close>

definition counter :: "int \<Rightarrow> entry option \<Rightarrow> nat option" where
  "counter now x = (case live_entry now x of None \<Rightarrow> Some 0 | Some s \<Rightarrow> parse_digits s)"

text \<open>\<open>INCR\<close> starts a missing key without expiry and keeps an expiry it finds.\<close>

definition incr_key :: "string \<Rightarrow> nat \<Rightarrow> (string \<rightharpoonup> entry) \<Rightarrow> int \<Rightarrow> (string \<rightharpoonup> entry)" where
  "incr_key k n m now =
     m(k \<mapsto> (nat_str (Suc n), if live_entry now (m k) = None then None else expiry_of (m k)))"

definition lawful_redis :: "'w redis \<Rightarrow> 'w kv \<Rightarrow> bool" where
  "lawful_redis rd K \<longleftrightarrow>
     (\<forall>k w. wp (redis_get rd k)
        (\<lambda>v w'. kv_same K w w' \<and> v = fetched K w w' k) (\<lambda>e. kv_failed K (\<lambda>_. entries K w) e w) w) \<and>
     (\<forall>k ttl v w. wp (redis_setex rd k ttl v)
        (\<lambda>_. kv_step K (set_key k ttl v (entries K w)) w)
        (\<lambda>e. kv_failed K (set_key k ttl v (entries K w)) e w) w) \<and>
     (\<forall>k w. wp (redis_delete rd k)
        (\<lambda>_. kv_step K (\<lambda>_. del_keys [k] (entries K w)) w)
        (\<lambda>e. kv_failed K (\<lambda>_. del_keys [k] (entries K w)) e w) w) \<and>
     (\<forall>ks w. wp (redis_pipeline_delete rd ks)
        (\<lambda>_. kv_step K (\<lambda>_. del_keys ks (entries K w)) w)
        (\<lambda>e. kv_failed K (\<lambda>_. del_keys ks (entries K w)) e w) w) \<and>
     (\<forall>k w. wp (redis_incr rd k)
        (\<lambda>r w'. (\<exists>m. (\<forall>j. j \<noteq> k \<longrightarrow> m j = entries K w j) \<and> kv_step K (\<lambda>_. m) w w') \<and>
           (\<forall>n. counter (clock K w') (entries K w k) = Some n \<longrightarrow>
           r = int (Suc n) \<and> kv_step K (incr_key k n (entries K w)) w w'))
        (\<lambda>e w'. e = Library RedisError \<and>
           (\<exists>m. (\<forall>j. j \<noteq> k \<longrightarrow> m j = entries K w j) \<and> kv_step K (\<lambda>_. m) w w')) w) \<and>
     (\<forall>k ttl w. wp (redis_expire rd k ttl)
        (\<lambda>_. kv_step K (expire_key k ttl (entries K w)) w)
        (\<lambda>e. kv_failed K (expire_key k ttl (entries K w)) e w) w) \<and>
     (\<forall>w. wp (redis_ping rd)
        (\<lambda>_. kv_same K w) (\<lambda>e. kv_failed K (\<lambda>_. entries K w) e w) w)"

lemma redis_laws:
  assumes "lawful_redis rd K"
  shows "wp (redis_get rd k) (\<lambda>v w'. kv_same K w w' \<and> v = fetched K w w' k)
      (\<lambda>e. kv_failed K (\<lambda>_. entries K w) e w) w"
    and "wp (redis_setex rd k ttl v) (\<lambda>_. kv_step K (set_key k ttl v (entries K w)) w)
      (\<lambda>e. kv_failed K (set_key k ttl v (entries K w)) e w) w"
    and "wp (redis_delete rd k) (\<lambda>_. kv_step K (\<lambda>_. del_keys [k] (entries K w)) w)
      (\<lambda>e. kv_failed K (\<lambda>_. del_keys [k] (entries K w)) e w) w"
    and "wp (redis_pipeline_delete rd ks) (\<lambda>_. kv_step K (\<lambda>_. del_keys ks (entries K w)) w)
      (\<lambda>e. kv_failed K (\<lambda>_. del_keys ks (entries K w)) e w) w"
    and "wp (redis_incr rd k)
      (\<lambda>r w'. (\<exists>m. (\<forall>j. j \<noteq> k \<longrightarrow> m j = entries K w j) \<and> kv_step K (\<lambda>_. m) w w') \<and>
           (\<forall>n. counter (clock K w') (entries K w k) = Some n \<longrightarrow>
         r = int (Suc n) \<and> kv_step K (incr_key k n (entries K w)) w w'))
      (\<lambda>e w'. e = Library RedisError \<and>
         (\<exists>m. (\<forall>j. j \<noteq> k \<longrightarrow> m j = entries K w j) \<and> kv_step K (\<lambda>_. m) w w')) w"
    and "wp (redis_expire rd k ttl) (\<lambda>_. kv_step K (expire_key k ttl (entries K w)) w)
      (\<lambda>e. kv_failed K (expire_key k ttl (entries K w)) e w) w"
    and "wp (redis_ping rd) (\<lambda>_. kv_same K w) (\<lambda>e. kv_failed K (\<lambda>_. entries K w) e w) w"
  using assms unfolding lawful_redis_def by - (elim conjE, blast)+

text \<open>A server that answers every command.\<close>

definition redis_up :: "'w redis \<Rightarrow> bool" where
  "redis_up rd \<longleftrightarrow>
     (\<forall>k w. \<not> isl (fst (redis_get rd k w))) \<and> (\<forall>k ttl v w. \<not> isl (fst (redis_setex rd k ttl v w))) \<and>
     (\<forall>k w. \<not> isl (fst (redis_delete rd k w))) \<and> (\<forall>ks w. \<not> isl (fst (redis_pipeline_delete rd ks w))) \<and>
     (\<forall>k w. \<not> isl (fst (redis_incr rd k w))) \<and> (\<forall>k ttl w. \<not> isl (fst (redis_expire rd k ttl w))) \<and>
     (\<forall>w. \<not> isl (fst (redis_ping rd w)))"

lemma wp_never_raises: "wp m Q E w \<Longrightarrow> \<not> isl (fst (m w)) \<Longrightarrow> wp m Q E' w"
  by (auto simp: wp_def split: prod.splits sum.splits)

section \<open>Two separate stores\<close>

text \<open>
  A Redis command leaves the database session alone; between two calls other sessions may commit.
\<close>

definition db_quiet :: "'w absn \<Rightarrow> rely \<Rightarrow> 'w \<Rightarrow> 'w \<Rightarrow> bool" where
  "db_quiet V R w w' \<longleftrightarrow> tx_step V R (locked V w) (view V w) w w' \<and> same_objects V w w'"

definition redis_keeps_db :: "'w redis \<Rightarrow> 'w absn \<Rightarrow> rely \<Rightarrow> bool" where
  "redis_keeps_db rd V R \<longleftrightarrow>
     (\<forall>k w. db_quiet V R w (snd (redis_get rd k w))) \<and>
     (\<forall>k ttl v w. db_quiet V R w (snd (redis_setex rd k ttl v w))) \<and>
     (\<forall>k w. db_quiet V R w (snd (redis_delete rd k w))) \<and>
     (\<forall>ks w. db_quiet V R w (snd (redis_pipeline_delete rd ks w))) \<and>
     (\<forall>k w. db_quiet V R w (snd (redis_incr rd k w))) \<and>
     (\<forall>k ttl w. db_quiet V R w (snd (redis_expire rd k ttl w))) \<and>
     (\<forall>w. db_quiet V R w (snd (redis_ping rd w)))"

abbreviation keeps_redis :: "'w kv \<Rightarrow> ('w, 'a) io \<Rightarrow> bool" where
  "keeps_redis K \<equiv> leaves (\<lambda>w w'. kv_same K w w')"

lemma keeps_redis_def: "keeps_redis K m \<longleftrightarrow> (\<forall>w. kv_same K w (snd (m w)))"
  by (simp add: leaves_def)

definition session_keeps_redis :: "'w session \<Rightarrow> 'w kv \<Rightarrow> bool" where
  "session_keeps_redis db K \<longleftrightarrow>
     (\<forall>c. keeps_redis K (select_user db c)) \<and>
     (\<forall>c fu. keeps_redis K (select_wallet db c fu)) \<and>
     (\<forall>c. keeps_redis K (select_txn db c)) \<and>
     (\<forall>c. keeps_redis K (count_txns db c)) \<and>
     (\<forall>c off lim. keeps_redis K (page_txns db c off lim)) \<and>
     (\<forall>k ev nb nv. keeps_redis K (update_wallet db k ev nb nv)) \<and>
     (\<forall>n. keeps_redis K (insert_user db n)) \<and> (\<forall>n. keeps_redis K (insert_wallet db n)) \<and>
     (\<forall>n. keeps_redis K (insert_txn db n)) \<and>
     keeps_redis K (commit_tx db) \<and> keeps_redis K (rollback_tx db) \<and>
     (\<forall>k. keeps_redis K (refresh_user db k)) \<and> (\<forall>k. keeps_redis K (refresh_wallet db k)) \<and>
     (\<forall>k. keeps_redis K (refresh_txn db k)) \<and>
     (\<forall>k b. keeps_redis K (set_wallet_balance db k b))"

end
