(* ===== verification/Cache.thy ===== *)
theory Cache
  imports Redis_Client
begin

text \<open>
  \<open>app/services/cache_manager.py\<close>: the key schema, the lifetimes, and the methods of
  \<open>RedisCacheManager\<close>, each of which swallows every exception. The locale
  \<open>best_effort_cache\<close> is the contract its clients rely on; it is interpreted on the
  balance, wallet-info and idempotency methods.
\<close>

section \<open>Lifetimes and keys\<close>

definition TTL_BALANCE :: int where "TTL_BALANCE = 300"
definition TTL_WALLET_INFO :: int where "TTL_WALLET_INFO = 600"
definition TTL_IDEMPOTENCY :: int where "TTL_IDEMPOTENCY = 86400"
definition TTL_RATE_LIMIT :: int where "TTL_RATE_LIMIT = 60"

definition key_balance :: "uuid \<Rightarrow> string" where
  "key_balance wallet_id = ''wallet:balance:'' @ uuid_str wallet_id"

definition key_wallet_info :: "uuid \<Rightarrow> string" where
  "key_wallet_info wallet_id = ''wallet:info:'' @ uuid_str wallet_id"

definition key_idempotency :: "string \<Rightarrow> string" where
  "key_idempotency key = ''idempotency:'' @ key"

text \<open>The first argument is what the rate limiter passes: already a string.\<close>

definition key_rate_limit :: "string \<Rightarrow> string \<Rightarrow> string" where
  "key_rate_limit user_id endpoint = ''rate_limit:'' @ user_id @ '':'' @ endpoint"

section \<open>Methods\<close>

definition get_balance :: "'w redis \<Rightarrow> uuid \<Rightarrow> ('w, decimal option) io" where
  "get_balance rd wallet_id =
     py_catch
       (py_bind (redis_get rd (key_balance wallet_id)) (\<lambda>cached.
          case cached of
            None \<Rightarrow> py_return None
          | Some s \<Rightarrow>
              (case dec_parse s of
                 None \<Rightarrow> py_raise (Library ValueError)
               | Some d \<Rightarrow> py_return (Some d))))
       (\<lambda>_. py_return None)"

definition set_balance :: "'w redis \<Rightarrow> uuid \<Rightarrow> decimal \<Rightarrow> ('w, unit) io" where
  "set_balance rd wallet_id balance =
     py_catch (redis_setex rd (key_balance wallet_id) TTL_BALANCE (dec_str balance))
       (\<lambda>_. py_return ())"

definition invalidate_balance :: "'w redis \<Rightarrow> uuid \<Rightarrow> ('w, unit) io" where
  "invalidate_balance rd wallet_id =
     py_catch (redis_delete rd (key_balance wallet_id)) (\<lambda>_. py_return ())"

definition invalidate_balances_pipeline :: "'w redis \<Rightarrow> uuid list \<Rightarrow> ('w, unit) io" where
  "invalidate_balances_pipeline rd wallet_ids =
     py_catch (redis_pipeline_delete rd (map key_balance wallet_ids)) (\<lambda>_. py_return ())"

text \<open>\<open>if cached:\<close> is false for the empty string too.\<close>

definition get_json :: "'w redis \<Rightarrow> string \<Rightarrow> ('w, json option) io" where
  "get_json rd key =
     py_catch
       (py_bind (redis_get rd key) (\<lambda>cached.
          case cached of
            None \<Rightarrow> py_return None
          | Some s \<Rightarrow>
              if s = [] then py_return None
              else (case loads s of
                      None \<Rightarrow> py_raise (Library ValueError)
                    | Some j \<Rightarrow> py_return (Some j))))
       (\<lambda>_. py_return None)"

definition get_wallet_info :: "'w redis \<Rightarrow> uuid \<Rightarrow> ('w, json option) io" where
  "get_wallet_info rd wallet_id = get_json rd (key_wallet_info wallet_id)"

definition set_wallet_info :: "'w redis \<Rightarrow> uuid \<Rightarrow> json \<Rightarrow> ('w, unit) io" where
  "set_wallet_info rd wallet_id wallet_data =
     py_catch (redis_setex rd (key_wallet_info wallet_id) TTL_WALLET_INFO (dumps wallet_data))
       (\<lambda>_. py_return ())"

definition invalidate_wallet_info :: "'w redis \<Rightarrow> uuid \<Rightarrow> ('w, unit) io" where
  "invalidate_wallet_info rd wallet_id =
     py_catch (redis_delete rd (key_wallet_info wallet_id)) (\<lambda>_. py_return ())"

definition get_idempotency :: "'w redis \<Rightarrow> string \<Rightarrow> ('w, json option) io" where
  "get_idempotency rd key = get_json rd (key_idempotency key)"

definition set_idempotency :: "'w redis \<Rightarrow> string \<Rightarrow> json \<Rightarrow> ('w, unit) io" where
  "set_idempotency rd key response_data =
     py_catch (redis_setex rd (key_idempotency key) TTL_IDEMPOTENCY (dumps response_data))
       (\<lambda>_. py_return ())"

definition check_rate_limit :: "'w redis \<Rightarrow> string \<Rightarrow> string \<Rightarrow> int \<Rightarrow> ('w, bool) io" where
  "check_rate_limit rd user_id endpoint max_requests =
     (let key = key_rate_limit user_id endpoint in
      py_catch
        (py_bind (redis_incr rd key) (\<lambda>current.
           py_bind (if current = 1 then redis_expire rd key TTL_RATE_LIMIT else py_return ()) (\<lambda>_.
             py_return (current \<le> max_requests))))
        (\<lambda>_. py_return True))"

definition is_healthy :: "'w redis \<Rightarrow> ('w, bool) io" where
  "is_healthy rd = py_catch (redis_ping rd) (\<lambda>_. py_return False)"

section \<open>The key schema keeps the components apart\<close>

lemma key_balance_inj [simp]: "key_balance a = key_balance b \<longleftrightarrow> a = b"
  by (auto simp: key_balance_def dest: uuid_str_inj)

lemma key_wallet_info_inj [simp]: "key_wallet_info a = key_wallet_info b \<longleftrightarrow> a = b"
  by (auto simp: key_wallet_info_def dest: uuid_str_inj)

lemma key_idempotency_inj [simp]: "key_idempotency a = key_idempotency b \<longleftrightarrow> a = b"
  by (simp add: key_idempotency_def)

lemma keys_disjoint [simp]:
  "key_balance a \<noteq> key_wallet_info b" "key_wallet_info b \<noteq> key_balance a"
  "key_balance a \<noteq> key_idempotency s" "key_idempotency s \<noteq> key_balance a"
  "key_wallet_info b \<noteq> key_idempotency s" "key_idempotency s \<noteq> key_wallet_info b"
  "key_rate_limit u e \<noteq> key_balance a" "key_rate_limit u e \<noteq> key_wallet_info b"
  "key_rate_limit u e \<noteq> key_idempotency s" "key_balance a \<noteq> key_rate_limit u e"
  "key_wallet_info b \<noteq> key_rate_limit u e" "key_idempotency s \<noteq> key_rate_limit u e"
  by (simp_all add: key_balance_def key_wallet_info_def key_idempotency_def key_rate_limit_def)

section \<open>The contract of a best-effort cache\<close>

text \<open>
  What the methods promise whatever the server does: they return, a read gives nothing or the
  decoding of the live entry, a write or a drop touches its own key only and may have had
  no effect; on a server that answers, they have their effect.
\<close>

locale best_effort_cache =
  fixes lawful :: "'api \<Rightarrow> 'w kv \<Rightarrow> bool"
    and up :: "'api \<Rightarrow> bool"
    and key :: "'i \<Rightarrow> string"
    and ttl :: int
    and enc :: "'v \<Rightarrow> string"
    and dec :: "string \<Rightarrow> 'v option"
    and storable :: "'v \<Rightarrow> bool"
    and read :: "'api \<Rightarrow> 'i \<Rightarrow> ('w, 'v option) io"
    and put :: "'api \<Rightarrow> 'i \<Rightarrow> 'v \<Rightarrow> ('w, unit) io"
  assumes key_inj: "key i = key j \<Longrightarrow> i = j"
    and dec_enc: "storable v \<Longrightarrow> dec (enc v) = Some v"
    and ttl_pos: "0 < ttl"
    and read_law: "lawful api K \<Longrightarrow>
      wp (read api i)
        (\<lambda>r w'. kv_same K w w' \<and>
           (r \<noteq> None \<longrightarrow> (\<exists>s. fetched K w w' (key i) = Some s \<and> r = dec s)) \<and>
           (up api \<longrightarrow> r = Option.bind (fetched K w w' (key i)) dec))
        (\<lambda>_ _. False) w"
    and put_law: "lawful api K \<Longrightarrow>
      wp (put api i v)
        (\<lambda>_ w'. kv_step K (set_key (key i) ttl (enc v) (entries K w)) w w' \<or>
           \<not> up api \<and> kv_same K w w')
        (\<lambda>_ _. False) w"
begin

text \<open>
  The cache agrees with a truth when every entry that may still be served decodes to it (or to
  nothing). Agreement survives reads, expiry and writes of the truth.
\<close>

definition agrees :: "'w kv \<Rightarrow> 'w \<Rightarrow> ('i \<Rightarrow> 'v) \<Rightarrow> bool" where
  "agrees K w truth \<longleftrightarrow>
     (\<forall>i s t v. entries K w (key i) = Some (s, t) \<longrightarrow> dec s = Some v \<longrightarrow> v = truth i)"

lemma key_eq: "key i = key j \<longleftrightarrow> i = j"
  by (blast intro: key_inj)

lemma agrees_same: "exclusive K \<Longrightarrow> agrees K w truth \<Longrightarrow> kv_same K w w' \<Longrightarrow> agrees K w' truth"
  by (simp add: agrees_def kv_step_exclusive)

lemma read_truth:
  assumes "lawful api K" and "exclusive K" and "agrees K w truth"
  shows "wp (read api i) (\<lambda>r w'. agrees K w' truth \<and> (r = None \<or> r = Some (truth i))) (\<lambda>_ _. False) w"
proof (rule wp_mono [OF read_law [OF assms(1), of i w]], goal_cases)
  case (1 r w')
  then have same: "kv_same K w w'" by simp
  then have ag: "agrees K w' truth" by (rule agrees_same [OF assms(2,3)])
  have "r = Some (truth i)" if nn: "r \<noteq> None"
  proof -
    from 1 nn obtain s where s: "fetched K w w' (key i) = Some s" "r = dec s" by auto
    from fetched_entry [OF s(1)] s(2) nn assms(3) show ?thesis unfolding agrees_def by (metis not_None_eq)
  qed
  with ag show ?case by blast
qed simp

lemma put_truth:
  assumes "lawful api K" and "exclusive K" and "agrees K w truth" and "storable (truth i)"
  shows "wp (put api i (truth i)) (\<lambda>_ w'. agrees K w' truth) (\<lambda>_ _. False) w"
proof (rule wp_mono [OF put_law [OF assms(1), of i "truth i" w]], goal_cases)
  case (1 u w')
  then show ?case
    using assms(3,4)
    by (auto simp: agrees_def kv_step_exclusive [OF assms(2)] set_key_def dec_enc key_eq split: if_splits)
qed simp

text \<open>A stored value is what the next read returns, until it expires.\<close>

lemma read_after_put:
  assumes law: "lawful api K" and ex: "exclusive K" and up: "up api" and st: "storable v"
  shows "wp (py_bind (put api i v) (\<lambda>_. read api i))
    (\<lambda>r w'. r = Some v \<or> (\<exists>t. clock K w + ttl \<le> t \<and> t \<le> clock K w')) (\<lambda>_ _. False) w"
  unfolding wp_bind
proof (rule wp_mono [OF put_law [OF law, of i v w]], goal_cases)
  case (1 u w1)
  with up have set: "kv_step K (set_key (key i) ttl (enc v) (entries K w)) w w1" by simp
  show ?case
  proof (rule wp_mono [OF read_law [OF law, of i w1]], goal_cases)
    case (1 r w2)
    then have same: "kv_same K w1 w2" and r: "r = Option.bind (fetched K w1 w2 (key i)) dec"
      using up by simp_all
    have e: "entries K w1 (key i) = Some (enc v, Some (clock K w1 + ttl))"
      using set by (simp add: kv_step_exclusive [OF ex] set_key_def)
    show ?case
    proof (cases "clock K w2 < clock K w1 + ttl")
      case True
      with e r st show ?thesis by (simp add: fetched_def dec_enc)
    next
      case False
      with set show ?thesis by (auto dest!: kv_step_clock intro!: exI [of _ "clock K w1 + ttl"])
    qed
  qed simp
qed simp

end

text \<open>With invalidation: dropping an entry lets the truth change under it.\<close>

locale invalidating_cache = best_effort_cache +
  fixes drop :: "'a \<Rightarrow> 'c \<Rightarrow> ('b, unit) io"
  assumes drop_law: "lawful api K \<Longrightarrow>
      wp (drop api i)
        (\<lambda>_ w'. kv_step K (\<lambda>_. del_keys [key i] (entries K w)) w w' \<or> \<not> up api \<and> kv_same K w w')
        (\<lambda>_ _. False) w"
begin

lemma drop_truth:
  assumes law: "lawful api K" and ex: "exclusive K" and up: "up api" and ag: "agrees K w truth"
  shows "wp (drop api i) (\<lambda>_ w'. agrees K w' (truth(i := v))) (\<lambda>_ _. False) w"
proof (rule wp_mono [OF drop_law [OF law, of i w]], goal_cases)
  case (1 u w')
  with up ag show ?case
    by (auto simp: agrees_def kv_step_exclusive [OF ex] del_keys_def key_eq split: if_splits)
qed simp

lemma drop_agrees:
  assumes law: "lawful api K" and ex: "exclusive K" and ag: "agrees K w truth"
  shows "wp (drop api i) (\<lambda>_ w'. agrees K w' truth) (\<lambda>_ _. False) w"
proof (rule wp_mono [OF drop_law [OF law, of i w]], goal_cases)
  case (1 u w')
  with ag show ?case
    by (auto simp: agrees_def kv_step_exclusive [OF ex] del_keys_def key_eq split: if_splits)
qed simp

lemma read_after_drop:
  assumes law: "lawful api K" and ex: "exclusive K" and up: "up api"
  shows "wp (py_bind (drop api i) (\<lambda>_. read api i)) (\<lambda>r _. r = None) (\<lambda>_ _. False) w"
  unfolding wp_bind
proof (rule wp_mono [OF drop_law [OF law, of i w]], goal_cases)
  case (1 u w1)
  with up have del: "kv_step K (\<lambda>_. del_keys [key i] (entries K w)) w w1" by simp
  show ?case
  proof (rule wp_mono [OF read_law [OF law, of i w1]], goal_cases)
    case (1 r w2)
    with up del show ?case by (simp add: kv_step_exclusive [OF ex] del_keys_def fetched_def)
  qed simp
qed simp

end

section \<open>The cache manager keeps the contract\<close>

text \<open>
  A handler that swallows the exception turns a failed command into a command with or without
  effect; the commands' laws then give the contract of each method.
\<close>

lemma up_returns:
  assumes "redis_up rd"
  shows "redis_get rd k w \<noteq> (Inl e, w')" "redis_setex rd k ttl v w \<noteq> (Inl e, w')"
    "redis_delete rd k w \<noteq> (Inl e, w')" "redis_pipeline_delete rd ks w \<noteq> (Inl e, w')"
    "redis_incr rd k w \<noteq> (Inl e, w')" "redis_expire rd k ttl w \<noteq> (Inl e, w')"
    "redis_ping rd w \<noteq> (Inl e, w')"
  using assms unfolding redis_up_def by (metis fst_conv isl_def)+

lemma wp_swallow_set:
  assumes "lawful_redis rd K"
  shows "wp (py_catch (redis_setex rd k ttl v) (\<lambda>_. py_return ()))
    (\<lambda>_ w'. kv_step K (set_key k ttl v (entries K w)) w w' \<or> \<not> redis_up rd \<and> kv_same K w w')
    (\<lambda>_ _. False) w"
  unfolding wp_simps
  by (rule wp_mono [OF redis_laws(2) [OF assms]]) (auto simp: kv_failed_def up_returns)

lemma wp_swallow_delete:
  assumes "lawful_redis rd K"
  shows "wp (py_catch (redis_delete rd k) (\<lambda>_. py_return ()))
    (\<lambda>_ w'. kv_step K (\<lambda>_. del_keys [k] (entries K w)) w w' \<or> \<not> redis_up rd \<and> kv_same K w w')
    (\<lambda>_ _. False) w"
  unfolding wp_simps
  by (rule wp_mono [OF redis_laws(3) [OF assms]]) (auto simp: kv_failed_def up_returns)

lemma wp_get_balance:
  assumes "lawful_redis rd K"
  shows "wp (get_balance rd i)
    (\<lambda>r w'. kv_same K w w' \<and>
       (r \<noteq> None \<longrightarrow> (\<exists>s. fetched K w w' (key_balance i) = Some s \<and> r = dec_parse s)) \<and>
       (redis_up rd \<longrightarrow> r = Option.bind (fetched K w w' (key_balance i)) dec_parse))
    (\<lambda>_ _. False) w"
  unfolding get_balance_def wp_simps
  by (rule wp_mono [OF redis_laws(1) [OF assms]])
    (auto simp: wp_simps kv_failed_def up_returns split: option.splits)

lemma wp_get_json:
  assumes "lawful_redis rd K"
  shows "wp (get_json rd k)
    (\<lambda>r w'. kv_same K w w' \<and>
       (r \<noteq> None \<longrightarrow> (\<exists>s. fetched K w w' k = Some s \<and> r = loads s)) \<and>
       (redis_up rd \<longrightarrow> r = Option.bind (fetched K w w' k) loads))
    (\<lambda>_ _. False) w"
proof -
  have "loads [] = None" by (simp add: loads_def)
  then show ?thesis
    unfolding get_json_def wp_simps
    by (intro wp_mono [OF redis_laws(1) [OF assms]])
      (auto simp: wp_simps kv_failed_def up_returns split: option.splits if_splits)
qed

interpretation balance_cache: invalidating_cache lawful_redis redis_up key_balance TTL_BALANCE
  dec_str dec_parse "\<lambda>_. True" get_balance set_balance invalidate_balance
  by unfold_locales
    (simp_all add: dec_parse_str TTL_BALANCE_def set_balance_def invalidate_balance_def
      wp_get_balance wp_swallow_set wp_swallow_delete del: not_None_eq)

interpretation wallet_info_cache: invalidating_cache lawful_redis redis_up key_wallet_info TTL_WALLET_INFO
  dumps loads plain_json get_wallet_info set_wallet_info invalidate_wallet_info
  by unfold_locales
    (simp_all add: loads_dumps TTL_WALLET_INFO_def set_wallet_info_def invalidate_wallet_info_def
      get_wallet_info_def wp_get_json wp_swallow_set wp_swallow_delete del: not_None_eq)

interpretation idempotency_cache: best_effort_cache lawful_redis redis_up key_idempotency TTL_IDEMPOTENCY
  dumps loads plain_json get_idempotency set_idempotency
  by unfold_locales
    (simp_all add: loads_dumps TTL_IDEMPOTENCY_def set_idempotency_def
      get_idempotency_def wp_get_json wp_swallow_set del: not_None_eq)

end
