(* ===== verification/Idempotency.thy ===== *)
theory Idempotency
  imports Cache
begin

text \<open>
  \<open>app/services/idempotency_service.py\<close>: the fast tier of the idempotency check, over an optional
  Redis client. The durable tier, the unique column, is used by the payment service.
\<close>

section \<open>Settings\<close>

definition idempotency_key_ttl_hours :: int where
  "idempotency_key_ttl_hours = 24"

definition IDEMPOTENCY_TTL :: int where
  "IDEMPOTENCY_TTL = idempotency_key_ttl_hours * 3600"

section \<open>Methods\<close>

definition check_key :: "string \<Rightarrow> 'w redis option \<Rightarrow> ('w, json option) io" where
  "check_key key redis_client =
     (if key = [] then py_return None
      else case redis_client of
        None \<Rightarrow> py_return None
      | Some rd \<Rightarrow>
          py_catch
            (py_bind (redis_get rd (''idempotency:'' @ key)) (\<lambda>cached.
               case cached of
                 None \<Rightarrow> py_return None
               | Some s \<Rightarrow>
                   if s = [] then py_return None
                   else (case loads s of
                           None \<Rightarrow> py_raise (Library ValueError)
                         | Some j \<Rightarrow> py_return (Some j))))
            (\<lambda>_. py_return None))"

definition stored_response :: "json \<Rightarrow> int \<Rightarrow> json" where
  "stored_response response_data status_code =
     JObj [(''response'', response_data), (''status_code'', JInt status_code)]"

definition store_key :: "string \<Rightarrow> json \<Rightarrow> int \<Rightarrow> 'w redis option \<Rightarrow> ('w, unit) io" where
  "store_key key response_data status_code redis_client =
     (let stored = stored_response response_data status_code in
      case redis_client of
        None \<Rightarrow> py_return ()
      | Some rd \<Rightarrow>
          py_catch (redis_setex rd (''idempotency:'' @ key) IDEMPOTENCY_TTL (dumps stored))
            (\<lambda>_. py_return ()))"

definition delete_key :: "string \<Rightarrow> 'w redis option \<Rightarrow> ('w, unit) io" where
  "delete_key key redis_client =
     (case redis_client of
        None \<Rightarrow> py_return ()
      | Some rd \<Rightarrow> py_catch (redis_delete rd (''idempotency:'' @ key)) (\<lambda>_. py_return ()))"

section \<open>The contract\<close>

text \<open>
  For a key that is not empty the methods are those of a best-effort cache on the same Redis keys,
  and with the same lifetime, as the cache manager's own idempotency methods.
\<close>

lemma ttl_agree: "IDEMPOTENCY_TTL = TTL_IDEMPOTENCY"
  by (simp add: IDEMPOTENCY_TTL_def idempotency_key_ttl_hours_def TTL_IDEMPOTENCY_def)

lemma check_key_get_idempotency:
  "key \<noteq> [] \<Longrightarrow> check_key key (Some rd) = get_idempotency rd key"
  by (simp add: check_key_def get_idempotency_def get_json_def key_idempotency_def)

lemma store_key_set_idempotency:
  "store_key key d c (Some rd) = set_idempotency rd key (stored_response d c)"
  by (simp add: store_key_def set_idempotency_def key_idempotency_def ttl_agree)

lemma stored_response_plain: "plain_json d \<Longrightarrow> plain_json (stored_response d c)"
  by (simp add: stored_response_def)

lemma stored_response_get [simp]: "json_get ''response'' (stored_response d c) = Some d"
  by (simp add: stored_response_def)

text \<open>Removing a key, on the same terms: a failed deletion is ignored.\<close>

lemma delete_key_client:
  "delete_key key (Some rd) = py_catch (redis_delete rd (key_idempotency key)) (\<lambda>_. py_return ())"
  by (simp add: delete_key_def key_idempotency_def)

interpretation idempotency_keys: invalidating_cache lawful_redis redis_up key_idempotency TTL_IDEMPOTENCY
  dumps loads plain_json get_idempotency set_idempotency "\<lambda>rd key. delete_key key (Some rd)"
  by unfold_locales (simp add: delete_key_client wp_swallow_delete)

text \<open>Neither method raises, and neither needs a client.\<close>

lemma check_key_without_client [simp]: "check_key key None = py_return None"
  by (simp add: check_key_def)

lemma store_key_without_client [simp]: "store_key key d c None = py_return ()"
  by (simp add: store_key_def)

end
