(* ===== verification/Schemas.thy ===== *)
theory Schemas
  imports Models Errors Json
begin

text \<open>
  The request and response schemas of \<open>app/schemas\<close>: their fields, the constraints the
  declarations put on requests, and the responses built from rows (\<open>from_attributes\<close>). Pydantic
  itself is a parameter: \<open>codec\<close> is its JSON form of a transaction response and the
  validation of that form; the documented fact relied on is that the two are inverse.
\<close>

section \<open>Payments\<close>

record payment_request =
  pr_receiver_id :: uuid
  pr_amount :: decimal
  pr_currency :: string
  pr_idempotency_key :: string
  pr_description :: "string option"

definition currency_pattern :: "string \<Rightarrow> bool" where
  "currency_pattern s \<longleftrightarrow> length s = 3 \<and> list_all (\<lambda>c. 65 \<le> ord c \<and> ord c \<le> 90) s"

text \<open>\<open>Field(..., gt=0, decimal_places=2)\<close>\<close>

definition money_field :: "decimal \<Rightarrow> bool" where
  "money_field d \<longleftrightarrow> 0 < coef d \<and> whole_cents d"

definition payment_request_valid :: "payment_request \<Rightarrow> bool" where
  "payment_request_valid r \<longleftrightarrow>
     money_field (pr_amount r) \<and> currency_pattern (pr_currency r) \<and>
     1 \<le> length (pr_idempotency_key r) \<and> length (pr_idempotency_key r) \<le> 255 \<and>
     (case pr_description r of None \<Rightarrow> True | Some s \<Rightarrow> length s \<le> 500)"

record transaction_response =
  tr_id :: uuid
  tr_sender_wallet_id :: uuid
  tr_receiver_wallet_id :: uuid
  tr_amount :: decimal
  tr_currency :: string
  tr_status :: string
  tr_idempotency_key :: string
  tr_description :: "string option"
  tr_created_at :: int

definition transaction_response_of :: "transaction \<Rightarrow> transaction_response" where
  "transaction_response_of t =
     \<lparr>tr_id = t_id t, tr_sender_wallet_id = t_sender_wallet_id t,
      tr_receiver_wallet_id = t_receiver_wallet_id t, tr_amount = t_amount t,
      tr_currency = t_currency t, tr_status = status_value (t_status t),
      tr_idempotency_key = t_idempotency_key t, tr_description = t_description t,
      tr_created_at = t_created_at t\<rparr>"

record transaction_list_response =
  tl_transactions :: "transaction_response list"
  tl_total :: nat
  tl_page :: int
  tl_page_size :: int

text \<open>\<open>model_dump(mode="json")\<close> and \<open>TransactionResponse(**d)\<close>\<close>

record codec =
  dump_txn :: "transaction_response \<Rightarrow> json"
  load_txn :: "json \<Rightarrow> exn + transaction_response"

definition lawful_codec :: "codec \<Rightarrow> bool" where
  "lawful_codec cdc \<longleftrightarrow> (\<forall>x. plain_json (dump_txn cdc x) \<and> load_txn cdc (dump_txn cdc x) = Inr x)"

section \<open>Wallets\<close>

record wallet_response =
  wr_id :: uuid
  wr_user_id :: uuid
  wr_balance :: decimal
  wr_currency :: string
  wr_created_at :: int

definition wallet_response_of :: "wallet \<Rightarrow> wallet_response" where
  "wallet_response_of x =
     \<lparr>wr_id = w_id x, wr_user_id = w_user_id x, wr_balance = w_balance x,
      wr_currency = w_currency x, wr_created_at = w_created_at x\<rparr>"

text \<open>\<open>WalletCreate\<close>, which no route takes.\<close>

record wallet_create_data =
  wc_currency :: string

definition wallet_create_valid :: "wallet_create_data \<Rightarrow> bool" where
  "wallet_create_valid r \<longleftrightarrow> currency_pattern (wc_currency r)"

text \<open>\<open>WalletTopUp\<close>.\<close>

record wallet_top_up =
  tu_amount :: decimal

definition wallet_top_up_valid :: "wallet_top_up \<Rightarrow> bool" where
  "wallet_top_up_valid r \<longleftrightarrow> money_field (tu_amount r)"

section \<open>Users\<close>

record user_create_data =
  uc_email :: string
  uc_password :: string
  uc_full_name :: string

text \<open>The syntax of the address is \<open>EmailStr\<close>'s business, a parameter.\<close>

definition user_create_valid :: "(string \<Rightarrow> bool) \<Rightarrow> user_create_data \<Rightarrow> bool" where
  "user_create_valid email_str r \<longleftrightarrow>
     email_str (uc_email r) \<and> 8 \<le> length (uc_password r) \<and> length (uc_password r) \<le> 128 \<and>
     1 \<le> length (uc_full_name r) \<and> length (uc_full_name r) \<le> 255"

record user_response =
  ur_id :: uuid
  ur_email :: string
  ur_full_name :: string
  ur_is_active :: bool
  ur_created_at :: int

definition user_response_of :: "user \<Rightarrow> user_response" where
  "user_response_of x =
     \<lparr>ur_id = u_id x, ur_email = u_email x, ur_full_name = u_full_name x,
      ur_is_active = u_is_active x, ur_created_at = u_created_at x\<rparr>"

record user_login =
  ul_email :: string
  ul_password :: string

record token_response =
  tk_access_token :: string
  tk_token_type :: string

definition token_response_of :: "string \<Rightarrow> token_response" where
  "token_response_of token = \<lparr>tk_access_token = token, tk_token_type = ''bearer''\<rparr>"

section \<open>Facts\<close>

lemma money_field_cents: "money_field d \<Longrightarrow> 0 < cents d \<and> whole_cents d"
proof -
  assume m: "money_field d"
  then have "0 < dec_val d" by (simp add: money_field_def dec_val_def)
  with m show ?thesis by (simp add: money_field_def whole_cents_val)
qed

lemma transaction_response_of_inj:
  "transaction_response_of x = transaction_response_of y \<Longrightarrow> x = y"
  by (cases "t_status x"; cases "t_status y"; cases x; cases y)
    (auto simp: transaction_response_of_def)

end
