(* ===== verification/Payment.thy ===== *)
theory Payment
  imports Repositories Idempotency Schemas
begin

text \<open>
  \<open>app/services/payment_service.py\<close>: the idempotent transfer. \<open>execute_transfer\<close> is one
  attempt inside one database transaction, in the three phases of the method (lock, move,
  record and commit); \<open>send_money\<close> adds the idempotency checks, the validation
  and the retry loop with its handlers.
\<close>

section \<open>One attempt\<close>

text \<open>Lines 189--204: both wallets locked in sorted order, then told apart again.\<close>

definition lock_wallets :: "'w session \<Rightarrow> uuid \<Rightarrow> uuid \<Rightarrow> ('w, uuid \<times> uuid) io" where
  "lock_wallets db sender_wallet_id receiver_wallet_id =
     (let wallet_ids = sort [sender_wallet_id, receiver_wallet_id] in
      py_bind (wallet_get_by_id_for_update db (wallet_ids ! 0)) (\<lambda>locked_first.
      py_bind (wallet_get_by_id_for_update db (wallet_ids ! 1)) (\<lambda>locked_second.
        case locked_first of
          None \<Rightarrow> raise_domain WalletNotFoundException
        | Some first \<Rightarrow>
            (case locked_second of
               None \<Rightarrow> raise_domain WalletNotFoundException
             | Some second \<Rightarrow>
                 py_bind (wallet_attrs db first) (\<lambda>f.
                   if w_id f = sender_wallet_id then py_return (first, second)
                   else py_return (second, first))))))"

text \<open>Lines 206--225: the balance check, the debit and the credit.\<close>

definition move_money :: "'w session \<Rightarrow> uuid \<Rightarrow> uuid \<Rightarrow> decimal \<Rightarrow> ('w, unit) io" where
  "move_money db sender receiver amount =
     py_bind (wallet_attrs db sender) (\<lambda>s.
       if dec_less (w_balance s) amount
       then raise_domain (InsufficientBalanceException (dec_str (w_balance s)) (dec_str amount))
       else
         py_bind (wallet_update_balance db (w_id s) (dec_sub (w_balance s) amount) (w_version s)) (\<lambda>sender_ok.
           if \<not> sender_ok then raise_domain OptimisticLockException
           else
             py_bind (wallet_attrs db receiver) (\<lambda>r.
             py_bind (wallet_update_balance db (w_id r) (dec_add (w_balance r) amount) (w_version r)) (\<lambda>receiver_ok.
               if \<not> receiver_ok then raise_domain OptimisticLockException
               else py_return ()))))"

definition execute_transfer ::
  "'w session \<Rightarrow> uuid \<Rightarrow> uuid \<Rightarrow> decimal \<Rightarrow> string \<Rightarrow> string \<Rightarrow> string option \<Rightarrow>
   ('w, transaction_response) io" where
  "execute_transfer db sender_wallet_id receiver_wallet_id amount currency idempotency_key description =
     py_bind (lock_wallets db sender_wallet_id receiver_wallet_id) (\<lambda>(sender, receiver).
     py_bind (move_money db sender receiver amount) (\<lambda>_.
     py_bind (wallet_attrs db sender) (\<lambda>s.
     py_bind (wallet_attrs db receiver) (\<lambda>r.
     py_bind (txn_create db
        \<lparr>nt_sender_wallet_id = w_id s, nt_receiver_wallet_id = w_id r, nt_amount = amount,
         nt_currency = currency, nt_status = COMPLETED, nt_idempotency_key = idempotency_key,
         nt_description = description\<rparr>) (\<lambda>transaction.
     py_bind (commit_tx db) (\<lambda>_.
     py_bind (refresh_txn db transaction) (\<lambda>_.
     py_bind (txn_attrs db transaction) (\<lambda>t.
       py_return (transaction_response_of t)))))))))"

section \<open>Sending money\<close>

definition MAX_RETRY_ATTEMPTS :: nat where
  "MAX_RETRY_ATTEMPTS = 3"

text \<open>The truth value of a decoded JSON value, for \<open>if cached:\<close>.\<close>

fun json_truthy :: "json \<Rightarrow> bool" where
  "json_truthy JNull = False"
| "json_truthy (JBool b) = b"
| "json_truthy (JInt n) = (n \<noteq> 0)"
| "json_truthy (JFloat s) = True"
| "json_truthy (JStr s) = (s \<noteq> [])"
| "json_truthy (JArr js) = (js \<noteq> [])"
| "json_truthy (JObj ps) = (ps \<noteq> [])"

text \<open>
  Line 77: \<open>TransactionResponse(**cached["response"])\<close>; only a dictionary can be asked for the key.
\<close>

definition replay_cached :: "codec \<Rightarrow> json \<Rightarrow> ('w, transaction_response) io" where
  "replay_cached cdc cached =
     (case cached of
        JObj ps \<Rightarrow>
          (case map_of ps ''response'' of
             None \<Rightarrow> py_raise (Library KeyError)
           | Some d \<Rightarrow> (case load_txn cdc d of Inl e \<Rightarrow> py_raise e | Inr r \<Rightarrow> py_return r))
      | _ \<Rightarrow> py_raise (Library TypeError))"

text \<open>Lines 114--126: after the commit, the response is stored and both balances dropped.\<close>

definition post_commit ::
  "codec \<Rightarrow> 'w session \<Rightarrow> uuid \<Rightarrow> uuid \<Rightarrow> string \<Rightarrow> 'w redis option \<Rightarrow> transaction_response \<Rightarrow> ('w, unit) io" where
  "post_commit cdc db sender_wallet receiver_wallet idempotency_key redis_client result =
     (case redis_client of
        None \<Rightarrow> py_return ()
      | Some rd \<Rightarrow>
          let response_data = dump_txn cdc result in
          py_bind (store_key idempotency_key response_data 201 redis_client) (\<lambda>_.
          py_bind (wallet_attrs db sender_wallet) (\<lambda>s.
          py_bind (wallet_attrs db receiver_wallet) (\<lambda>r.
            redis_pipeline_delete rd
              [''wallet:balance:'' @ uuid_str (w_id s), ''wallet:balance:'' @ uuid_str (w_id r)]))))"

text \<open>The body of the \<open>try\<close> in the loop.\<close>

definition attempt_payment ::
  "codec \<Rightarrow> 'w session \<Rightarrow> uuid \<Rightarrow> uuid \<Rightarrow> payment_request \<Rightarrow> 'w redis option \<Rightarrow>
   ('w, transaction_response) io" where
  "attempt_payment cdc db sender_wallet receiver_wallet request redis_client =
     py_bind (wallet_attrs db sender_wallet) (\<lambda>s.
     py_bind (wallet_attrs db receiver_wallet) (\<lambda>r.
     py_bind (execute_transfer db (w_id s) (w_id r) (pr_amount request) (pr_currency request)
               (pr_idempotency_key request) (pr_description request)) (\<lambda>result.
     py_bind (post_commit cdc db sender_wallet receiver_wallet (pr_idempotency_key request)
               redis_client result) (\<lambda>_.
       py_return result))))"

text \<open>
  The \<open>except\<close> clauses; \<open>continue\<close> is what the optimistic-lock clause does before the last attempt.
\<close>

definition handle_payment_error ::
  "'w session \<Rightarrow> payment_request \<Rightarrow> nat \<Rightarrow> ('w, transaction_response) io \<Rightarrow> exn \<Rightarrow>
   ('w, transaction_response) io" where
  "handle_payment_error db request attempt continue e =
     (case e of
        Library IntegrityError \<Rightarrow>
          py_bind (rollback_tx db) (\<lambda>_.
          py_bind (txn_get_by_idempotency_key db (pr_idempotency_key request)) (\<lambda>existing.
            case existing of
              Some k \<Rightarrow> py_bind (txn_attrs db k) (\<lambda>t. py_return (transaction_response_of t))
            | None \<Rightarrow> raise_domain DuplicateTransactionException))
      | Domain OptimisticLockException \<Rightarrow>
          py_bind (rollback_tx db) (\<lambda>_.
            if attempt = MAX_RETRY_ATTEMPTS then raise_domain OptimisticLockException else continue)
      | _ \<Rightarrow> py_bind (rollback_tx db) (\<lambda>_. py_raise e))"

text \<open>
  \<open>for attempt in range(1, MAX_RETRY_ATTEMPTS + 1)\<close> over the attempts left, with \<open>last_error\<close>.
\<close>

fun payment_loop ::
  "codec \<Rightarrow> 'w session \<Rightarrow> uuid \<Rightarrow> uuid \<Rightarrow> payment_request \<Rightarrow> 'w redis option \<Rightarrow> nat list \<Rightarrow>
   exn option \<Rightarrow> ('w, transaction_response) io" where
  "payment_loop cdc db sw rw request redis_client [] last_error =
     py_raise (case last_error of None \<Rightarrow> Library PlainException | Some e \<Rightarrow> e)"
| "payment_loop cdc db sw rw request redis_client (attempt # rest) last_error =
     py_catch (attempt_payment cdc db sw rw request redis_client)
       (handle_payment_error db request attempt
          (payment_loop cdc db sw rw request redis_client rest (Some (Domain OptimisticLockException))))"

text \<open>Lines 79--172: the durable tier of the idempotency check, validation, and the loop.\<close>

definition send_uncached ::
  "codec \<Rightarrow> 'w session \<Rightarrow> uuid \<Rightarrow> payment_request \<Rightarrow> 'w redis option \<Rightarrow>
   ('w, transaction_response) io" where
  "send_uncached cdc db sender_user_id request redis_client =
     py_bind (txn_get_by_idempotency_key db (pr_idempotency_key request)) (\<lambda>existing_txn.
       case existing_txn of
         Some k \<Rightarrow> py_bind (txn_attrs db k) (\<lambda>t. py_return (transaction_response_of t))
       | None \<Rightarrow>
           py_bind (wallet_get_by_user_id db sender_user_id) (\<lambda>sender_wallet.
             case sender_wallet of
               None \<Rightarrow> raise_domain WalletNotFoundException
             | Some sw \<Rightarrow>
                 py_bind (wallet_get_by_user_id db (pr_receiver_id request)) (\<lambda>receiver_wallet.
                   case receiver_wallet of
                     None \<Rightarrow> raise_domain WalletNotFoundException
                   | Some rw \<Rightarrow>
                       py_bind (wallet_attrs db sw) (\<lambda>s.
                       py_bind (wallet_attrs db rw) (\<lambda>r.
                         if w_id s = w_id r then raise_domain SelfTransferException
                         else payment_loop cdc db sw rw request redis_client
                                [1..<MAX_RETRY_ATTEMPTS + 1] None)))))"

definition send_money ::
  "codec \<Rightarrow> 'w session \<Rightarrow> uuid \<Rightarrow> payment_request \<Rightarrow> 'w redis option \<Rightarrow>
   ('w, transaction_response) io" where
  "send_money cdc db sender_user_id request redis_client =
     py_bind (check_key (pr_idempotency_key request) redis_client) (\<lambda>cached.
       case cached of
         Some j \<Rightarrow> if json_truthy j then replay_cached cdc j
                   else send_uncached cdc db sender_user_id request redis_client
       | None \<Rightarrow> send_uncached cdc db sender_user_id request redis_client)"

end
