(* ===== verification/Money_Transfer.thy ===== *)
theory Money_Transfer
  imports Payment
begin

text \<open>
  The abstract transfer between two wallets of a database, and the refinement: one attempt of the
  payment service, over any lawful session, either makes exactly one abstract transfer durable or
  nothing, whatever other sessions commit in between.
\<close>

section \<open>The abstract transfer\<close>

text \<open>
  From the tables \<open>t\<close> to \<open>T\<close>: the sender's balance goes down and the receiver's up by the amount,
  both versions go up by one, and a completed transaction \<open>y\<close> with an unused key is added.
\<close>

definition transfers ::
  "uuid \<Rightarrow> uuid \<Rightarrow> decimal \<Rightarrow> string \<Rightarrow> string \<Rightarrow> string option \<Rightarrow> tables \<Rightarrow> transaction \<Rightarrow> tables \<Rightarrow> bool"
where
  "transfers s r amount currency key description t y T \<longleftrightarrow>
     (\<exists>xs xr bs br ts us.
        s \<noteq> r \<and> wallets t s = Some xs \<and> wallets t r = Some xr \<and> w_id xs = s \<and> w_id xr = r \<and>
        cents amount \<le> cents (w_balance xs) \<and>
        numeric_column bs \<and> cents bs = cents (w_balance xs) - cents amount \<and>
        numeric_column br \<and> cents br = cents (w_balance xr) + cents amount \<and>
        txns t (t_id y) = None \<and> (\<forall>j x. txns t j = Some x \<longrightarrow> t_idempotency_key x \<noteq> key) \<and>
        t_sender_wallet_id y = s \<and> t_receiver_wallet_id y = r \<and>
        numeric_column (t_amount y) \<and> cents (t_amount y) = cents amount \<and> t_currency y = currency \<and> t_status y = COMPLETED \<and>
        t_idempotency_key y = key \<and> t_description y = description \<and>
        T = put_txn y (put_wallet (rebalance br (w_version xr + 1) us xr)
              (put_wallet (rebalance bs (w_version xs + 1) ts xs) t)))"

lemma transfersE:
  assumes "transfers s r a currency key description t y T"
  obtains xs xr bs br ts us where
    "s \<noteq> r" "wallets t s = Some xs" "wallets t r = Some xr" "w_id xs = s" "w_id xr = r"
    "cents a \<le> cents (w_balance xs)"
    "numeric_column bs" "cents bs = cents (w_balance xs) - cents a"
    "numeric_column br" "cents br = cents (w_balance xr) + cents a"
    "txns t (t_id y) = None" "\<forall>j x. txns t j = Some x \<longrightarrow> t_idempotency_key x \<noteq> key"
    "t_sender_wallet_id y = s" "t_receiver_wallet_id y = r" "numeric_column (t_amount y)"
    "cents (t_amount y) = cents a" "t_currency y = currency" "t_status y = COMPLETED"
    "t_idempotency_key y = key" "t_description y = description"
    "T = put_txn y (put_wallet (rebalance br (w_version xr + 1) us xr)
       (put_wallet (rebalance bs (w_version xs + 1) ts xs) t))"
  using assms unfolding transfers_def by blast

text \<open>A transfer looks at the two wallets and the transactions only.\<close>

lemma transfers_frame:
  assumes "transfers s r a currency key description t y T"
    and "wallets u s = wallets t s" "wallets u r = wallets t r" "txns u = txns t"
  shows "\<exists>x x'. w_id x = s \<and> w_id x' = r \<and> T = put_txn y (put_wallet x' (put_wallet x t)) \<and>
    transfers s r a currency key description u y (put_txn y (put_wallet x' (put_wallet x u)))"
proof -
  from assms(1) obtain xs xr bs br ts us where h:
    "s \<noteq> r" "wallets t s = Some xs" "wallets t r = Some xr" "w_id xs = s" "w_id xr = r"
    "cents a \<le> cents (w_balance xs)"
    "numeric_column bs" "cents bs = cents (w_balance xs) - cents a"
    "numeric_column br" "cents br = cents (w_balance xr) + cents a"
    "txns t (t_id y) = None" "\<forall>j x. txns t j = Some x \<longrightarrow> t_idempotency_key x \<noteq> key"
    "t_sender_wallet_id y = s" "t_receiver_wallet_id y = r" "numeric_column (t_amount y)"
    "cents (t_amount y) = cents a" "t_currency y = currency" "t_status y = COMPLETED"
    "t_idempotency_key y = key" "t_description y = description"
    "T = put_txn y (put_wallet (rebalance br (w_version xr + 1) us xr)
       (put_wallet (rebalance bs (w_version xs + 1) ts xs) t))"
    by (rule transfersE)
  then have "transfers s r a currency key description u y (put_txn y
      (put_wallet (rebalance br (w_version xr + 1) us xr) (put_wallet (rebalance bs (w_version xs + 1) ts xs) u)))"
    unfolding transfers_def
    by (intro exI [of _ xs] exI [of _ xr] exI [of _ bs] exI [of _ br] exI [of _ ts] exI [of _ us])
      (use h assms(2-4) in simp)
  with h show ?thesis
    by (intro exI [of _ "rebalance bs (w_version xs + 1) ts xs"] exI [of _ "rebalance br (w_version xr + 1) us xr"]) simp
qed

lemma transfers_conserve:
  assumes tr: "transfers s r a c key d t y T" and fin: "finite (dom (wallets t))"
  shows "total_cents T = total_cents t"
proof -
  from tr obtain xs xr bs br ts us where
    x: "s \<noteq> r" "wallets t s = Some xs" "wallets t r = Some xr" "w_id xs = s" "w_id xr = r"
      "cents bs = cents (w_balance xs) - cents a" "cents br = cents (w_balance xr) + cents a"
    and T: "T = put_txn y (put_wallet (rebalance br (w_version xr + 1) us xr)
              (put_wallet (rebalance bs (w_version xs + 1) ts xs) t))"
    unfolding transfers_def by blast
  let ?t1 = "put_wallet (rebalance bs (w_version xs + 1) ts xs) t"
  have "total_cents ?t1 = total_cents t - cents a"
    using total_cents_put_wallet [OF fin, of "rebalance bs (w_version xs + 1) ts xs" xs] x by simp
  moreover have "finite (dom (wallets ?t1))" using fin by simp
  then have "total_cents T = total_cents ?t1 + cents a"
    unfolding T using total_cents_put_wallet [of ?t1 "rebalance br (w_version xr + 1) us xr" xr] x by simp
  ultimately show ?thesis by simp
qed

text \<open>What the transfer leaves: the two balances, every other wallet, and the ledger.\<close>

lemma transfers_rows:
  assumes "transfers s r a c key d t y T"
  shows "\<exists>xs xr xs' xr'. wallets t s = Some xs \<and> wallets t r = Some xr \<and>
      wallets T s = Some xs' \<and> wallets T r = Some xr' \<and>
      cents (w_balance xs') = cents (w_balance xs) - cents a \<and> 0 \<le> cents (w_balance xs') \<and>
      cents (w_balance xr') = cents (w_balance xr) + cents a \<and>
      w_version xs' = w_version xs + 1 \<and> w_version xr' = w_version xr + 1"
    and "k \<noteq> s \<Longrightarrow> k \<noteq> r \<Longrightarrow> wallets T k = wallets t k"
    and "txns T = (txns t)(t_id y \<mapsto> y)" and "users T = users t"
    and "txns t (t_id y) = None"
  using assms unfolding transfers_def by auto

lemma transfers_valid:
  assumes tr: "transfers s r a c key d t y T" and ok: "valid_db t" and pos: "0 < cents a"
  shows "valid_db T"
proof -
  from tr obtain xs xr bs br ts us where
    x: "s \<noteq> r" "wallets t s = Some xs" "wallets t r = Some xr" "w_id xs = s" "w_id xr = r"
      "cents a \<le> cents (w_balance xs)" "numeric_column bs" "numeric_column br"
      "cents bs = cents (w_balance xs) - cents a" "cents br = cents (w_balance xr) + cents a"
    and y: "txns t (t_id y) = None" "\<forall>j x. txns t j = Some x \<longrightarrow> t_idempotency_key x \<noteq> key"
      "t_sender_wallet_id y = s" "t_receiver_wallet_id y = r" "cents (t_amount y) = cents a"
      "t_idempotency_key y = key" and amt: "numeric_column (t_amount y)"
    and T: "T = put_txn y (put_wallet (rebalance br (w_version xr + 1) us xr)
              (put_wallet (rebalance bs (w_version xs + 1) ts xs) t))"
    unfolding transfers_def by blast
  have col: "cents b = coef b" if "numeric_column b" for b
    using that expo_2_cents by (simp add: numeric_column_def)
  have W: "wallets T = (wallets t)(s \<mapsto> rebalance bs (w_version xs + 1) ts xs, r \<mapsto> rebalance br (w_version xr + 1) us xr)"
    using x by (simp add: T)
  have U: "users T = users t" and X: "txns T = (txns t)(t_id y \<mapsto> y)" by (simp_all add: T)
  have D: "dom (wallets T) = dom (wallets t)" using x W by auto
  have rows: "wallet_ok t k z" if "wallets t k = Some z" for k z
    using ok that unfolding valid_db_def by blast
  have coefs: "0 \<le> coef bs" "0 \<le> coef br" "0 < coef (t_amount y)"
    using x y pos amt col rows [OF x(3)] by (auto simp: wallet_ok_def chk_balance_non_negative_def)
  have old: "\<exists>z. wallets t k = Some z \<and> w_user_id w = w_user_id z \<and> wallet_ok T k w"
    if "wallets T k = Some w" for k w
    using that rows [OF x(2)] rows [OF x(3)] rows [of k w] x coefs unfolding W
    by (auto simp: wallet_ok_def chk_balance_non_negative_def U split: if_splits)
  then have "\<forall>k w. wallets T k = Some w \<longrightarrow> wallet_ok T k w" by blast
  moreover have "unique_by w_user_id (wallets T)"
  proof -
    have uq: "unique_by w_user_id (wallets t)" using ok by (simp add: valid_db_def)
    show ?thesis by (rule unique_by_same [OF uq]) (use old in blast)
  qed
  moreover have "txn_ok T k z" if z: "txns T k = Some z" for k z
  proof (cases "k = t_id y")
    case True
    with z x y coefs amt show ?thesis
      by (auto simp: X txn_ok_def chk_amount_positive_def chk_different_wallets_def D)
  next
    case False
    then have "txn_ok t k z" using z ok unfolding valid_db_def X by auto
    then show ?thesis by (simp add: txn_ok_def D)
  qed
  moreover have "unique_by t_idempotency_key (txns T)"
    using ok y(2,6) unfolding X by (intro unique_by_insert) (simp_all add: valid_db_def)
  ultimately show ?thesis
    using ok by (simp add: valid_db_def U)
qed

section \<open>Attributes\<close>

lemma wp_wallet_attrs:
  assumes "lawful_session db V R"
  shows "wp (wallet_attrs db k) Q E w =
    (case loaded_wallet V w k of None \<Rightarrow> E (Library MissingGreenlet) w | Some x \<Rightarrow> Q x w)"
  using lawful_laws(11) [OF assms] by (simp add: law_attrs_def wp_def split: option.split)

lemma wp_txn_attrs:
  assumes "lawful_session db V R"
  shows "wp (txn_attrs db k) Q E w =
    (case loaded_txn V w k of None \<Rightarrow> E (Library MissingGreenlet) w | Some x \<Rightarrow> Q x w)"
  using lawful_laws(11) [OF assms] by (simp add: law_attrs_def wp_def split: option.split)

section \<open>Locking\<close>

lemma wp_lock_one:
  assumes law: "lawful_session db V R" and ok: "snapshots_ok V w"
  shows "wp (wallet_get_by_id_for_update db k)
    (\<lambda>r w'. unchanged V R w w' \<and> (r = None \<or> r = Some k) \<and>
       (\<forall>j y. loaded_wallet V w j = Some y \<longrightarrow> loaded_wallet V w' j = Some y) \<and>
       (r = Some k \<longrightarrow> k \<in> locked V w' \<and> loaded_wallet V w' k \<noteq> None))
    (\<lambda>e. failed V R e w) w"
  unfolding wallet_get_by_id_for_update_def
  by (rule wp_mono [OF wp_select_wallet [OF law ok]]) (auto split: option.splits)

definition locked_both :: "'w absn \<Rightarrow> uuid \<Rightarrow> uuid \<Rightarrow> 'w \<Rightarrow> bool" where
  "locked_both V a b w \<longleftrightarrow> {a, b} \<subseteq> locked V w \<and> loaded_wallet V w a \<noteq> None \<and> loaded_wallet V w b \<noteq> None"

lemma sort_two: "sort [a, b] = (if a \<le> b then [a, b] else [b, a :: 'a :: linorder])"
  by simp

text \<open>The smaller identifier is locked first, and the pair comes back in the order asked for.\<close>

lemma wp_lock_wallets:
  assumes law: "lawful_session db V R" and ok: "snapshots_ok V w"
  shows "wp (lock_wallets db a b)
    (\<lambda>p w'. p = (a, b) \<and> unchanged V R w w' \<and> locked_both V a b w')
    (\<lambda>e w'. failed V R e w w' \<or> e = Domain WalletNotFoundException \<and> unchanged V R w w') w"
proof -
  have R: "rely_ok R" using law by (rule lawful_rely)
  define f s where "f = sort [a, b] ! 0" and "s = sort [a, b] ! 1"
  then have fs: "f = a \<and> s = b \<or> f = b \<and> s = a" unfolding sort_two by auto
  show ?thesis
    unfolding lock_wallets_def Let_def f_def [symmetric] s_def [symmetric] wp_bind
  proof (rule wp_mono [OF wp_lock_one [OF law ok]], goal_cases)
    case (1 r w1)
    then have u1: "unchanged V R w w1" by simp
    then have ok1: "snapshots_ok V w1" by (simp add: unchanged_def)
    show ?case
    proof (rule wp_mono [OF wp_lock_one [OF law ok1]], goal_cases)
      case (1 q w2)
      note second = 1
      then have u2: "unchanged V R w w2" using unchanged_trans [OF R u1] by simp
      show ?case
      proof (cases "r = None \<or> q = None")
        case True
        then show ?thesis
          using u2 by (auto simp: wp_simps split: option.splits)
      next
        case False
        then have rq: "r = Some f" "q = Some s"
          using second(2) \<open>_ \<and> (r = None \<or> r = Some f) \<and> _\<close> by auto
        have f1: "f \<in> locked V w1" "loaded_wallet V w1 f \<noteq> None"
          using rq(1) \<open>_ \<and> (r = None \<or> r = Some f) \<and> _\<close> by auto
        have "locked V w1 \<subseteq> locked V w2" using second(2) by (simp add: unchanged_def)
        then have lk: "locked_both V a b w2"
          using f1 second(2) rq(2) fs unfolding locked_both_def by auto
        have ok2: "snapshots_ok V w2" using u2 by (simp add: unchanged_def)
        obtain y where y: "loaded_wallet V w2 f = Some y" using lk fs by (auto simp: locked_both_def)
        then have "w_id y = f" using snapshot_row [OF ok2] by blast
        with y rq u2 lk fs show ?thesis
          by (auto simp: wp_simps wp_wallet_attrs [OF law])
      qed
    next
      case 2
      then show ?case using failed_after [OF R u1] by blast
    qed
  qed auto
qed

section \<open>Moving the money\<close>

text \<open>A statement that has written the row \<open>y\<close>, which the session holds locked.\<close>

definition wrote :: "'w absn \<Rightarrow> rely \<Rightarrow> wallet \<Rightarrow> 'w \<Rightarrow> 'w \<Rightarrow> bool" where
  "wrote V R y w w' \<longleftrightarrow> locked V w' = insert (w_id y) (locked V w) \<and>
     R (locked V w') (put_wallet y (view V w)) (view V w') \<and>
     R {} (durable V w) (durable V w') \<and> snapshots_ok V w' \<and>
     (\<forall>j. j \<noteq> w_id y \<longrightarrow> loaded_wallet V w' j = loaded_wallet V w j) \<and>
     (loaded_wallet V w (w_id y) \<noteq> None \<longrightarrow> loaded_wallet V w' (w_id y) \<noteq> None)"

lemma snapshots_after_write:
  assumes R: "rely_ok R" and ok: "snapshots_ok V w" and row: "wallets (view V w) (w_id z) = Some x"
    and z: "later x z" and zb: "numeric_column (w_balance z)"
    and step: "R L (put_wallet z (view V w)) (view V w')" and d: "dirty V w' = dirty V w"
    and lt: "loaded_txn V w' = loaded_txn V w"
    and lw: "\<forall>j. j \<noteq> w_id z \<longrightarrow> loaded_wallet V w' j = loaded_wallet V w j"
      "loaded_wallet V w' (w_id z) = loaded_wallet V w (w_id z) \<or> loaded_wallet V w' (w_id z) = Some z"
  shows "snapshots_ok V w'"
proof -
  have now: "\<exists>u. wallets (view V w') k = Some u \<and> later v u"
    if "wallets (put_wallet z (view V w)) k = Some v" for k v
    using rely_later [OF R step that] .
  have "w_id y = k \<and> numeric_column (w_balance y) \<and> (\<exists>u. wallets (view V w') k = Some u \<and> later y u)"
    if y: "loaded_wallet V w' k = Some y" for k y
  proof (cases "k = w_id z \<and> y = z")
    case True
    then show ?thesis using now [of k z] zb by simp
  next
    case False
    then have old: "loaded_wallet V w k = Some y" using y lw by (cases "k = w_id z") auto
    then obtain v where v: "wallets (view V w) k = Some v" "later y v"
      and y': "w_id y = k" "numeric_column (w_balance y)"
      using snapshot_row [OF ok] by blast
    have "\<exists>u. wallets (put_wallet z (view V w)) k = Some u \<and> later y u"
      using v row z by (cases "k = w_id z") (auto intro: later_trans)
    then show ?thesis using now y' by (metis later_trans)
  qed
  moreover have "txns (view V w') k = Some y" if "loaded_txn V w' k = Some y" for k y
    using that ok rely_txns [OF R step, of k y] by (simp add: lt snapshots_ok_def)
  ultimately show ?thesis using ok d by (simp add: snapshots_ok_def)
qed

lemma wp_update_balance:
  assumes law: "lawful_session db V R" and ok: "snapshots_ok V w" and y: "loaded_wallet V w k = Some y"
  shows "wp (wallet_update_balance db k nb (w_version y))
    (\<lambda>done w'. if done
       then (\<exists>x b ts. wallets (view V w) k = Some x \<and> w_id x = k \<and>
         w_version x = w_version y \<and> w_balance x = w_balance y \<and>
         numeric_18_2 nb b \<and> 0 \<le> coef b \<and> wrote V R (rebalance b (w_version x + 1) ts x) w w')
       else R {} (durable V w) (durable V w') \<and>
         (\<forall>x. wallets (view V w) k = Some x \<longrightarrow> w_version y < w_version x))
    (\<lambda>e. failed V R e w) w"
proof -
  have R: "rely_ok R" using law by (rule lawful_rely)
  obtain x0 where x0: "wallets (view V w) k = Some x0" "later y x0" and yc: "numeric_column (w_balance y)"
    using snapshot_row [OF ok y] by blast
  note L = lawful_laws(4) [OF law, unfolded law_update_wallet_def, rule_format, OF snapshots_clean [OF ok]]
  show ?thesis
    unfolding wallet_update_balance_def wp_bind wp_return
  proof (rule wp_mono [OF L], goal_cases)
    case (1 n w')
    note post = 1(2)
    show ?case
    proof (cases "n = 0")
      case True
      with post x0 show ?thesis by (auto simp: tx_step_def later_def)
    next
      case False
      with post obtain x b ts where x: "wallets (view V w) k = Some x" "w_version x = w_version y" "w_id x = k"
        and b: "numeric_18_2 nb b" "0 \<le> coef b"
        and step: "tx_step V R (insert k (locked V w)) (put_wallet (rebalance b (w_version y + 1) ts x) (view V w)) w w'"
        and lt: "loaded_txn V w' = loaded_txn V w"
        and lw: "\<forall>j. j \<noteq> k \<longrightarrow> loaded_wallet V w' j = loaded_wallet V w j"
          "loaded_wallet V w' k = loaded_wallet V w k \<or>
           loaded_wallet V w' k = Some (rebalance b (w_version y + 1) ts x)"
        by auto
      let ?z = "rebalance b (w_version y + 1) ts x"
      have "numeric_column b" using b by (simp add: numeric_18_2_def numeric_column_def)
      then have "snapshots_ok V w'"
        using step x lw lt by (intro snapshots_after_write [OF R ok, of ?z x])
          (auto simp: tx_step_def intro: later_rebalance)
      then have "wrote V R ?z w w'"
        using step x lw y by (auto simp: wrote_def tx_step_def)
      moreover have "w_balance x = w_balance y" using x0 x by (simp add: later_def)
      ultimately show ?thesis using False x b by auto
    qed
  qed simp
qed

text \<open>What the two updates leave: both rows rewritten, on top of what the others did meanwhile.\<close>

definition moved :: "'w absn \<Rightarrow> rely \<Rightarrow> uuid \<Rightarrow> uuid \<Rightarrow> decimal \<Rightarrow> 'w \<Rightarrow> 'w \<Rightarrow> bool" where
  "moved V R a b amount w w' \<longleftrightarrow>
     R {} (durable V w) (durable V w') \<and> snapshots_ok V w' \<and>
     loaded_wallet V w' a \<noteq> None \<and> loaded_wallet V w' b \<noteq> None \<and>
     (\<exists>t xs xr bs br ts us. R {} (view V w) t \<and>
        wallets t a = Some xs \<and> wallets t b = Some xr \<and> w_id xs = a \<and> w_id xr = b \<and>
        cents amount \<le> cents (w_balance xs) \<and>
        numeric_column bs \<and> cents bs = cents (w_balance xs) - cents amount \<and>
        numeric_column br \<and> cents br = cents (w_balance xr) + cents amount \<and>
        view V w' = put_wallet (rebalance br (w_version xr + 1) us xr)
          (put_wallet (rebalance bs (w_version xs + 1) ts xs) t))"

lemma movedI:
  assumes "R {} (durable V w) (durable V w')" "snapshots_ok V w'"
    "loaded_wallet V w' a \<noteq> None" "loaded_wallet V w' b \<noteq> None" "R {} (view V w) t"
    "wallets t a = Some xs" "wallets t b = Some xr" "w_id xs = a" "w_id xr = b"
    "cents amount \<le> cents (w_balance xs)"
    "numeric_column bs" "cents bs = cents (w_balance xs) - cents amount"
    "numeric_column br" "cents br = cents (w_balance xr) + cents amount"
    "view V w' = put_wallet (rebalance br (w_version xr + 1) us xr)
          (put_wallet (rebalance bs (w_version xs + 1) ts xs) t)"
  shows "moved V R a b amount w w'"
  unfolding moved_def
  by (intro conjI exI [of _ t] exI [of _ xs] exI [of _ xr] exI [of _ bs] exI [of _ br]
      exI [of _ ts] exI [of _ us] assms)

lemma two_writes:
  assumes R: "rely_ok R" and ab: "a \<noteq> b" and L: "{a, b} \<subseteq> L"
    and xs: "wallets t a = Some xs" "w_id xs = a" and xr: "wallets u b = Some xr" "w_id xr = b"
    and xs': "w_id xs' = a" "w_user_id xs' = w_user_id xs" and xr': "w_id xr' = b" "w_user_id xr' = w_user_id xr"
    and s1: "R L (put_wallet xs' t) u" and s2: "R L (put_wallet xr' u) v"
  shows "\<exists>t'. R L t t' \<and> wallets t' a = Some xs \<and> wallets t' b = Some xr \<and>
    v = put_wallet xr' (put_wallet xs' t')"
proof -
  obtain t1 where t1: "R L t t1" "u = put_wallet xs' t1" "wallets t1 a = Some xs"
    using rely_commute_put [OF R s1, of xs] xs xs' L by auto
  obtain u1 where u1: "R L u u1" "v = put_wallet xr' u1" "wallets u1 b = Some xr"
    using rely_commute_put [OF R s2, of xr] xr xr' L by auto
  have "R L (put_wallet xs' t1) u1" using u1(1) t1(2) by simp
  then obtain t2 where t2: "R L t1 t2" "u1 = put_wallet xs' t2" "wallets t2 a = Some xs"
    using rely_commute_put [OF R, of L xs' t1 u1 xs] t1(3) xs xs' L by auto
  have "wallets t2 b = Some xr" using u1(3) t2(2) ab xs' by simp
  with t2 u1(2) rely_trans [OF R t1(1) t2(1)] show ?thesis by blast
qed

text \<open>How an attempt may end without having moved anything.\<close>

definition refused :: "'w absn \<Rightarrow> rely \<Rightarrow> decimal \<Rightarrow> 'w \<Rightarrow> exn \<Rightarrow> 'w \<Rightarrow> bool" where
  "refused V R amount w e w' \<longleftrightarrow> R {} (durable V w) (durable V w') \<and>
     (db_error e \<or>
      e \<in> {Domain OptimisticLockException, Domain WalletNotFoundException,
           Domain SelfTransferException, Domain DuplicateTransactionException} \<or>
      (\<exists>b. cents b < cents amount \<and>
         e = Domain (InsufficientBalanceException (dec_str b) (dec_str amount))))"

lemma refused_failed: "failed V R e w w' \<Longrightarrow> refused V R amount w e w'"
  by (simp add: failed_def refused_def)

lemma refused_after:
  "rely_ok R \<Longrightarrow> R {} (durable V w) (durable V w1) \<Longrightarrow> refused V R amount w1 e w' \<Longrightarrow>
   refused V R amount w e w'"
  unfolding refused_def using rely_trans by blast

lemma column_exact: "numeric_column d \<Longrightarrow> whole_cents d \<and> expo d = - 2"
  using expo_2_cents [of d] by (simp add: numeric_column_def)

text \<open>The credit, once the debit has been written.\<close>

lemma wp_credit:
  assumes law: "lawful_session db V R" and amt: "whole_cents amount" and ab: "a \<noteq> b"
    and L: "{a, b} \<subseteq> locked V w" and wr: "wrote V R (rebalance bs (w_version xs + 1) ts xs) w w1"
    and xs: "wallets (view V w) a = Some xs" "w_id xs = a" "cents amount \<le> cents (w_balance xs)"
    and bs: "numeric_column bs" "cents bs = cents (w_balance xs) - cents amount"
    and ya: "loaded_wallet V w a \<noteq> None" and yb: "loaded_wallet V w1 b = Some yb"
  shows "wp (wallet_update_balance db b (dec_add (w_balance yb) amount) (w_version yb))
    (\<lambda>done w'. if done then moved V R a b amount w w' else R {} (durable V w) (durable V w'))
    (\<lambda>e. failed V R e w) w1"
proof -
  have R: "rely_ok R" using law by (rule lawful_rely)
  have ok: "snapshots_ok V w1" and d: "R {} (durable V w) (durable V w1)"
    and ya1: "loaded_wallet V w1 a \<noteq> None" and L1: "locked V w1 = locked V w"
    and s1: "R (locked V w) (put_wallet (rebalance bs (w_version xs + 1) ts xs) (view V w)) (view V w1)"
    using wr xs ya L by (auto simp: wrote_def insert_absorb)
  have ib: "numeric_column (w_balance yb)" using snapshot_row [OF ok yb] by blast
  show ?thesis
  proof (rule wp_mono [OF wp_update_balance [OF law ok yb]], goal_cases)
    case (1 credited w2)
    show ?case
    proof (cases credited)
      case False
      then show ?thesis using 1 rely_trans [OF R d] by simp
    next
      case True
      with 1 obtain xr br us where xr: "wallets (view V w1) b = Some xr" "w_id xr = b" "w_balance xr = w_balance yb"
        and br: "numeric_18_2 (dec_add (w_balance yb) amount) br"
        and wr2: "wrote V R (rebalance br (w_version xr + 1) us xr) w1 w2"
        by auto
      have s2: "R (locked V w) (put_wallet (rebalance br (w_version xr + 1) us xr) (view V w1)) (view V w2)"
        using wr2 xr L1 L by (auto simp: wrote_def insert_absorb)
      obtain t where t: "R (locked V w) (view V w) t" "wallets t a = Some xs" "wallets t b = Some xr"
        "view V w2 = put_wallet (rebalance br (w_version xr + 1) us xr)
           (put_wallet (rebalance bs (w_version xs + 1) ts xs) t)"
        using two_writes [OF R ab L xs(1,2) xr(1,2) _ _ _ _ s1 s2] xs xr by auto
      have "cents br = cents (w_balance xr) + cents amount"
        using numeric_18_2_add [OF _ amt _ br] column_exact [OF ib] xr by simp
      moreover have "numeric_column br" using br by (simp add: numeric_18_2_def numeric_column_def)
      moreover have "R {} (durable V w) (durable V w2)" "snapshots_ok V w2"
        "loaded_wallet V w2 a \<noteq> None" "loaded_wallet V w2 b \<noteq> None"
        using wr2 xr ya1 yb ab rely_trans [OF R d] by (auto simp: wrote_def)
      ultimately have "moved V R a b amount w w2"
        using t xs bs xr rely_weaken [OF R t(1)] by (intro movedI)
      with True show ?thesis by simp
    qed
  next
    case (2 e w2)
    then show ?case using d rely_trans [OF R] by (auto simp: failed_def)
  qed
qed

lemma wp_move_money:
  assumes law: "lawful_session db V R" and ok: "snapshots_ok V w" and lk: "locked_both V a b w"
    and ab: "a \<noteq> b" and amt: "whole_cents amount"
  shows "wp (move_money db a b amount) (\<lambda>_. moved V R a b amount w) (refused V R amount w) w"
proof -
  have R: "rely_ok R" using law by (rule lawful_rely)
  obtain ya yb where ya: "loaded_wallet V w a = Some ya" and yb: "loaded_wallet V w b = Some yb"
    using lk by (auto simp: locked_both_def)
  have ia: "w_id ya = a" "numeric_column (w_balance ya)" and ib: "w_id yb = b"
    using snapshot_row [OF ok ya] snapshot_row [OF ok yb] by blast+
  note less = dec_less_cents [OF column_exact [OF ia(2), THEN conjunct1] amt]
  note attrs = wp_wallet_attrs [OF law]
  show ?thesis
  proof (cases "dec_less (w_balance ya) amount")
    case True
    then have "cents (w_balance ya) < cents amount" by (simp add: less)
    with True ya show ?thesis
      by (auto simp: move_money_def wp_simps attrs rely_refl [OF R] refused_def)
  next
    case False
    then have enough: "cents amount \<le> cents (w_balance ya)" by (simp add: less)
    show ?thesis
      unfolding move_money_def wp_bind attrs ya option.case wp_if if_not_P [OF False] ia(1)
    proof (rule wp_mono [OF wp_update_balance [OF law ok ya]], goal_cases)
      case (1 debited w1)
      show ?case
      proof (cases debited)
        case False
        then show ?thesis using 1 by (simp add: wp_simps refused_def)
      next
        case True
        with 1 obtain xs bs ts where xs: "wallets (view V w) a = Some xs" "w_id xs = a" "w_balance xs = w_balance ya"
          and bs: "numeric_18_2 (dec_sub (w_balance ya) amount) bs"
          and wr: "wrote V R (rebalance bs (w_version xs + 1) ts xs) w w1"
          by auto
        have "cents bs = cents (w_balance xs) - cents amount" "numeric_column bs"
          using numeric_18_2_sub [OF _ amt _ bs] column_exact [OF ia(2)] xs bs
          by (simp_all add: numeric_18_2_def numeric_column_def)
        moreover have yb1: "loaded_wallet V w1 b = Some yb"
          using wr xs yb ab by (simp add: wrote_def)
        ultimately have credit: "wp (wallet_update_balance db b (dec_add (w_balance yb) amount) (w_version yb))
            (\<lambda>done w'. if done then moved V R a b amount w w' else R {} (durable V w) (durable V w'))
            (\<lambda>e. failed V R e w) w1"
          using wp_credit [OF law amt ab _ wr xs(1,2)] enough xs lk ya by (simp add: locked_both_def)
        have "debited = True" using True by simp
        then show ?thesis
          by (simp add: wp_bind attrs yb1 ib wp_if)
            (rule wp_mono [OF credit]; simp add: wp_simps failed_def refused_def split: if_splits)
      qed
    next
      case (2 e w1)
      then show ?case by (simp add: refused_failed)
    qed
  qed
qed

text \<open>
  The balance check alone: it compares cents, the whole balance may be sent, and a refusal names both amounts and
  has touched nothing.
\<close>

lemma wp_move_money_check:
  assumes law: "lawful_session db V R" and ok: "snapshots_ok V w" and lk: "locked_both V a b w"
    and ab: "a \<noteq> b" and amt: "whole_cents amount" and x: "loaded_wallet V w a = Some x"
  shows "wp (move_money db a b amount) (\<lambda>_ _. cents amount \<le> cents (w_balance x))
    (\<lambda>e w'. if cents (w_balance x) < cents amount
       then e = Domain (InsufficientBalanceException (dec_str (w_balance x)) (dec_str amount)) \<and> w' = w
       else db_error e \<or> e = Domain OptimisticLockException) w"
proof -
  have ia: "w_id x = a" "numeric_column (w_balance x)" using snapshot_row [OF ok x] by blast+
  note less = dec_less_cents [OF column_exact [OF ia(2), THEN conjunct1] amt]
  note attrs = wp_wallet_attrs [OF law]
  obtain yb where yb: "loaded_wallet V w b = Some yb" "w_id yb = b"
    using lk snapshot_row [OF ok] by (auto simp: locked_both_def)
  show ?thesis
  proof (cases "dec_less (w_balance x) amount")
    case True
    with x show ?thesis by (simp add: move_money_def wp_simps attrs less)
  next
    case False
    then have enough: "\<not> cents (w_balance x) < cents amount" by (simp add: less)
    have credit: "wp (wallet_update_balance db b (dec_add (w_balance yb) amount) (w_version yb)) (\<lambda>_ _. True)
        (\<lambda>e _. db_error e) w1" if "snapshots_ok V w1" "loaded_wallet V w1 b = Some yb" for w1
      by (rule wp_mono [OF wp_update_balance [OF law that]]) (simp_all add: failed_def)
    show ?thesis
      unfolding move_money_def wp_bind attrs x option.case wp_if if_not_P [OF False] ia(1) if_not_P [OF enough]
    proof (rule wp_mono [OF wp_update_balance [OF law ok x]], goal_cases)
      case (1 debited w1)
      show ?case
      proof (cases debited)
        case True
        with 1 have w1: "snapshots_ok V w1" "loaded_wallet V w1 b = Some yb"
          using yb ab by (auto simp: wrote_def)
        from credit [OF w1] show ?thesis
          using True w1(2) yb enough by (simp add: wp_bind attrs wp_if) (rule wp_mono, assumption, simp_all add: wp_simps)
      qed (use enough in \<open>simp add: wp_simps\<close>)
    qed (simp add: failed_def)
  qed
qed

section \<open>One attempt\<close>

text \<open>
  The transfer has become durable: made on tables \<open>t\<close> that the others reached from what was seen
  first, into tables \<open>T\<close> from which the others then went on.
\<close>

definition committed ::
  "'w absn \<Rightarrow> rely \<Rightarrow> uuid \<Rightarrow> uuid \<Rightarrow> decimal \<Rightarrow> string \<Rightarrow> string \<Rightarrow> string option \<Rightarrow>
   transaction \<Rightarrow> 'w \<Rightarrow> 'w \<Rightarrow> bool" where
  "committed V R a b amount currency key description y w w' \<longleftrightarrow>
     rows_kept V w w' \<and>
     (\<exists>t T. R {} (view V w) t \<and> transfers a b amount currency key description t y T \<and>
        R {} T (durable V w'))"

lemma rows_kept_rely: "rely_ok R \<Longrightarrow> R L (durable V w) (durable V w') \<Longrightarrow> rows_kept V w w'"
  by (simp only: rows_kept_def rely_rows [of R L "durable V w" "durable V w'"])

lemma rows_kept_trans: "rows_kept V w w1 \<Longrightarrow> rows_kept V w1 w2 \<Longrightarrow> rows_kept V w w2"
  unfolding rows_kept_def by (elim conjE, intro conjI; erule (1) map_le_trans)

lemma committed_after:
  assumes R: "rely_ok R" and v: "R {} (view V w) (view V w1)" and d: "R {} (durable V w) (durable V w1)"
    and c: "committed V R a b amount currency key description y w1 w2" and d2: "R {} (durable V w2) (durable V w3)"
  shows "committed V R a b amount currency key description y w w3"
proof -
  from c obtain t T where k: "rows_kept V w1 w2" and t: "R {} (view V w1) t"
      "transfers a b amount currency key description t y T" "R {} T (durable V w2)"
    unfolding committed_def by blast
  have "rows_kept V w w3"
    by (rule rows_kept_trans [OF rows_kept_rely [OF R d] rows_kept_trans [OF k rows_kept_rely [OF R d2]]])
  with t(2) rely_trans [OF R v t(1)] rely_trans [OF R t(3) d2] show ?thesis
    unfolding committed_def by blast
qed

text \<open>An object the session holds with its primary key.\<close>

definition holds :: "'w absn \<Rightarrow> uuid \<Rightarrow> 'w \<Rightarrow> bool" where
  "holds V k w \<longleftrightarrow> (\<exists>x. loaded_wallet V w k = Some x \<and> w_id x = k)"

lemma holds_snapshot: "snapshots_ok V w \<Longrightarrow> loaded_wallet V w k \<noteq> None \<Longrightarrow> holds V k w"
  using snapshot_row [of V w k] by (auto simp: holds_def)

text \<open>The row that records the transfer, before it is committed.\<close>

definition recorded ::
  "'w absn \<Rightarrow> rely \<Rightarrow> uuid \<Rightarrow> uuid \<Rightarrow> decimal \<Rightarrow> string \<Rightarrow> string \<Rightarrow> string option \<Rightarrow>
   transaction \<Rightarrow> 'w \<Rightarrow> 'w \<Rightarrow> bool" where
  "recorded V R a b amount currency key description y w w' \<longleftrightarrow>
     R {} (durable V w) (durable V w') \<and> \<not> dirty V w' \<and> holds V a w' \<and> holds V b w' \<and>
     txns (view V w') (t_id y) = Some y \<and>
     (\<exists>t T. R {} (view V w) t \<and> transfers a b amount currency key description t y T \<and>
        R {} T (view V w'))"

lemma transfersI:
  assumes mv: "wallets t a = Some xs" "wallets t b = Some xr" "w_id xs = a" "w_id xr = b"
      "cents amount \<le> cents (w_balance xs)"
      "numeric_column bs" "cents bs = cents (w_balance xs) - cents amount"
      "numeric_column br" "cents br = cents (w_balance xr) + cents amount"
      "T = put_wallet (rebalance br (w_version xr + 1) us xr)
         (put_wallet (rebalance bs (w_version xs + 1) ts xs) t)"
    and ab: "a \<noteq> b" and amt: "whole_cents amount" and st: "numeric_18_2 amount d"
    and fresh: "txns T k = None" "\<forall>j x. txns T j = Some x \<longrightarrow> t_idempotency_key x \<noteq> key"
  shows "transfers a b amount currency key description t
    (transaction_row k c d \<lparr>nt_sender_wallet_id = a, nt_receiver_wallet_id = b, nt_amount = amount,
       nt_currency = currency, nt_status = COMPLETED, nt_idempotency_key = key, nt_description = description\<rparr>)
    (put_txn (transaction_row k c d \<lparr>nt_sender_wallet_id = a, nt_receiver_wallet_id = b, nt_amount = amount,
       nt_currency = currency, nt_status = COMPLETED, nt_idempotency_key = key, nt_description = description\<rparr>) T)"
proof -
  have "cents d = cents amount" "numeric_column d"
    using numeric_18_2_whole [OF st, of "cents amount"] whole_cents_val [OF amt] st
    by (simp_all add: numeric_18_2_def numeric_column_def)
  then show ?thesis
    unfolding transfers_def
    by (intro exI [of _ xs] exI [of _ xr] exI [of _ bs] exI [of _ br] exI [of _ ts] exI [of _ us])
      (use mv ab fresh in \<open>simp add: transaction_row_def\<close>)
qed

lemma wp_record:
  assumes law: "lawful_session db V R" and ab: "a \<noteq> b" and amt: "whole_cents amount"
    and mv: "moved V R a b amount w w1"
  shows "wp (txn_create db
      \<lparr>nt_sender_wallet_id = a, nt_receiver_wallet_id = b, nt_amount = amount, nt_currency = currency,
       nt_status = COMPLETED, nt_idempotency_key = key, nt_description = description\<rparr>)
    (\<lambda>k w'. \<exists>y. t_id y = k \<and> recorded V R a b amount currency key description y w w')
    (\<lambda>e. failed V R e w) w1"
proof -
  have R: "rely_ok R" using law by (rule lawful_rely)
  let ?n = "\<lparr>nt_sender_wallet_id = a, nt_receiver_wallet_id = b, nt_amount = amount, nt_currency = currency,
       nt_status = COMPLETED, nt_idempotency_key = key, nt_description = description\<rparr>"
  obtain t xs xr bs br ts us where d: "R {} (durable V w) (durable V w1)" and ok: "snapshots_ok V w1"
    and lw: "loaded_wallet V w1 a \<noteq> None" "loaded_wallet V w1 b \<noteq> None"
    and mt: "R {} (view V w) t"
    and rows: "wallets t a = Some xs" "wallets t b = Some xr" "w_id xs = a" "w_id xr = b"
      "cents amount \<le> cents (w_balance xs)"
      "numeric_column bs" "cents bs = cents (w_balance xs) - cents amount"
      "numeric_column br" "cents br = cents (w_balance xr) + cents amount"
      "view V w1 = put_wallet (rebalance br (w_version xr + 1) us xr)
         (put_wallet (rebalance bs (w_version xs + 1) ts xs) t)"
    using mv unfolding moved_def by blast
  note L = lawful_laws(5) [OF law, unfolded law_insert_txn_def Let_def, rule_format, OF snapshots_clean [OF ok], of ?n]
  show ?thesis
    unfolding txn_create_def
  proof (rule wp_mono [OF L], goal_cases)
    case (1 k w2)
    then obtain c s where s: "numeric_18_2 amount s" and fresh: "txns (view V w1) k = None"
        "\<forall>j x. txns (view V w1) j = Some x \<longrightarrow> t_idempotency_key x \<noteq> key"
      and step: "tx_step V R (locked V w1) (put_txn (transaction_row k c s ?n) (view V w1)) w1 w2"
      and same: "loaded_wallet V w2 = loaded_wallet V w1"
      by auto
    let ?y = "transaction_row k c s ?n"
    have y: "t_id ?y = k" by (simp add: transaction_row_def)
    have R2: "R {} (put_txn ?y (view V w1)) (view V w2)" "R {} (durable V w1) (durable V w2)"
      using step rely_weaken [OF R] by (auto simp: tx_step_def)
    have "transfers a b amount currency key description t ?y (put_txn ?y (view V w1))"
      using transfersI [OF rows ab amt s fresh] .
    moreover have "txns (view V w2) (t_id ?y) = Some ?y"
      using rely_txns [OF R R2(1)] by simp
    moreover have "\<not> dirty V w2" using step snapshots_clean [OF ok] by (simp add: tx_step_def)
    moreover have "holds V a w2" "holds V b w2"
      using holds_snapshot [OF ok] lw same by (simp_all add: holds_def)
    ultimately show ?case
      using y mt R2 rely_trans [OF R d] unfolding recorded_def by blast
  next
    case (2 e w2)
    then show ?case using d rely_trans [OF R] by (auto simp: failed_def)
  qed
qed

text \<open>The commit makes it durable; the object is then read back from the row.\<close>

lemma wp_commit_recorded:
  assumes law: "lawful_session db V R" and rc: "recorded V R a b amount currency key description y w w1"
  shows "wp (py_bind (commit_tx db) (\<lambda>_. py_bind (refresh_txn db (t_id y)) (\<lambda>_.
           py_bind (txn_attrs db (t_id y)) (\<lambda>t. py_return (transaction_response_of t)))))
    (\<lambda>resp w'. resp = transaction_response_of y \<and>
       committed V R a b amount currency key description y w w' \<and>
       locked V w' = {} \<and> \<not> dirty V w' \<and> holds V a w' \<and> holds V b w')
    (\<lambda>e w'. db_error e \<and> (R {} (durable V w) (durable V w') \<or>
       e \<noteq> Library IntegrityError \<and> committed V R a b amount currency key description y w w')) w1"
proof -
  have R: "rely_ok R" using law by (rule lawful_rely)
  have d: "R {} (durable V w) (durable V w1)" and clean: "\<not> dirty V w1"
    and h: "holds V a w1" "holds V b w1" and row: "txns (view V w1) (t_id y) = Some y"
    using rc by (simp_all add: recorded_def)
  have durably: "committed V R a b amount currency key description y w w'"
    if "R {} (view V w1) (durable V w')" "rows_kept V w1 w'" for w'
  proof -
    obtain t T where t: "R {} (view V w) t" "transfers a b amount currency key description t y T"
        "R {} T (view V w1)"
      using rc unfolding recorded_def by blast
    with rely_trans [OF R t(3) that(1)] rows_kept_trans [OF rows_kept_rely [OF R d] that(2)]
    show ?thesis unfolding committed_def by blast
  qed
  note C = lawful_laws(8) [OF law, unfolded law_commit_def, rule_format, OF clean]
  show ?thesis
    unfolding wp_bind
  proof (rule wp_mono [OF C], goal_cases)
    case (1 u w2)
    then have k2: "rows_kept V w1 w2" and c2: "\<not> dirty V w2" and v2: "R {} (view V w1) (view V w2)" "view V w2 = durable V w2"
      and s2: "same_objects V w1 w2" "locked V w2 = {}" by simp_all
    note F = lawful_laws(10) [OF law, unfolded law_refresh_def, rule_format, OF c2, THEN conjunct2, THEN conjunct1]
    show ?case
    proof (rule wp_mono [OF F], goal_cases)
      case (1 u w3)
      then have "R {} (view V w1) (durable V w3)" "rows_kept V w1 w3"
        using v2 rely_trans [OF R] rows_kept_trans [OF k2 rows_kept_rely [OF R]] by (auto simp: tx_step_def)
      moreover have "txns (view V w2) (t_id y) = Some y" by (rule rely_txns [OF R v2(1) row])
      ultimately show ?case
        using 1 s2 h c2 durably
        by (auto simp: wp_txn_attrs [OF law] wp_simps tx_step_def same_objects_def holds_def)
    next
      case (2 e w3)
      then show ?case
        using v2 durably rely_trans [OF R] rows_kept_trans [OF k2 rows_kept_rely [OF R]]
        by (auto simp: failed_def)
    qed
  next
    case (2 e w2)
    then show ?case using durably rely_trans [OF R d] by blast
  qed
qed

lemma wp_execute_transfer:
  assumes law: "lawful_session db V R" and ok: "snapshots_ok V w" and ab: "a \<noteq> b" and amt: "whole_cents amount"
  shows "wp (execute_transfer db a b amount currency key description)
    (\<lambda>resp w'. \<exists>y. resp = transaction_response_of y \<and>
       committed V R a b amount currency key description y w w' \<and>
       locked V w' = {} \<and> \<not> dirty V w' \<and> holds V a w' \<and> holds V b w')
    (\<lambda>e w'. refused V R amount w e w' \<or>
       db_error e \<and> e \<noteq> Library IntegrityError \<and> (\<exists>y. committed V R a b amount currency key description y w w')) w"
proof -
  have R: "rely_ok R" using law by (rule lawful_rely)
  note attrs = wp_wallet_attrs [OF law]
  show ?thesis
    unfolding execute_transfer_def
  proof (subst wp_bind, rule wp_mono [OF wp_lock_wallets [OF law ok]], goal_cases)
    case (1 p w1)
    then have p: "p = (a, b)" and u: "unchanged V R w w1" and lk: "locked_both V a b w1" by simp_all
    then have ok1: "snapshots_ok V w1" and v1: "R {} (view V w) (view V w1)"
      and d1: "R {} (durable V w) (durable V w1)" by (simp_all add: unchanged_def)
    have after: "committed V R a b amount currency key description y w1 w' \<Longrightarrow>
        committed V R a b amount currency key description y w w'" for y w'
      using committed_after [OF R v1 d1 _ rely_refl [OF R]] .
    show ?case
      unfolding p prod.case
    proof (subst wp_bind, rule wp_mono [OF wp_move_money [OF law ok1 lk ab amt]], goal_cases)
      case (1 u w2)
      then have mv: "moved V R a b amount w1 w2" by simp
      then have d2: "R {} (durable V w) (durable V w2)" and ok2: "snapshots_ok V w2"
        and la: "loaded_wallet V w2 a \<noteq> None" and lb: "loaded_wallet V w2 b \<noteq> None"
        using rely_trans [OF R d1] by (auto simp: moved_def)
      obtain xa xb where x: "loaded_wallet V w2 a = Some xa" "loaded_wallet V w2 b = Some xb"
        "w_id xa = a" "w_id xb = b"
        using la lb snapshot_row [OF ok2] by blast
      show ?case
      proof (subst wp_bind, simp only: attrs x option.case, subst wp_bind, simp only: attrs x option.case,
          subst wp_bind, rule wp_mono [OF wp_record [OF law ab amt mv]], goal_cases)
        case (1 k w3)
        then obtain y where y: "t_id y = k" and rc: "recorded V R a b amount currency key description y w1 w3"
          by blast
        show ?case
          using wp_commit_recorded [OF law rc] unfolding y
          by (rule wp_mono) (use after rely_trans [OF R d1] in \<open>auto simp: refused_def\<close>)
      next
        case (2 e w3)
        then show ?case by (intro disjI1 refused_after [OF R d1] refused_failed)
      qed
    next
      case (2 e w2)
      then show ?case using refused_after [OF R d1] by blast
    qed
  next
    case (2 e w1)
    then show ?case by (auto simp: refused_def unchanged_def failed_def)
  qed
qed

end
