(* ===== verification/Ledger.thy ===== *)
theory Ledger
  imports Money_Transfer
begin

text \<open>
  What the deployed program as a whole does to the database: every session commits transfers,
  top-ups and registrations, and nothing else. The relation \<open>others\<close> is any number of such
  commits that leave a set of locked wallets alone. It is the instance of the sessions' rely
  relation used by the properties, and the invariants of the database are proved along its steps.
\<close>

section \<open>Committed steps\<close>

inductive ledger_step :: "uuid set \<Rightarrow> tables \<Rightarrow> tables \<Rightarrow> bool" for L where
  transfer: "transfers s r a currency key description t y T \<Longrightarrow> 0 < cents a \<Longrightarrow> s \<notin> L \<Longrightarrow> r \<notin> L \<Longrightarrow>
     ledger_step L t T"
| top_up: "wallets t k = Some x \<Longrightarrow> w_id x = k \<Longrightarrow> k \<notin> L \<Longrightarrow> numeric_column b \<Longrightarrow>
     cents (w_balance x) < cents b \<Longrightarrow> ledger_step L t (put_wallet (rebalance b (w_version x + 1) ts x) t)"
| register: "users t (u_id y) = None \<Longrightarrow> \<forall>j x. users t j = Some x \<longrightarrow> u_email x \<noteq> u_email y \<Longrightarrow>
     wallets t k = None \<Longrightarrow> k \<notin> L \<Longrightarrow>
     ledger_step L t (put_wallet (wallet_row k created updated (u_id y)) (put_user y t))"

inductive_cases ledger_stepE: "ledger_step L t u"

definition others :: rely where
  "others L = (ledger_step L)\<^sup>*\<^sup>*"

lemma others_refl [simp]: "others L t t"
  by (simp add: others_def)

lemma others_trans: "others L t u \<Longrightarrow> others L u v \<Longrightarrow> others L t v"
  unfolding others_def by (rule rtranclp_trans)

lemma others_step: "ledger_step L t u \<Longrightarrow> others L t u"
  by (simp add: others_def)

lemma wallet_row_simps [simp]:
  "w_id (wallet_row k c d u) = k" "w_user_id (wallet_row k c d u) = u"
  "w_balance (wallet_row k c d u) = Dec 0 (- 2)" "w_version (wallet_row k c d u) = 1"
  by (simp_all add: wallet_row_def)

section \<open>The relation is one a session can rely on\<close>

lemma later_bump [simp]: "later x (rebalance b (w_version x + 1) ts x)"
  by (rule later_rebalance) simp

lemma ledger_step_locked:
  assumes "ledger_step L t u" and k: "k \<in> L"
  shows "wallets u k = wallets t k"
  using assms(1)
proof cases
  case (transfer s r a currency key description y)
  have "k \<noteq> s" "k \<noteq> r" using transfer k by auto
  then show ?thesis by (rule transfers_rows(2) [OF transfer(1)])
qed (use k in auto)

lemma transfers_wallet:
  assumes "transfers s r a currency key description t y T" and "wallets t k = Some x"
  shows "\<exists>z. wallets T k = Some z \<and> later x z"
  using assms unfolding transfers_def by auto

lemma ledger_step_wallet: "ledger_step L t u \<Longrightarrow> wallets t k = Some x \<Longrightarrow> \<exists>z. wallets u k = Some z \<and> later x z"
  by (erule ledger_stepE) (auto dest: transfers_wallet)

lemma ledger_step_rows: "ledger_step L t u \<Longrightarrow> txns t \<subseteq>\<^sub>m txns u \<and> users t \<subseteq>\<^sub>m users u"
  by (erule ledger_stepE) (auto simp: map_le_def transfers_rows(3,4) dest: transfers_rows(5))

lemma put_wallet_swap:
  "w_id x \<noteq> w_id y \<Longrightarrow> put_wallet x (put_wallet y t) = put_wallet y (put_wallet x t)"
  by (simp add: put_wallet_def fun_upd_twist)

lemma put_swap [simp]:
  "put_wallet x (put_txn y t) = put_txn y (put_wallet x t)"
  "put_user u (put_wallet x t) = put_wallet x (put_user u t)"
  "put_user u (put_txn y t) = put_txn y (put_user u t)"
  by (simp_all add: put_wallet_def put_txn_def put_user_def)

lemma transfers_put:
  assumes tr: "transfers s r a currency key description t y T" and x: "w_id x \<noteq> s" "w_id x \<noteq> r"
  shows "transfers s r a currency key description (put_wallet x t) y (put_wallet x T)"
proof -
  obtain z z' where "w_id z = s" "w_id z' = r" "T = put_txn y (put_wallet z' (put_wallet z t))"
    "transfers s r a currency key description (put_wallet x t) y
       (put_txn y (put_wallet z' (put_wallet z (put_wallet x t))))"
    using transfers_frame [OF tr, of "put_wallet x t"] x by auto
  with x show ?thesis by (simp add: put_wallet_swap [of x])
qed

lemma ledger_step_put:
  assumes "ledger_step L t u" and "w_id x \<in> L"
  shows "ledger_step L (put_wallet x t) (put_wallet x u)"
  using assms(1)
proof cases
  case (transfer s r a currency key description y)
  then have "w_id x \<noteq> s" "w_id x \<noteq> r" using assms(2) by auto
  from ledger_step.transfer [OF transfers_put [OF transfer(1) this] transfer(2-4)] show ?thesis .
next
  case (top_up k z b ts)
  then have "k \<noteq> w_id x" using assms(2) by blast
  then show ?thesis
    using top_up ledger_step.top_up [of "put_wallet x t" k z L b ts]
    by (simp add: put_wallet_swap [of x])
next
  case (register y k c d)
  then have "k \<noteq> w_id x" using assms(2) by blast
  then show ?thesis
    using register ledger_step.register [of "put_wallet x t" y k L c d]
    by (simp add: put_wallet_swap [of x])
qed

lemma others_put: "others L t u \<Longrightarrow> w_id x \<in> L \<Longrightarrow> others L (put_wallet x t) (put_wallet x u)"
  unfolding others_def
  by (induction rule: rtranclp_induct) (auto intro: rtranclp.rtrancl_into_rtrancl ledger_step_put)

lemma ledger_step_shrink:
  assumes "ledger_step L t u" and sub: "M \<subseteq> L"
  shows "ledger_step M t u"
  using assms(1)
proof cases
  case (transfer s r a currency key description y)
  then show ?thesis using sub by (intro ledger_step.transfer [OF transfer(1,2)]) auto
next
  case (top_up k z b ts)
  then show ?thesis using sub ledger_step.top_up [of t k z M b ts] by auto
next
  case (register y k c d)
  then show ?thesis using sub ledger_step.register [of t y k M c d] by auto
qed

lemma others_shrink: "others L t u \<Longrightarrow> M \<subseteq> L \<Longrightarrow> others M t u"
  unfolding others_def
proof (induction rule: rtranclp_induct)
  case (step u v)
  then show ?case by (meson rtranclp.rtrancl_into_rtrancl ledger_step_shrink)
qed simp

lemma others_locked: "others L t u \<Longrightarrow> k \<in> L \<Longrightarrow> wallets u k = wallets t k"
  unfolding others_def by (induction rule: rtranclp_induct) (simp_all add: ledger_step_locked)

lemma others_wallet: "others L t u \<Longrightarrow> wallets t k = Some x \<Longrightarrow> \<exists>z. wallets u k = Some z \<and> later x z"
  unfolding others_def
proof (induction rule: rtranclp_induct)
  case (step u v)
  then show ?case by (meson ledger_step_wallet later_trans)
qed simp

lemma others_rows: "others L t u \<Longrightarrow> txns t \<subseteq>\<^sub>m txns u \<and> users t \<subseteq>\<^sub>m users u"
  unfolding others_def
proof (induction rule: rtranclp_induct)
  case (step u v)
  from step.IH ledger_step_rows [OF step.hyps(2)] show ?case
    by - (elim conjE, intro conjI; erule (1) map_le_trans)
qed simp

lemma rely_ok_others: "rely_ok others"
  unfolding rely_ok_def
  by (intro conjI; intro allI impI;
      (rule others_refl | erule (1) others_trans | erule (1) others_shrink | erule (1) others_locked |
       erule (1) others_wallet | erule others_rows | erule (1) others_put))

section \<open>Invariants of the database\<close>

text \<open>
  Every declared constraint holds after every step: this is what the schema and the services
  together keep, balances included.
\<close>

lemma wallet_ok_cents: "wallet_ok t k x \<Longrightarrow> cents (w_balance x) = coef (w_balance x) \<and> 0 \<le> coef (w_balance x)"
  using expo_2_cents by (simp add: wallet_ok_def numeric_column_def chk_balance_non_negative_def)

lemma valid_put_wallet:
  assumes ok: "valid_db t" and row: "wallets t (w_id x) = Some x" and z: "w_id z = w_id x" "w_user_id z = w_user_id x"
    and b: "numeric_column (w_balance z)" "0 \<le> coef (w_balance z)"
  shows "valid_db (put_wallet z t)"
proof -
  let ?T = "put_wallet z t"
  have D: "dom (wallets ?T) = dom (wallets t)" using row z by auto
  have old: "\<exists>v. wallets t k = Some v \<and> w_user_id w = w_user_id v \<and> wallet_ok ?T k w"
    if "wallets ?T k = Some w" for k w
    using that valid_db_rows(2) [OF ok row] valid_db_rows(2) [OF ok, of k] row z b
    by (auto simp: wallet_ok_def chk_balance_non_negative_def split: if_splits)
  show ?thesis
  proof (rule valid_dbI)
    show "unique_by w_user_id (wallets ?T)"
      by (rule unique_by_same [OF valid_db_unique(2) [OF ok]]) (use old in blast)
    show "wallet_ok ?T k w" if "wallets ?T k = Some w" for k w using old that by blast
    show "txn_ok ?T k y" if "txns ?T k = Some y" for k y
      using valid_db_rows(3) [OF ok, of k y] that D by (simp add: txn_ok_def)
    show "u_id u = k" if "users ?T k = Some u" for k u
      using valid_db_rows(1) [OF ok, of k u] that by simp
  qed (simp_all add: valid_db_unique [OF ok])
qed

lemma valid_register:
  assumes ok: "valid_db t" and u: "users t (u_id y) = None" "\<forall>j x. users t j = Some x \<longrightarrow> u_email x \<noteq> u_email y"
    and k: "wallets t k = None"
  shows "valid_db (put_wallet (wallet_row k c d (u_id y)) (put_user y t))"
proof -
  let ?T = "put_wallet (wallet_row k c d (u_id y)) (put_user y t)"
  have U: "users ?T = (users t)(u_id y \<mapsto> y)" and W: "wallets ?T = (wallets t)(k \<mapsto> wallet_row k c d (u_id y))"
    and X: "txns ?T = txns t" by simp_all
  have no: "w_user_id x \<noteq> u_id y" if "wallets t j = Some x" for j x
    using valid_db_rows(2) [OF ok that] u(1) by (auto simp: wallet_ok_def)
  show ?thesis
  proof (rule valid_dbI)
    show "wallet_ok ?T j x" if "wallets ?T j = Some x" for j x
      using that valid_db_rows(2) [OF ok, of j x]
      by (auto simp: wallet_ok_def chk_balance_non_negative_def numeric_column_def split: if_splits)
    show "unique_by w_user_id (wallets ?T)"
      unfolding W by (rule unique_by_insert [OF valid_db_unique(2) [OF ok]]) (use no in simp)
    show "unique_by u_email (users ?T)"
      unfolding U by (rule unique_by_insert [OF valid_db_unique(1) [OF ok] u(2)])
    show "txn_ok ?T j x" if "txns ?T j = Some x" for j x
      using valid_db_rows(3) [OF ok, of j x] that by (auto simp: txn_ok_def)
    show "u_id x = j" if "users ?T j = Some x" for j x
      using valid_db_rows(1) [OF ok, of j x] that by (auto split: if_splits)
  qed (simp add: X valid_db_unique [OF ok])
qed

lemma ledger_step_valid:
  assumes "ledger_step L t u" and ok: "valid_db t"
  shows "valid_db u"
  using assms(1)
proof cases
  case (transfer s r a currency key description y)
  then show ?thesis using transfers_valid [OF transfer(1) ok transfer(2)] by simp
next
  case (top_up k x b ts)
  have "0 \<le> coef b"
    using wallet_ok_cents [OF valid_db_rows(2) [OF ok top_up(2)]] top_up expo_2_cents [of b] by (auto simp: numeric_column_def)
  then show ?thesis
    using top_up valid_put_wallet [OF ok, of x "rebalance b (w_version x + 1) ts x"] by simp
next
  case (register y k c d)
  then show ?thesis using valid_register [OF ok register(2,3,4)] by simp
qed

lemma others_valid: "others L t u \<Longrightarrow> valid_db t \<Longrightarrow> valid_db u"
  unfolding others_def by (induction rule: rtranclp_induct) (simp_all add: ledger_step_valid)

text \<open>Money appears by top-ups only: no run of the program loses a cent.\<close>

lemma ledger_step_total:
  assumes "ledger_step L t u" and fin: "finite (dom (wallets t))"
  shows "finite (dom (wallets u)) \<and> total_cents t \<le> total_cents u"
  using assms(1)
proof cases
  case (transfer s r a currency key description y)
  have "dom (wallets u) \<subseteq> dom (wallets t)"
    using transfer(1) by (auto simp: transfers_def split: if_splits)
  then have "finite (dom (wallets u))" using fin by (rule finite_subset)
  then show ?thesis using transfers_conserve [OF transfer(1) fin] by simp
next
  case (top_up k x b ts)
  then show ?thesis
    using fin total_cents_put_wallet [OF fin, of "rebalance b (w_version x + 1) ts x" x] by simp
next
  case (register y k c d)
  have "total_cents u = total_cents t"
  proof -
    have "(\<Sum>j \<in> insert k (dom (wallets t)). cents (w_balance (the (wallets u j)))) =
        cents (Dec 0 (- 2)) + (\<Sum>j \<in> dom (wallets t). cents (w_balance (the (wallets u j))))"
      using register fin by (subst sum.insert) auto
    also have "(\<Sum>j \<in> dom (wallets t). cents (w_balance (the (wallets u j)))) = total_cents t"
      unfolding total_cents_def by (rule sum.cong) (use register in auto)
    finally show ?thesis using register by (simp add: total_cents_def)
  qed
  then show ?thesis using register fin by simp
qed

lemma others_total:
  "others L t u \<Longrightarrow> finite (dom (wallets t)) \<Longrightarrow> finite (dom (wallets u)) \<and> total_cents t \<le> total_cents u"
  unfolding others_def
proof (induction rule: rtranclp_induct)
  case (step u v)
  then show ?case using ledger_step_total [OF step.hyps(2)] by auto
qed simp

section \<open>Nobody else\<close>

text \<open>The relation of a session that runs alone, for what holds between concurrent requests.\<close>

definition alone :: rely where
  "alone L t u \<longleftrightarrow> t = u"

lemma rely_ok_alone: "rely_ok alone"
  by (auto simp: rely_ok_def alone_def)

text \<open>Both keep a valid database valid.\<close>

definition keeps_valid :: "rely \<Rightarrow> bool" where
  "keeps_valid R \<longleftrightarrow> (\<forall>t u. R {} t u \<longrightarrow> valid_db t \<longrightarrow> valid_db u)"

lemma keeps_validD: "keeps_valid R \<Longrightarrow> R {} t u \<Longrightarrow> valid_db t \<Longrightarrow> valid_db u"
  by (simp add: keeps_valid_def)

lemma keeps_valid_others: "keeps_valid others"
  using others_valid by (simp add: keeps_valid_def)

lemma keeps_valid_alone: "keeps_valid alone"
  by (simp add: keeps_valid_def alone_def)

end
