(* ===== verification/Quiet.thy ===== *)
theory Quiet
  imports Money_Transfer
begin

text \<open>
  Computations that leave one of the two stores alone: the Redis side of the services does not
  touch the database session, and the database side does not touch Redis. The cached responses
  of payments stay those of recorded transactions through both.
\<close>

section \<open>Redis commands and the session\<close>

lemma db_quiet_refl: "rely_ok R \<Longrightarrow> db_quiet V R w w"
  by (simp add: db_quiet_def tx_step_def same_objects_def rely_refl)

lemma db_quiet_trans: "rely_ok R \<Longrightarrow> db_quiet V R w w1 \<Longrightarrow> db_quiet V R w1 w2 \<Longrightarrow> db_quiet V R w w2"
  unfolding db_quiet_def tx_step_def same_objects_def by (metis rely_trans)

lemma db_quietD:
  assumes "db_quiet V R w w'"
  shows "R {} (durable V w) (durable V w')" "R (locked V w) (view V w) (view V w')"
    "locked V w' = locked V w" "dirty V w' = dirty V w" "loaded_wallet V w' = loaded_wallet V w"
    "loaded_txn V w' = loaded_txn V w" "loaded_user V w' = loaded_user V w"
  using assms by (simp_all add: db_quiet_def tx_step_def same_objects_def)

lemma quiet_holds: "db_quiet V R w w' \<Longrightarrow> holds V k w' = holds V k w"
  by (simp add: holds_def db_quietD)

lemma quiet_unchanged:
  assumes R: "rely_ok R" and ok: "snapshots_ok V w" and q: "db_quiet V R w w'"
  shows "unchanged V R w w'"
proof (rule unchanged_step [OF R ok])
  show "tx_step V R (locked V w) (view V w) w w'" using q by (simp add: db_quiet_def)
qed (simp_all add: db_quietD [OF q])

lemma redis_quiet:
  assumes "redis_keeps_db rd V R"
  shows "db_quiet V R w (snd (redis_get rd k w))" "db_quiet V R w (snd (redis_setex rd k ttl v w))"
    "db_quiet V R w (snd (redis_delete rd k w))" "db_quiet V R w (snd (redis_pipeline_delete rd ks w))"
    "db_quiet V R w (snd (redis_incr rd k w))" "db_quiet V R w (snd (redis_expire rd k ttl w))"
    "db_quiet V R w (snd (redis_ping rd w))"
  using assms unfolding redis_keeps_db_def by - (elim conjE, blast)+

text \<open>The client, where there is one, is lawful and apart from the database.\<close>

definition client_ok :: "'w redis option \<Rightarrow> 'w kv \<Rightarrow> 'w absn \<Rightarrow> rely \<Rightarrow> bool" where
  "client_ok rc K V R \<longleftrightarrow>
     (case rc of None \<Rightarrow> True | Some rd \<Rightarrow> lawful_redis rd K \<and> redis_keeps_db rd V R)"

lemma client_ok_simps [simp]:
  "client_ok None K V R" "client_ok (Some rd) K V R \<longleftrightarrow> lawful_redis rd K \<and> redis_keeps_db rd V R"
  by (simp_all add: client_ok_def)

lemma wp_quiet: "db_quiet V R w (snd (m w)) \<Longrightarrow> wp m (\<lambda>_. db_quiet V R w) (\<lambda>_. db_quiet V R w) w"
  by (cases "m w") (auto simp: wp_def split: sum.splits)

lemma wp_redis_get_quiet:
  assumes "lawful_redis rd K" "redis_keeps_db rd V R"
  shows "wp (redis_get rd k) (\<lambda>v w'. db_quiet V R w w' \<and> kv_same K w w' \<and> v = fetched K w w' k)
    (\<lambda>e w'. db_quiet V R w w' \<and> kv_same K w w') w"
  by (rule wp_mono [OF wp_conj [OF redis_laws(1) [OF assms(1)] wp_quiet [OF redis_quiet(1) [OF assms(2)]]]])
    (auto simp: kv_failed_def)

section \<open>Database calls and Redis\<close>

interpretation redis_frame: py_frame "\<lambda>w w'. kv_same K w w'" for K
  by unfold_locales (simp_all add: kv_same_refl kv_same_trans)

lemmas keeps_redis_rules = redis_frame.leaves_rules

lemma keeps_redis_session:
  assumes "session_keeps_redis db K"
  shows "keeps_redis K (select_user db uc)" "keeps_redis K (select_wallet db wc fu)"
    "keeps_redis K (select_txn db tc)" "keeps_redis K (update_wallet db k ev nb nv)"
    "keeps_redis K (insert_user db un)" "keeps_redis K (insert_wallet db u)"
    "keeps_redis K (insert_txn db n)" "keeps_redis K (commit_tx db)" "keeps_redis K (rollback_tx db)"
    "keeps_redis K (refresh_user db k)" "keeps_redis K (refresh_wallet db k)" "keeps_redis K (refresh_txn db k)"
    "keeps_redis K (set_wallet_balance db k nb)"
    "keeps_redis K (count_txns db tc)" "keeps_redis K (page_txns db tc off cnt)"
  using assms by (simp_all add: session_keeps_redis_def)

lemma keeps_redis_attrs:
  assumes "law_attrs db V"
  shows "keeps_redis K (wallet_attrs db k)" "keeps_redis K (txn_attrs db k)" "keeps_redis K (user_attrs db k)"
  using assms by (auto simp: keeps_redis_def law_attrs_def kv_same_refl split: option.split)

lemma keeps_redis_execute_transfer:
  assumes "session_keeps_redis db K" and "law_attrs db V"
  shows "keeps_redis K (execute_transfer db a b amount currency key description)"
  unfolding execute_transfer_def lock_wallets_def move_money_def wallet_get_by_id_for_update_def
    wallet_update_balance_def txn_create_def Let_def
  by (intro keeps_redis_rules keeps_redis_session [OF assms(1)] keeps_redis_attrs [OF assms(2)])

lemmas wp_keeps_redis = wp_leaves [where S = "\<lambda>w w'. kv_same K w w'" for K]

section \<open>Cached responses\<close>

text \<open>
  Every idempotency entry is the stored response of a recorded transaction with that key; and the other clients of
  the server, which may store what they like under all other keys, store no other responses.
\<close>

definition stored_text :: "codec \<Rightarrow> transaction \<Rightarrow> string" where
  "stored_text cdc x = dumps (stored_response (dump_txn cdc (transaction_response_of x)) 201)"

definition published :: "codec \<Rightarrow> 'w absn \<Rightarrow> 'w \<Rightarrow> (string \<times> string) set" where
  "published cdc V w = {(k, v). \<forall>key. k = key_idempotency key \<longrightarrow>
     (\<exists>x. txns (durable V w) (t_id x) = Some x \<and> t_idempotency_key x = key \<and> v = stored_text cdc x)}"

definition clients_honest :: "codec \<Rightarrow> 'w kv \<Rightarrow> 'w absn \<Rightarrow> bool" where
  "clients_honest cdc K V \<longleftrightarrow> (\<forall>w k v. may_write K w k v \<longrightarrow> (k, v) \<in> published cdc V w)"

definition cache_sound :: "codec \<Rightarrow> 'w kv \<Rightarrow> 'w absn \<Rightarrow> 'w \<Rightarrow> bool" where
  "cache_sound cdc K V w \<longleftrightarrow> clients_honest cdc K V \<and>
     (\<forall>k v t. entries K w k = Some (v, t) \<longrightarrow> (k, v) \<in> published cdc V w)"

lemma published_other: "(\<And>key. k \<noteq> key_idempotency key) \<Longrightarrow> (k, v) \<in> published cdc V w"
  by (simp add: published_def)

lemma published_kept:
  assumes "txns (durable V w) \<subseteq>\<^sub>m txns (durable V w')" and "(k, v) \<in> published cdc V w"
  shows "(k, v) \<in> published cdc V w'"
proof -
  have "txns (durable V w') i = Some x" if "txns (durable V w) i = Some x" for i x
    using assms(1) that by (auto simp: map_le_def dom_def)
  with assms(2) show ?thesis unfolding published_def by blast
qed

lemma cache_sound_cong:
  "durable V w' = durable V w \<Longrightarrow> entries K w' = entries K w \<Longrightarrow> cache_sound cdc K V w' = cache_sound cdc K V w"
  by (simp add: cache_sound_def published_def)

lemma cache_sound_entry:
  assumes "cache_sound cdc K V w" and "entries K w (key_idempotency key) = Some (v, t)"
  shows "\<exists>x. txns (durable V w) (t_id x) = Some x \<and> t_idempotency_key x = key \<and> v = stored_text cdc x"
  using assms unfolding cache_sound_def published_def by blast

lemma exclusive_honest: "exclusive K \<Longrightarrow> clients_honest cdc K V"
  by (simp add: clients_honest_def may_write_def exclusive_def)

text \<open>
  The invariant is kept by every step whose own entries are published, whatever the other clients do
  around it.
\<close>

lemma cache_sound_kept:
  assumes cs: "cache_sound cdc K V w" and rows: "rows_kept V w w'" and step: "kv_step K m w w'"
    and own: "\<And>k v t. m (clock K w') k = Some (v, t) \<Longrightarrow> (\<exists>t'. entries K w k = Some (v, t')) \<or> (k, v) \<in> published cdc V w"
  shows "cache_sound cdc K V w'"
  unfolding cache_sound_def
proof (intro conjI allI impI)
  show honest: "clients_honest cdc K V" using cs by (simp add: cache_sound_def)
  fix k v t
  assume "entries K w' k = Some (v, t)"
  with step show "(k, v) \<in> published cdc V w'"
  proof (rule kv_step_entry)
    fix t'
    assume "m (clock K w') k = Some (v, t')"
    then have "(k, v) \<in> published cdc V w" using own cs unfolding cache_sound_def by blast
    then show ?thesis by (rule published_kept [rotated]) (use rows in \<open>simp add: rows_kept_def\<close>)
  next
    assume "may_write K w' k v"
    then show ?thesis using honest by (simp add: clients_honest_def)
  qed
qed

lemma cache_sound_step:
  assumes "cache_sound cdc K V w" "rows_kept V w w'" "kv_same K w w'"
  shows "cache_sound cdc K V w'"
  by (rule cache_sound_kept [OF assms]) blast

lemma cache_sound_set:
  assumes R: "rely_ok R" and cs: "cache_sound cdc K V w" and d: "R {} (durable V w) (durable V w')"
    and x: "txns (durable V w) (t_id x) = Some x"
    and set: "kv_step K (set_key (key_idempotency (t_idempotency_key x)) ttl (stored_text cdc x) (entries K w)) w w'"
  shows "cache_sound cdc K V w'"
  by (rule cache_sound_kept [OF cs rows_kept_rely [OF R d] set])
    (use x in \<open>auto simp: set_key_def published_def split: if_splits\<close>)

lemma cache_sound_del:
  assumes R: "rely_ok R" and cs: "cache_sound cdc K V w" and d: "R {} (durable V w) (durable V w')"
    and del: "kv_step K (\<lambda>_. del_keys ks (entries K w)) w w'"
  shows "cache_sound cdc K V w'"
  by (rule cache_sound_kept [OF cs rows_kept_rely [OF R d] del]) (auto simp: del_keys_def split: if_splits)

lemma loads_stored_text:
  "lawful_codec cdc \<Longrightarrow>
   loads (stored_text cdc x) = Some (stored_response (dump_txn cdc (transaction_response_of x)) 201)"
  unfolding stored_text_def by (rule loads_dumps) (simp add: stored_response_plain lawful_codec_def)

text \<open>What a lookup of the key can find.\<close>

lemma wp_check_key:
  assumes cl: "client_ok rc K V R" and R: "rely_ok R" and cdc: "lawful_codec cdc" and cs: "cache_sound cdc K V w"
  shows "wp (check_key key rc)
    (\<lambda>r w'. db_quiet V R w w' \<and> kv_same K w w' \<and>
       (r = None \<or> (\<exists>x. r = Some (stored_response (dump_txn cdc (transaction_response_of x)) 201) \<and>
          txns (durable V w') (t_id x) = Some x \<and> t_idempotency_key x = key)))
    (\<lambda>_ _. False) w"
proof (cases "key = [] \<or> rc = None")
  case True
  then show ?thesis
    by (auto simp: check_key_def wp_simps db_quiet_refl [OF R] kv_same_refl split: option.split)
next
  case False
  then obtain rd where rc: "rc = Some rd" "key \<noteq> []" by auto
  with cl have rd: "lawful_redis rd K" "redis_keeps_db rd V R" by simp_all
  have found: "\<exists>x. loads s = Some (stored_response (dump_txn cdc (transaction_response_of x)) 201) \<and>
      txns (durable V w') (t_id x) = Some x \<and> t_idempotency_key x = key"
    if q: "db_quiet V R w w'" and s: "fetched K w w' (key_idempotency key) = Some s" for w' s
  proof -
    obtain t where "entries K w (key_idempotency key) = Some (s, t)" using fetched_entry [OF s] by blast
    from cache_sound_entry [OF cs this] show ?thesis
      using loads_stored_text [OF cdc] rely_txns [OF R db_quietD(1) [OF q]] by metis
  qed
  show ?thesis
    using rc unfolding check_key_def key_idempotency_def [symmetric]
    by (simp add: wp_simps, intro wp_mono [OF wp_redis_get_quiet [OF rd, of "key_idempotency key" w]])
      (auto simp: wp_simps split: option.splits if_splits, use found in fastforce)
qed

section \<open>A server with other clients\<close>

text \<open>
  A server that is lawful with us as its only client is lawful, too, where others may store what is published; and
  those are honest.
\<close>

definition among_clients :: "codec \<Rightarrow> 'w absn \<Rightarrow> 'w kv \<Rightarrow> 'w kv" where
  "among_clients cdc V K = K\<lparr>writers := Some (published cdc V)\<rparr>"

lemma among_clients_simps [simp]:
  "entries (among_clients cdc V K) = entries K" "clock (among_clients cdc V K) = clock K"
  "fetched (among_clients cdc V K) = fetched K"
  by (simp_all add: among_clients_def fetched_def fun_eq_iff)

lemma among_clients_honest: "clients_honest cdc (among_clients cdc V K) V"
  by (simp add: clients_honest_def may_write_def among_clients_def)

lemma among_clients_step:
  assumes "exclusive K" and "txns (durable V w) \<subseteq>\<^sub>m txns (durable V w')" and "kv_step K m w w'"
  shows "kv_step (among_clients cdc V K) m w w'"
  unfolding among_clients_def
  by (rule kv_step_shared [OF assms(1,3)]) (use published_kept [OF assms(2)] in auto)

lemma among_clients_lawful:
  assumes ex: "exclusive K" and law: "lawful_redis rd K" and apart: "redis_keeps_db rd V R" and R: "rely_ok R"
  shows "lawful_redis rd (among_clients cdc V K)"
proof -
  have step: "kv_step (among_clients cdc V K) m w w'" if "db_quiet V R w w'" "kv_step K m w w'" for m w w'
    using rely_rows [OF R db_quietD(1) [OF that(1)]] by (intro among_clients_step [OF ex _ that(2)]) blast
  note L = wp_conj [OF redis_laws(1) [OF law] wp_quiet [OF redis_quiet(1) [OF apart]]]
    wp_conj [OF redis_laws(2) [OF law] wp_quiet [OF redis_quiet(2) [OF apart]]]
    wp_conj [OF redis_laws(3) [OF law] wp_quiet [OF redis_quiet(3) [OF apart]]]
    wp_conj [OF redis_laws(4) [OF law] wp_quiet [OF redis_quiet(4) [OF apart]]]
    wp_conj [OF redis_laws(5) [OF law] wp_quiet [OF redis_quiet(5) [OF apart]]]
    wp_conj [OF redis_laws(6) [OF law] wp_quiet [OF redis_quiet(6) [OF apart]]]
    wp_conj [OF redis_laws(7) [OF law] wp_quiet [OF redis_quiet(7) [OF apart]]]
  show ?thesis
    unfolding lawful_redis_def among_clients_simps
    by (intro conjI allI; rule wp_mono, rule L) (auto simp: kv_failed_def intro: step)
qed

end
