(* ===== verification/Payment_Safety.thy ===== *)
theory Payment_Safety
  imports Quiet
begin

text \<open>
  The payment service as a whole: whatever other sessions commit, whatever the two stores refuse,
  \<open>send_money\<close> makes one transfer durable or none, and answers a key it has seen with the recorded
  transaction.
\<close>

section \<open>After the commit\<close>

lemma committed_row:
  assumes "rely_ok R" and "committed V R a b amount currency key description y w w'"
  shows "txns (durable V w') (t_id y) = Some y" and "t_idempotency_key y = key"
proof -
  obtain t T where tr: "transfers a b amount currency key description t y T" and T: "R {} T (durable V w')"
    using assms(2) unfolding committed_def by blast
  show "txns (durable V w') (t_id y) = Some y"
    by (rule rely_txns [OF assms(1) T]) (simp add: transfers_rows(3) [OF tr])
  show "t_idempotency_key y = key" using tr by (auto simp: transfers_def)
qed

lemma wp_store_response:
  assumes R: "rely_ok R" and cl: "client_ok rc K V R" and cs: "cache_sound cdc K V w"
    and y: "txns (durable V w) (t_id y) = Some y"
  shows "wp (store_key (t_idempotency_key y) (dump_txn cdc (transaction_response_of y)) 201 rc)
    (\<lambda>_ w'. db_quiet V R w w' \<and> cache_sound cdc K V w') (\<lambda>_ _. False) w"
proof (cases rc)
  case None
  then show ?thesis using cs by (simp add: wp_simps db_quiet_refl [OF R])
next
  case (Some rd)
  with cl have rd: "lawful_redis rd K" "redis_keeps_db rd V R" by simp_all
  note set = cache_sound_set [OF R cs _ y] and same = cache_sound_step [OF cs rows_kept_rely [OF R]]
  show ?thesis
    unfolding store_key_def Let_def Some option.case key_idempotency_def [symmetric]
      stored_text_def [symmetric] wp_simps
    by (rule wp_mono [OF wp_conj [OF redis_laws(2) [OF rd(1)] wp_quiet [OF redis_quiet(2) [OF rd(2)]]]])
      (auto simp: kv_failed_def intro: set same db_quietD(1))
qed

text \<open>
  Where there is a Redis client, and no other one beside it, the server has forgotten the cached balance of a wallet.
\<close>

definition dropped :: "'w kv \<Rightarrow> 'w redis option \<Rightarrow> uuid \<Rightarrow> 'w \<Rightarrow> bool" where
  "dropped K rc k w \<longleftrightarrow> (rc \<noteq> None \<longrightarrow> exclusive K \<longrightarrow> entries K w (key_balance k) = None)"

lemma wp_post_commit:
  assumes law: "lawful_session db V R" and cl: "client_ok rc K V R" and cs: "cache_sound cdc K V w"
    and y: "txns (durable V w) (t_id y) = Some y" "t_idempotency_key y = key"
    and h: "holds V a w" "holds V b w"
  shows "wp (post_commit cdc db a b key rc (transaction_response_of y))
    (\<lambda>_ w'. db_quiet V R w w' \<and> cache_sound cdc K V w' \<and> dropped K rc a w' \<and> dropped K rc b w')
    (\<lambda>e w'. e = Library RedisError \<and> db_quiet V R w w' \<and> cache_sound cdc K V w') w"
proof (cases rc)
  case None
  then show ?thesis using cs lawful_rely [OF law] by (simp add: post_commit_def wp_simps db_quiet_refl dropped_def)
next
  case (Some rd)
  have R: "rely_ok R" using law by (rule lawful_rely)
  from Some cl have rd: "lawful_redis rd K" "redis_keeps_db rd V R" by simp_all
  show ?thesis
    unfolding post_commit_def Let_def Some option.case wp_bind y(2) [symmetric]
  proof (rule wp_mono [OF wp_store_response [OF R, of "Some rd" K V cdc w y]], goal_cases)
    case (4 u w1)
    then have q: "db_quiet V R w w1" and cs1: "cache_sound cdc K V w1" by simp_all
    obtain xa xb where x: "loaded_wallet V w1 a = Some xa" "loaded_wallet V w1 b = Some xb"
        "w_id xa = a" "w_id xb = b"
      using h by (auto simp: holds_def db_quietD(5) [OF q])
    have after: "db_quiet V R w w' \<and> cache_sound cdc K V w'"
      if q': "db_quiet V R w1 w'" and s: "kv_same K w1 w' \<or> kv_step K (\<lambda>_. del_keys ks (entries K w1)) w1 w'" for w' ks
      using db_quiet_trans [OF R q q'] s cache_sound_step [OF cs1 rows_kept_rely [OF R db_quietD(1) [OF q']]]
        cache_sound_del [OF R cs1 db_quietD(1) [OF q']] by blast
    show ?case
      unfolding wp_wallet_attrs [OF law] x option.case key_balance_def [symmetric]
    proof (rule wp_mono [OF wp_conj [OF redis_laws(4) [OF rd(1)] wp_quiet [OF redis_quiet(4) [OF rd(2)]]]], goal_cases)
      case (1 u w2)
      then have "dropped K (Some rd) a w2 \<and> dropped K (Some rd) b w2"
        by (auto simp: dropped_def kv_step_exclusive del_keys_def)
      with 1 after show ?case by blast
    next
      case (2 e w2)
      then show ?case by (auto simp: kv_failed_def dest: after)
    qed
  qed (use rd cs y in simp_all)
qed

section \<open>An attempt and its handlers\<close>

text \<open>Errors after which the transfer may nevertheless be in the database.\<close>

definition lost_answer :: "exn \<Rightarrow> bool" where
  "lost_answer e \<longleftrightarrow> e \<in> {Library RedisError, Library DatabaseError, Library MissingGreenlet}"

text \<open>The transfer a request asks for, between two wallets, recorded as \<open>y\<close>.\<close>

definition paid ::
  "'w absn \<Rightarrow> rely \<Rightarrow> uuid \<Rightarrow> uuid \<Rightarrow> payment_request \<Rightarrow> transaction \<Rightarrow> 'w \<Rightarrow> 'w \<Rightarrow> bool" where
  "paid V R a b req y w w' \<longleftrightarrow>
     committed V R a b (pr_amount req) (pr_currency req) (pr_idempotency_key req) (pr_description req) y w w'"

text \<open>The two ways a payment can end.\<close>

definition answered ::
  "codec \<Rightarrow> 'w kv \<Rightarrow> 'w absn \<Rightarrow> rely \<Rightarrow> 'w redis option \<Rightarrow> uuid \<Rightarrow> uuid \<Rightarrow> payment_request \<Rightarrow> 'w \<Rightarrow>
   transaction_response \<Rightarrow> 'w \<Rightarrow> bool" where
  "answered cdc K V R rc a b req w resp w' \<longleftrightarrow> cache_sound cdc K V w' \<and>
     (\<exists>y. resp = transaction_response_of y \<and> txns (durable V w') (t_id y) = Some y \<and>
        t_idempotency_key y = pr_idempotency_key req \<and>
        (R {} (durable V w) (durable V w') \<or>
         paid V R a b req y w w' \<and> dropped K rc a w' \<and> dropped K rc b w'))"

definition not_answered ::
  "codec \<Rightarrow> 'w kv \<Rightarrow> 'w absn \<Rightarrow> rely \<Rightarrow> uuid \<Rightarrow> uuid \<Rightarrow> payment_request \<Rightarrow> 'w \<Rightarrow>
   exn \<Rightarrow> 'w \<Rightarrow> bool" where
  "not_answered cdc K V R a b req w e w' \<longleftrightarrow> cache_sound cdc K V w' \<and>
     (refused V R (pr_amount req) w e w' \<or> lost_answer e \<and> (\<exists>y. paid V R a b req y w w'))"

lemma db_error_lost: "db_error e \<Longrightarrow> e \<noteq> Library IntegrityError \<Longrightarrow> lost_answer e"
  by (auto simp: db_error_def lost_answer_def)

lemma wp_attempt:
  assumes law: "lawful_session db V R" and cl: "client_ok rc K V R" and keep: "session_keeps_redis db K"
    and ok: "snapshots_ok V w" and cs: "cache_sound cdc K V w"
    and ab: "a \<noteq> b" and h: "holds V a w" "holds V b w" and amt: "whole_cents (pr_amount req)"
  shows "wp (attempt_payment cdc db a b req rc)
    (\<lambda>resp w'. \<exists>y. resp = transaction_response_of y \<and> paid V R a b req y w w' \<and> cache_sound cdc K V w' \<and>
       dropped K rc a w' \<and> dropped K rc b w')
    (not_answered cdc K V R a b req w) w"
proof -
  have R: "rely_ok R" using law by (rule lawful_rely)
  note kept = keeps_redis_execute_transfer [OF keep lawful_laws(11) [OF law]]
  obtain xa xb where x: "loaded_wallet V w a = Some xa" "w_id xa = a" "loaded_wallet V w b = Some xb" "w_id xb = b"
    using h by (auto simp: holds_def)
  have sound: "cache_sound cdc K V w'" if "kv_same K w w'" "rows_kept V w w'" for w'
    using cache_sound_step [OF cs that(2,1)] .
  have paid_rows: "rows_kept V w w'" if "paid V R a b req y w w'" for y w'
    using that by (simp add: paid_def committed_def)
  show ?thesis
    unfolding attempt_payment_def
  proof (simp only: wp_bind wp_wallet_attrs [OF law] x option.case,
      rule wp_mono [OF wp_keeps_redis [OF kept wp_execute_transfer [OF law ok ab amt]]], goal_cases)
    case (1 resp w1)
    then obtain y where y: "resp = transaction_response_of y" "paid V R a b req y w w1"
      and same: "kv_same K w w1" and h1: "holds V a w1" "holds V b w1"
      by (auto simp: paid_def)
    have cs1: "cache_sound cdc K V w1" using sound [OF same paid_rows [OF y(2)]] .
    note row = committed_row [OF R y(2) [unfolded paid_def]]
    have later_paid: "paid V R a b req y w w'" if "db_quiet V R w1 w'" for w'
      unfolding paid_def
      by (rule committed_after [OF R rely_refl [OF R] rely_refl [OF R] y(2) [unfolded paid_def] db_quietD(1) [OF that]])
    show ?case
      unfolding y(1) wp_bind
      by (rule wp_mono [OF wp_post_commit [OF law cl cs1 row h1]])
        (auto simp: wp_simps not_answered_def lost_answer_def dest: later_paid)
  next
    case (2 e w1)
    then have same: "kv_same K w w1"
      and out: "refused V R (pr_amount req) w e w1 \<or>
        db_error e \<and> e \<noteq> Library IntegrityError \<and> (\<exists>y. paid V R a b req y w w1)"
      by (auto simp: paid_def)
    then have "rows_kept V w w1"
      using paid_rows rows_kept_rely [OF R] by (auto simp: refused_def)
    then show ?case
      using sound [OF same] out db_error_lost unfolding not_answered_def by blast
  qed
qed

section \<open>Rolling back\<close>

text \<open>A rollback, from any state: nothing is written and the objects are expired.\<close>

lemma wp_rollback:
  assumes law: "lawful_session db V R" and keep: "session_keeps_redis db K"
  shows "wp (rollback_tx db)
    (\<lambda>_ w'. fresh_session V w' \<and> R {} (durable V w) (durable V w') \<and> kv_same K w w')
    (\<lambda>e w'. db_error e \<and> e \<noteq> Library IntegrityError \<and> R {} (durable V w) (durable V w') \<and>
       kv_same K w w') w"
proof -
  note L = lawful_laws(9) [OF law, unfolded law_rollback_def, rule_format, of w]
  show ?thesis
    by (rule wp_mono [OF wp_keeps_redis [OF keeps_redis_session(9) [OF keep] L]])
      (auto simp: fresh_session_def failed_def)
qed

text \<open>
  After a rollback the two wallet objects are expired, so every further attempt of the loop ends at
  its first attribute access: no retry ever succeeds.
\<close>

definition gives_up :: "codec \<Rightarrow> 'w kv \<Rightarrow> 'w absn \<Rightarrow> rely \<Rightarrow> 'w \<Rightarrow> exn \<Rightarrow> 'w \<Rightarrow> bool" where
  "gives_up cdc K V R w e w' \<longleftrightarrow> (db_error e \<or> e = Domain OptimisticLockException) \<and>
     R {} (durable V w) (durable V w') \<and> cache_sound cdc K V w'"

lemma wp_expired_loop:
  assumes law: "lawful_session db V R" and keep: "session_keeps_redis db K"
    and fresh: "fresh_session V w" and cs: "cache_sound cdc K V w"
  shows "wp (payment_loop cdc db a b req rc ns (Some (Domain OptimisticLockException)))
    (\<lambda>_ _. False) (gives_up cdc K V R w) w"
proof (cases ns)
  case Nil
  then show ?thesis
    using cs rely_refl [OF lawful_rely [OF law]] by (simp add: wp_simps gives_up_def)
next
  case (Cons n rest)
  have none: "loaded_wallet V w a = None" using fresh by (simp add: fresh_session_def)
  have "wp (py_bind (rollback_tx db) (\<lambda>_. py_raise (Library MissingGreenlet))) (\<lambda>_ _. False) (gives_up cdc K V R w) w"
    unfolding wp_bind wp_raise
    by (rule wp_mono [OF wp_rollback [OF law keep]])
      (auto simp: gives_up_def db_error_def rows_kept_rely [OF lawful_rely [OF law]] intro: cache_sound_step [OF cs])
  then show ?thesis
    using none by (simp add: Cons wp_catch attempt_payment_def wp_bind wp_wallet_attrs [OF law] handle_payment_error_def)
qed

section \<open>The handlers\<close>

text \<open>The row found for a key is what the caller gets.\<close>

lemma wp_existing:
  assumes law: "lawful_session db V R" and keep: "session_keeps_redis db K"
    and ok: "snapshots_ok V w" and same: "view V w = durable V w" and cs: "cache_sound cdc K V w"
  shows "wp (txn_get_by_idempotency_key db key)
    (\<lambda>r w'. unchanged V R w w' \<and> cache_sound cdc K V w' \<and>
       (case r of None \<Rightarrow> \<forall>k x. txns (durable V w) k = Some x \<longrightarrow> t_idempotency_key x \<noteq> key
        | Some k \<Rightarrow> \<exists>x. loaded_txn V w' k = Some x \<and> t_idempotency_key x = key \<and>
            t_id x = k \<and> txns (durable V w') k = Some x))
    (\<lambda>e w'. failed V R e w w' \<and> cache_sound cdc K V w') w"
proof -
  have R: "rely_ok R" using law by (rule lawful_rely)
  show ?thesis
    unfolding txn_get_by_idempotency_key_def
  proof (rule wp_mono [OF wp_keeps_redis [OF keeps_redis_session(3) [OF keep]
        wp_select_txn [OF law ok]]], goal_cases)
    case (1 r w')
    then have d: "R {} (durable V w) (durable V w')" and kv: "kv_same K w w'" and u: "unchanged V R w w'"
      by (simp_all add: unchanged_def)
    have "cache_sound cdc K V w'" by (rule cache_sound_step [OF cs rows_kept_rely [OF R d] kv])
    with 1 u same rely_txns [OF R d] show ?case by (auto split: option.splits)
  next
    case (2 e w')
    then show ?case
      using cache_sound_step [OF cs rows_kept_rely [OF R]] by (auto simp: failed_def)
  qed
qed

lemma not_answered_refused:
  "refused V R (pr_amount req) w e w' \<Longrightarrow> cache_sound cdc K V w' \<Longrightarrow> not_answered cdc K V R a b req w e w'"
  by (simp add: not_answered_def)

lemma wp_handle_integrity:
  assumes law: "lawful_session db V R" and keep: "session_keeps_redis db K"
    and cs: "cache_sound cdc K V w1" and d: "R {} (durable V w) (durable V w1)"
  shows "wp (handle_payment_error db req n continue (Library IntegrityError))
    (answered cdc K V R rc a b req w) (not_answered cdc K V R a b req w) w1"
proof -
  have R: "rely_ok R" using law by (rule lawful_rely)
  show ?thesis
    unfolding handle_payment_error_def exn.case library_exn.case wp_bind
  proof (rule wp_mono [OF wp_rollback [OF law keep]], goal_cases)
    case (1 u w2)
    then have f2: "snapshots_ok V w2" "view V w2 = durable V w2" and cs2: "cache_sound cdc K V w2"
      and d2: "R {} (durable V w) (durable V w2)"
      using cache_sound_step [OF cs rows_kept_rely [OF R]] rely_trans [OF R d]
      by (auto simp: snapshots_ok_fresh fresh_session_def [of V w2])
    show ?case
    proof (rule wp_mono [OF wp_existing [OF law keep f2 cs2]], goal_cases)
      case (1 r w3)
      then have d3: "R {} (durable V w) (durable V w3)" and cs3: "cache_sound cdc K V w3"
        using rely_trans [OF R d2] by (auto simp: unchanged_def)
      then show ?case
        using 1 by (auto simp: wp_simps wp_txn_attrs [OF law] answered_def not_answered_def refused_def split: option.splits)
    next
      case (2 e w3)
      then show ?case
        using rely_trans [OF R d2] by (auto simp: failed_def not_answered_def refused_def)
    qed
  next
    case (2 e w2)
    then show ?case
      using cache_sound_step [OF cs rows_kept_rely [OF R]] rely_trans [OF R d]
      by (auto simp: not_answered_def refused_def)
  qed
qed

lemma not_answered_sound: "not_answered cdc K V R a b req w e w' \<Longrightarrow> cache_sound cdc K V w'"
  by (simp add: not_answered_def)

lemma not_answered_step:
  assumes R: "rely_ok R" and out: "not_answered cdc K V R a b req w e w1"
    and d: "R {} (durable V w1) (durable V w2)" and kv: "kv_same K w1 w2"
  shows "not_answered cdc K V R a b req w e w2"
proof -
  have cs: "cache_sound cdc K V w2"
    by (rule cache_sound_step [OF not_answered_sound [OF out] rows_kept_rely [OF R d] kv])
  have "paid V R a b req y w w2" if "paid V R a b req y w w1" for y
    using that unfolding paid_def by (rule committed_after [OF R rely_refl [OF R] rely_refl [OF R] _ d])
  with cs out rely_trans [OF R _ d] show ?thesis
    unfolding not_answered_def refused_def by blast
qed

lemma db_error_not_answered:
  assumes "not_answered cdc K V R a b req w e w1" and "db_error e'" "e' \<noteq> Library IntegrityError"
  shows "not_answered cdc K V R a b req w e' w1"
  using assms db_error_lost unfolding not_answered_def refused_def by blast

lemma wp_handle_conflict:
  assumes law: "lawful_session db V R" and keep: "session_keeps_redis db K"
    and cs: "cache_sound cdc K V w1" and d: "R {} (durable V w) (durable V w1)"
  shows "wp (handle_payment_error db req n
        (payment_loop cdc db a b req rc ns (Some (Domain OptimisticLockException))) (Domain OptimisticLockException))
    (\<lambda>_ _. False) (gives_up cdc K V R w) w1"
proof -
  have R: "rely_ok R" using law by (rule lawful_rely)
  show ?thesis
    unfolding handle_payment_error_def exn.case domain_exn.case wp_bind
  proof (rule wp_mono [OF wp_rollback [OF law keep]], goal_cases)
    case (1 u w2)
    then have f2: "fresh_session V w2" and cs2: "cache_sound cdc K V w2" and d2: "R {} (durable V w) (durable V w2)"
      using cache_sound_step [OF cs rows_kept_rely [OF R]] rely_trans [OF R d] by auto
    show ?case
    proof (cases "n = MAX_RETRY_ATTEMPTS")
      case True
      with cs2 d2 show ?thesis by (simp add: wp_simps gives_up_def)
    next
      case False
      then show ?thesis
        by (simp, intro wp_mono [OF wp_expired_loop [OF law keep f2 cs2]])
          (use rely_trans [OF R d2] in \<open>auto simp: gives_up_def\<close>)
    qed
  next
    case (2 e w2)
    then show ?case
      using cache_sound_step [OF cs rows_kept_rely [OF R]] rely_trans [OF R d] by (auto simp: gives_up_def)
  qed
qed

lemma gives_up_not_answered: "gives_up cdc K V R w e w' \<Longrightarrow> not_answered cdc K V R a b req w e w'"
  by (auto simp: gives_up_def not_answered_def refused_def)

text \<open>Any other exception is raised again after the rollback.\<close>

lemma handle_other:
  assumes "e \<noteq> Library IntegrityError" and "e \<noteq> Domain OptimisticLockException"
  shows "handle_payment_error db req n continue e = py_bind (rollback_tx db) (\<lambda>_. py_raise e)"
proof (cases e)
  case (Domain d)
  with assms show ?thesis by (cases d) (simp_all add: handle_payment_error_def)
next
  case (Library l)
  with assms show ?thesis by (cases l) (simp_all add: handle_payment_error_def)
qed (simp_all add: handle_payment_error_def)

lemma wp_handle_other:
  assumes law: "lawful_session db V R" and keep: "session_keeps_redis db K"
    and out: "not_answered cdc K V R a b req w e w1"
    and e: "e \<noteq> Library IntegrityError" "e \<noteq> Domain OptimisticLockException"
  shows "wp (handle_payment_error db req n continue e) (\<lambda>_ _. False) (not_answered cdc K V R a b req w) w1"
proof -
  have R: "rely_ok R" using law by (rule lawful_rely)
  show ?thesis
    unfolding handle_other [OF e] wp_bind wp_raise
    by (rule wp_mono [OF wp_rollback [OF law keep]])
      (blast intro: not_answered_step [OF R out] db_error_not_answered [OF not_answered_step [OF R out]])+
qed

text \<open>The whole loop: the first attempt decides.\<close>

lemma wp_payment_loop:
  assumes law: "lawful_session db V R" and cl: "client_ok rc K V R" and keep: "session_keeps_redis db K"
    and ok: "snapshots_ok V w" and cs: "cache_sound cdc K V w"
    and ab: "a \<noteq> b" and h: "holds V a w" "holds V b w" and amt: "whole_cents (pr_amount req)"
  shows "wp (payment_loop cdc db a b req rc (n # ns) le)
    (answered cdc K V R rc a b req w) (not_answered cdc K V R a b req w) w"
proof -
  have R: "rely_ok R" using law by (rule lawful_rely)
  show ?thesis
    unfolding payment_loop.simps wp_catch
  proof (rule wp_mono [OF wp_attempt [OF law cl keep ok cs ab h amt]], goal_cases)
    case (1 resp w1)
    then obtain y where y: "resp = transaction_response_of y" "paid V R a b req y w w1" "cache_sound cdc K V w1"
        "dropped K rc a w1" "dropped K rc b w1"
      by blast
    with committed_row [OF R y(2) [unfolded paid_def]] show ?case
      unfolding answered_def by blast
  next
    case (2 e w1)
    note out = 2(2)
    have d: "R {} (durable V w) (durable V w1)" if "e = Library IntegrityError \<or> e = Domain OptimisticLockException"
      using out that by (auto simp: not_answered_def refused_def lost_answer_def)
    note cs1 = not_answered_sound [OF out]
    consider "e = Library IntegrityError" | "e = Domain OptimisticLockException"
      | "e \<noteq> Library IntegrityError" "e \<noteq> Domain OptimisticLockException" by blast
    then show ?case
    proof cases
      case 1
      then show ?thesis using wp_handle_integrity [OF law keep cs1 d] by simp
    next
      case 2
      then have "R {} (durable V w) (durable V w1)" using d by simp
      then show ?thesis
        unfolding 2
        by (rule wp_mono [OF wp_handle_conflict [OF law keep cs1]]) (simp_all add: gives_up_not_answered)
    next
      case 3
      show ?thesis by (rule wp_mono [OF wp_handle_other [OF law keep out 3]]) simp_all
    qed
  qed
qed

section \<open>Sending money\<close>

definition wallet_of :: "tables \<Rightarrow> uuid \<Rightarrow> uuid \<Rightarrow> bool" where
  "wallet_of t user k \<longleftrightarrow> (\<exists>x. wallets t k = Some x \<and> w_id x = k \<and> w_user_id x = user)"

lemma wallet_of_rely: "rely_ok R \<Longrightarrow> R L t u \<Longrightarrow> wallet_of t user k \<Longrightarrow> wallet_of u user k"
  unfolding wallet_of_def using rely_later laterD by metis

text \<open>
  The transfer between the wallets of two users, made at one moment of the others' history.
\<close>

definition transferred ::
  "'w absn \<Rightarrow> rely \<Rightarrow> uuid \<Rightarrow> payment_request \<Rightarrow> transaction \<Rightarrow> 'w \<Rightarrow> 'w \<Rightarrow> bool" where
  "transferred V R user req y w w' \<longleftrightarrow>
     (\<exists>t T a b. R {} (durable V w) t \<and> wallet_of t user a \<and> wallet_of t (pr_receiver_id req) b \<and>
        transfers a b (pr_amount req) (pr_currency req) (pr_idempotency_key req) (pr_description req) t y T \<and>
        R {} T (durable V w'))"

text \<open>The same, with both cached balances gone.\<close>

definition settled ::
  "'w kv \<Rightarrow> 'w redis option \<Rightarrow> 'w absn \<Rightarrow> rely \<Rightarrow> uuid \<Rightarrow> payment_request \<Rightarrow> transaction \<Rightarrow> 'w \<Rightarrow> 'w \<Rightarrow> bool" where
  "settled K rc V R user req y w w' \<longleftrightarrow>
     (\<exists>t T a b. R {} (durable V w) t \<and> wallet_of t user a \<and> wallet_of t (pr_receiver_id req) b \<and>
        transfers a b (pr_amount req) (pr_currency req) (pr_idempotency_key req) (pr_description req) t y T \<and>
        R {} T (durable V w') \<and> dropped K rc a w' \<and> dropped K rc b w')"

lemma settled_transferred: "settled K rc V R user req y w w' \<Longrightarrow> transferred V R user req y w w'"
  unfolding settled_def transferred_def by blast

definition send_answered ::
  "codec \<Rightarrow> 'w kv \<Rightarrow> 'w absn \<Rightarrow> rely \<Rightarrow> 'w redis option \<Rightarrow> uuid \<Rightarrow> payment_request \<Rightarrow> 'w \<Rightarrow> transaction_response \<Rightarrow> 'w \<Rightarrow> bool" where
  "send_answered cdc K V R rc user req w resp w' \<longleftrightarrow> cache_sound cdc K V w' \<and>
     (\<exists>y. resp = transaction_response_of y \<and> txns (durable V w') (t_id y) = Some y \<and>
        t_idempotency_key y = pr_idempotency_key req \<and>
        (R {} (durable V w) (durable V w') \<or> settled K rc V R user req y w w'))"

definition send_failed ::
  "codec \<Rightarrow> 'w kv \<Rightarrow> 'w absn \<Rightarrow> rely \<Rightarrow> uuid \<Rightarrow> payment_request \<Rightarrow> 'w \<Rightarrow> exn \<Rightarrow> 'w \<Rightarrow> bool" where
  "send_failed cdc K V R user req w e w' \<longleftrightarrow> cache_sound cdc K V w' \<and>
     (refused V R (pr_amount req) w e w' \<or> lost_answer e \<and> (\<exists>y. transferred V R user req y w w'))"

lemma paid_transferred:
  assumes R: "rely_ok R" and same: "view V w1 = durable V w1" and d: "R {} (durable V w) (durable V w1)"
    and "wallet_of (view V w1) user a" "wallet_of (view V w1) (pr_receiver_id req) b"
    and p: "paid V R a b req y w1 w'"
  shows "transferred V R user req y w w'"
    and "dropped K rc a w' \<Longrightarrow> dropped K rc b w' \<Longrightarrow> settled K rc V R user req y w w'"
proof -
  obtain t T where t: "R {} (view V w1) t" and tr: "transfers a b (pr_amount req) (pr_currency req)
        (pr_idempotency_key req) (pr_description req) t y T" and T: "R {} T (durable V w')"
    using p unfolding paid_def committed_def by blast
  have "R {} (durable V w) t" using rely_trans [OF R d] t same by simp
  moreover have "wallet_of t user a" "wallet_of t (pr_receiver_id req) b"
    using assms(4,5) wallet_of_rely [OF R t] by blast+
  ultimately show "transferred V R user req y w w'"
    and "dropped K rc a w' \<Longrightarrow> dropped K rc b w' \<Longrightarrow> settled K rc V R user req y w w'"
    using tr T unfolding transferred_def settled_def by blast+
qed

text \<open>A lookup of a user's wallet: the object it gives, or nothing.\<close>

lemma wp_find_wallet:
  assumes law: "lawful_session db V R" and keep: "session_keeps_redis db K"
    and ok: "snapshots_ok V w" and same: "view V w = durable V w" and cs: "cache_sound cdc K V w"
  shows "wp (wallet_get_by_user_id db user)
    (\<lambda>r w'. snapshots_ok V w' \<and> view V w' = durable V w' \<and> R {} (durable V w) (durable V w') \<and>
       cache_sound cdc K V w' \<and> (\<forall>j. holds V j w \<longrightarrow> holds V j w') \<and>
       (\<forall>k. r = Some k \<longrightarrow> wallet_of (view V w') user k \<and> holds V k w'))
    (\<lambda>e w'. failed V R e w w' \<and> cache_sound cdc K V w') w"
proof -
  have R: "rely_ok R" using law by (rule lawful_rely)
  show ?thesis
    unfolding wallet_get_by_user_id_def
  proof (rule wp_mono [OF wp_keeps_redis [OF keeps_redis_session(2) [OF keep] wp_select_wallet [OF law ok]]], goal_cases)
    case (1 r w')
    then have u: "unchanged V R w w'" and kv: "kv_same K w w'" by simp_all
    then have ok': "snapshots_ok V w'" and d: "R {} (durable V w) (durable V w')" and v: "R {} (view V w) (view V w')"
      and s': "view V w' = durable V w'"
      using same by (simp_all add: unchanged_def)
    have "cache_sound cdc K V w'" by (rule cache_sound_step [OF cs rows_kept_rely [OF R d] kv])
    moreover have "wallet_of (view V w') user k \<and> holds V k w'" if "r = Some k" for k
      using 1 that wallet_of_rely [OF R v] holds_snapshot [OF ok'] by (auto simp: wallet_of_def)
    moreover have "holds V j w'" if "holds V j w" for j
      using 1 that by (auto simp: holds_def)
    ultimately show ?case using ok' d s' by blast
  next
    case (2 e w')
    then show ?case
      using cache_sound_step [OF cs rows_kept_rely [OF R]] by (auto simp: failed_def)
  qed
qed

lemma send_failed_refused:
  assumes "rely_ok R" "R {} (durable V w) (durable V w1)" "refused V R (pr_amount req) w1 e w'"
    and "cache_sound cdc K V w'"
  shows "send_failed cdc K V R user req w e w'"
  using refused_after [OF assms(1-3)] assms(4) by (simp add: send_failed_def)

text \<open>From two wallets found, to the end of the loop.\<close>

lemma wp_send_between:
  assumes law: "lawful_session db V R" and cl: "client_ok rc K V R" and keep: "session_keeps_redis db K"
    and amt: "whole_cents (pr_amount req)" and d: "R {} (durable V w) (durable V w1)"
    and ok: "snapshots_ok V w1" and same: "view V w1 = durable V w1" and cs: "cache_sound cdc K V w1"
    and a: "wallet_of (view V w1) user a" "holds V a w1"
    and b: "wallet_of (view V w1) (pr_receiver_id req) b" "holds V b w1" and ab: "a \<noteq> b"
  shows "wp (payment_loop cdc db a b req rc [1..<MAX_RETRY_ATTEMPTS + 1] None)
    (send_answered cdc K V R rc user req w) (send_failed cdc K V R user req w) w1"
proof -
  have R: "rely_ok R" using law by (rule lawful_rely)
  have three: "[1..<MAX_RETRY_ATTEMPTS + 1] = [1, 2, 3]" by (simp add: MAX_RETRY_ATTEMPTS_def upt_rec)
  note paid = paid_transferred [OF R same d a(1) b(1)]
  show ?thesis
    unfolding three
  proof (rule wp_mono [OF wp_payment_loop [OF law cl keep ok cs ab a(2) b(2) amt]], goal_cases)
    case (1 resp w')
    then show ?case
      using paid rely_trans [OF R d] unfolding answered_def send_answered_def by blast
  next
    case (2 e w')
    then show ?case
      using paid refused_after [OF R d] unfolding not_answered_def send_failed_def by blast
  qed
qed

text \<open>From the sender's wallet on: the receiver's wallet, the check that they differ, the loop.\<close>

lemma wp_send_receiver:
  assumes law: "lawful_session db V R" and cl: "client_ok rc K V R" and keep: "session_keeps_redis db K"
    and amt: "whole_cents (pr_amount req)" and d: "R {} (durable V w) (durable V w1)"
    and ok: "snapshots_ok V w1" and same: "view V w1 = durable V w1" and cs: "cache_sound cdc K V w1"
    and a: "wallet_of (view V w1) user a" "holds V a w1"
  shows "wp (py_bind (wallet_get_by_user_id db (pr_receiver_id req)) (\<lambda>receiver_wallet.
      case receiver_wallet of
        None \<Rightarrow> raise_domain WalletNotFoundException
      | Some rw \<Rightarrow>
          py_bind (wallet_attrs db a) (\<lambda>s. py_bind (wallet_attrs db rw) (\<lambda>r.
            if w_id s = w_id r then raise_domain SelfTransferException
            else payment_loop cdc db a rw req rc [1..<MAX_RETRY_ATTEMPTS + 1] None))))
    (send_answered cdc K V R rc user req w) (send_failed cdc K V R user req w) w1"
proof (subst wp_bind, rule wp_mono [OF wp_find_wallet [OF law keep ok same cs]], goal_cases)
  case (1 rw w2)
  note s2 = 1(2)
  have R: "rely_ok R" using law by (rule lawful_rely)
  have d2: "R {} (durable V w) (durable V w2)" using s2 rely_trans [OF R d] by blast
  have a2: "wallet_of (view V w2) user a" "holds V a w2"
    using s2 a same wallet_of_rely [OF R, of "{}" "view V w1" "view V w2"] by auto
  have refuse: "send_failed cdc K V R user req w e w2"
    if "e = Domain WalletNotFoundException \<or> e = Domain SelfTransferException" for e
    using that d2 s2 by (auto simp: send_failed_def refused_def)
  show ?case
  proof (cases rw)
    case None
    then show ?thesis using refuse by (simp add: wp_simps)
  next
    case (Some b)
    then have b2: "wallet_of (view V w2) (pr_receiver_id req) b" "holds V b w2" using s2 by auto
    from a2(2) b2(2) obtain xa xb where x: "loaded_wallet V w2 a = Some xa" "w_id xa = a"
      "loaded_wallet V w2 b = Some xb" "w_id xb = b" by (auto simp: holds_def)
    show ?thesis
      using refuse s2 wp_send_between [OF law cl keep amt d2 _ _ _ a2 b2]
      by (simp add: Some wp_bind wp_raise wp_if wp_wallet_attrs [OF law] x)
  qed
next
  case (2 e w2)
  then show ?case
    using send_failed_refused [OF lawful_rely [OF law] d refused_failed] by blast
qed

lemma wp_send_uncached:
  assumes law: "lawful_session db V R" and cl: "client_ok rc K V R" and keep: "session_keeps_redis db K"
    and amt: "whole_cents (pr_amount req)" and d: "R {} (durable V w) (durable V w1)"
    and ok: "snapshots_ok V w1" and same: "view V w1 = durable V w1" and cs: "cache_sound cdc K V w1"
  shows "wp (send_uncached cdc db user req rc)
    (send_answered cdc K V R rc user req w) (send_failed cdc K V R user req w) w1"
proof -
  have R: "rely_ok R" using law by (rule lawful_rely)
  have dberr: "send_failed cdc K V R user req w e w'"
    if "R {} (durable V w) (durable V w2)" "failed V R e w2 w'" "cache_sound cdc K V w'" for e w2 w'
    using send_failed_refused [OF R that(1) refused_failed [OF that(2)] that(3)] .
  show ?thesis
    unfolding send_uncached_def
  proof (subst wp_bind, rule wp_mono [OF wp_existing [OF law keep ok same cs]], goal_cases)
    case (1 r w2)
    then have u: "unchanged V R w1 w2" and cs2: "cache_sound cdc K V w2" by simp_all
    then have d2: "R {} (durable V w) (durable V w2)" and ok2: "snapshots_ok V w2" and s2: "view V w2 = durable V w2"
      using rely_trans [OF R d] same by (auto simp: unchanged_def)
    show ?case
    proof (cases r)
      case (Some k)
      with 1 d2 show ?thesis
        by (auto simp: wp_simps wp_txn_attrs [OF law] send_answered_def)
    next
      case None
      show ?thesis
        unfolding None option.case
      proof (subst wp_bind, rule wp_mono [OF wp_find_wallet [OF law keep ok2 s2 cs2]], goal_cases)
        case (1 sw w3)
        note s3 = 1(2)
        then have d3: "R {} (durable V w) (durable V w3)" using rely_trans [OF R d2] by blast
        show ?case
        proof (cases sw)
          case None
          then show ?thesis using d3 s3 by (simp add: wp_simps send_failed_def refused_def)
        next
          case (Some a)
          with s3 show ?thesis
            by (simp, intro wp_send_receiver [OF law cl keep amt d3]) simp_all
        qed
      next
        case (2 e w3)
        then show ?case using dberr d2 by blast
      qed
    qed
  next
    case (2 e w2)
    then show ?case using dberr d by blast
  qed
qed

lemma wp_send_money:
  assumes law: "lawful_session db V R" and cl: "client_ok rc K V R" and keep: "session_keeps_redis db K"
    and cdc: "lawful_codec cdc" and fresh: "fresh_session V w" and cs: "cache_sound cdc K V w"
    and amt: "whole_cents (pr_amount req)"
  shows "wp (send_money cdc db user req rc)
    (send_answered cdc K V R rc user req w) (send_failed cdc K V R user req w) w"
proof -
  have R: "rely_ok R" using law by (rule lawful_rely)
  have ok: "snapshots_ok V w" and same: "view V w = durable V w"
    using fresh snapshots_ok_fresh by (simp_all add: fresh_session_def)
  show ?thesis
    unfolding send_money_def
  proof (subst wp_bind, rule wp_mono [OF wp_check_key [OF cl R cdc cs]], goal_cases)
    case (1 r w1)
    then have q: "db_quiet V R w w1" and kv: "kv_same K w w1" by simp_all
    note d = db_quietD(1) [OF q]
    have u: "unchanged V R w w1" by (rule quiet_unchanged [OF R ok q])
    then have ok1: "snapshots_ok V w1" and same1: "view V w1 = durable V w1"
      using same by (simp_all add: unchanged_def)
    have cs1: "cache_sound cdc K V w1" by (rule cache_sound_step [OF cs rows_kept_rely [OF R d] kv])
    note uncached = wp_send_uncached [OF law cl keep amt d ok1 same1 cs1]
    from 1 show ?case
      using uncached cs1 d cdc
      by (auto simp: wp_simps stored_response_def replay_cached_def lawful_codec_def send_answered_def)
  qed simp
qed

end
