(* ===== verification/Memory.thy ===== *)
theory Memory
  imports Ledger Payment_Safety
begin

text \<open>
  A database session and a Redis server held in memory: finite lists of rows with the session's
  uncommitted writes on top, and a list of keys. They satisfy every law that
  the development assumes of the two libraries, so the laws can hold together; the witnesses
  of the properties run the program on them.
\<close>

section \<open>Rows\<close>

record rows =
  r_users :: "(uuid \<times> user) list"
  r_wallets :: "(uuid \<times> wallet) list"
  r_txns :: "(uuid \<times> transaction) list"

datatype row_write = W_user user | W_wallet wallet | W_txn transaction

fun apply_write :: "row_write \<Rightarrow> rows \<Rightarrow> rows" where
  "apply_write (W_user u) r = r\<lparr>r_users := (u_id u, u) # r_users r\<rparr>"
| "apply_write (W_wallet x) r = r\<lparr>r_wallets := (w_id x, x) # r_wallets r\<rparr>"
| "apply_write (W_txn y) r = r\<lparr>r_txns := (t_id y, y) # r_txns r\<rparr>"

definition tables_of :: "rows \<Rightarrow> tables" where
  "tables_of r = \<lparr>users = map_of (r_users r), wallets = map_of (r_wallets r), txns = map_of (r_txns r)\<rparr>"

lemma tables_of_simps [simp]:
  "users (tables_of r) = map_of (r_users r)" "wallets (tables_of r) = map_of (r_wallets r)"
  "txns (tables_of r) = map_of (r_txns r)"
  "tables_of (apply_write (W_user u) r) = put_user u (tables_of r)"
  "tables_of (apply_write (W_wallet x) r) = put_wallet x (tables_of r)"
  "tables_of (apply_write (W_txn y) r) = put_txn y (tables_of r)"
  by (simp_all add: tables_of_def put_user_def put_wallet_def put_txn_def)

declare apply_write.simps [simp del]

text \<open>The rows in force that satisfy a condition, each with its key.\<close>

fun rows_where :: "('a \<Rightarrow> bool) \<Rightarrow> (uuid \<times> 'a) list \<Rightarrow> (uuid \<times> 'a) list" where
  "rows_where P [] = []"
| "rows_where P ((k, x) # al) =
     (let rest = filter (\<lambda>(j, _). j \<noteq> k) (rows_where P al) in if P x then (k, x) # rest else rest)"

lemma rows_where_set: "set (rows_where P al) = {(k, x). map_of al k = Some x \<and> P x}"
  by (induction al) (auto simp: Let_def split: if_splits)

lemma rows_where_distinct: "distinct (map fst (rows_where P al))"
  by (induction al) (auto simp: Let_def intro: distinct_map_filter)

section \<open>The session\<close>

record mem =
  m_base :: rows
  m_pend :: "row_write list"
  m_locks :: "uuid list"
  m_users :: "(uuid \<times> user) list"
  m_wallets :: "(uuid \<times> wallet) list"
  m_txns :: "(uuid \<times> transaction) list"
  m_dirty :: bool
  m_seed :: nat
  m_now :: int
  m_keys :: "(string \<times> entry) list"

definition seen :: "mem \<Rightarrow> rows" where
  "seen m = fold apply_write (m_pend m) (m_base m)"

definition mem_absn :: "mem absn" where
  "mem_absn =
     \<lparr>view = \<lambda>m. tables_of (seen m), durable = \<lambda>m. tables_of (m_base m), locked = \<lambda>m. set (m_locks m),
      loaded_user = \<lambda>m. map_of (m_users m), loaded_wallet = \<lambda>m. map_of (m_wallets m),
      loaded_txn = \<lambda>m. map_of (m_txns m), dirty = m_dirty\<rparr>"

lemma mem_absn_simps [simp]:
  "view mem_absn m = tables_of (seen m)" "durable mem_absn m = tables_of (m_base m)"
  "locked mem_absn m = set (m_locks m)" "loaded_user mem_absn m = map_of (m_users m)"
  "loaded_wallet mem_absn m = map_of (m_wallets m)" "loaded_txn mem_absn m = map_of (m_txns m)"
  "dirty mem_absn m = m_dirty m"
  by (simp_all add: mem_absn_def)

text \<open>An object already loaded keeps its attributes.\<close>

definition load_row :: "uuid \<Rightarrow> 'a \<Rightarrow> (uuid \<times> 'a) list \<Rightarrow> (uuid \<times> 'a) list" where
  "load_row k x al = (k, case map_of al k of None \<Rightarrow> x | Some y \<Rightarrow> y) # al"

definition mem_refuse :: "(mem, 'a) io" where
  "mem_refuse = py_raise (Library DatabaseError)"

fun mem_select_user :: "user_cond \<Rightarrow> (mem, uuid option) io" where
  "mem_select_user c m =
     (case rows_where (user_matches c) (r_users (seen m)) of
        [] \<Rightarrow> (Inr None, m)
      | (k, x) # _ \<Rightarrow>
          if u_id x = k then (Inr (Some k), m\<lparr>m_users := load_row k x (m_users m)\<rparr>) else mem_refuse m)"

fun mem_select_wallet :: "wallet_cond \<Rightarrow> bool \<Rightarrow> (mem, uuid option) io" where
  "mem_select_wallet c fu m =
     (case rows_where (wallet_matches c) (r_wallets (seen m)) of
        [] \<Rightarrow> (Inr None, m)
      | (k, x) # _ \<Rightarrow>
          if w_id x = k \<and> numeric_column (w_balance x)
          then (Inr (Some k), m\<lparr>m_wallets := load_row k x (m_wallets m),
                  m_locks := (if fu then [k] else []) @ m_locks m\<rparr>)
          else mem_refuse m)"

fun mem_select_txn :: "txn_cond \<Rightarrow> (mem, uuid option) io" where
  "mem_select_txn c m =
     (case rows_where (txn_matches c) (r_txns (seen m)) of
        [] \<Rightarrow> (Inr None, m)
      | (k, x) # _ \<Rightarrow>
          if t_id x = k then (Inr (Some k), m\<lparr>m_txns := load_row k x (m_txns m)\<rparr>) else mem_refuse m)"

definition mem_count_txns :: "txn_cond \<Rightarrow> (mem, nat) io" where
  "mem_count_txns c m = (Inr (length (rows_where (txn_matches c) (r_txns (seen m)))), m)"

definition mem_page_txns :: "txn_cond \<Rightarrow> int \<Rightarrow> int \<Rightarrow> (mem, uuid list) io" where
  "mem_page_txns c off cnt m =
     (let all = sort_key (\<lambda>(k, x). - t_created_at x) (rows_where (txn_matches c) (r_txns (seen m)));
          rs = take (nat cnt) (drop (nat off) all)
      in (Inr (map fst rs), m\<lparr>m_txns := m_txns m @ rs\<rparr>))"

definition mem_update_wallet :: "uuid \<Rightarrow> int \<Rightarrow> decimal \<Rightarrow> int \<Rightarrow> (mem, nat) io" where
  "mem_update_wallet k ev nb nv m =
     (case map_of (r_wallets (seen m)) k of
        None \<Rightarrow> (Inr 0, m)
      | Some x \<Rightarrow>
          if w_version x \<noteq> ev then (Inr 0, m)
          else if w_id x \<noteq> k \<or> \<not> whole_cents nb \<or> 10 ^ 18 \<le> \<bar>cents nb\<bar> then mem_refuse m
          else if cents nb < 0 then py_raise (Library IntegrityError) m
          else
            let z = rebalance (Dec (cents nb) (- 2)) nv (m_now m) x in
            (Inr 1, m\<lparr>m_pend := m_pend m @ [W_wallet z], m_locks := k # m_locks m,
               m_wallets := (if map_of (m_wallets m) k = None then [] else [(k, z)]) @ m_wallets m\<rparr>))"

text \<open>The next number whose id is not among those used.\<close>

definition next_id :: "uuid list \<Rightarrow> mem \<Rightarrow> uuid" where
  "next_id used m =
     (case find (\<lambda>k. k \<notin> set used) (map (\<lambda>n. UUID (of_nat n)) [m_seed m ..< m_seed m + length used + 1]) of
        None \<Rightarrow> UUID (of_nat (m_seed m))
      | Some k \<Rightarrow> k)"

definition mem_insert_user :: "new_user \<Rightarrow> (mem, uuid) io" where
  "mem_insert_user n m =
     (let k = next_id (map fst (r_users (seen m))) m; y = user_row k (m_now m) (m_now m) n in
      if map_of (r_users (seen m)) k \<noteq> None \<or>
         rows_where (\<lambda>x. u_email x = nu_email n) (r_users (seen m)) \<noteq> []
      then py_raise (Library IntegrityError) m
      else (Inr k, m\<lparr>m_pend := m_pend m @ [W_user y], m_users := (k, y) # m_users m, m_seed := Suc (m_seed m)\<rparr>))"

definition mem_insert_wallet :: "uuid \<Rightarrow> (mem, uuid) io" where
  "mem_insert_wallet u m =
     (let k = next_id (map fst (r_wallets (seen m))) m; y = wallet_row k (m_now m) (m_now m) u in
      if map_of (r_wallets (seen m)) k \<noteq> None \<or> map_of (r_users (seen m)) u = None \<or>
         rows_where (\<lambda>x. w_user_id x = u) (r_wallets (seen m)) \<noteq> []
      then py_raise (Library IntegrityError) m
      else (Inr k, m\<lparr>m_pend := m_pend m @ [W_wallet y], m_wallets := (k, y) # m_wallets m,
              m_locks := k # m_locks m, m_seed := Suc (m_seed m)\<rparr>))"

definition mem_insert_txn :: "new_transaction \<Rightarrow> (mem, uuid) io" where
  "mem_insert_txn n m =
     (let k = next_id (map fst (r_txns (seen m))) m; y = transaction_row k (m_now m) (Dec (cents (nt_amount n)) (- 2)) n in
      if \<not> whole_cents (nt_amount n) \<or> 10 ^ 18 \<le> \<bar>cents (nt_amount n)\<bar> then mem_refuse m
      else if \<not> chk_amount_positive y \<or> \<not> chk_different_wallets y \<or>
         map_of (r_wallets (seen m)) (nt_sender_wallet_id n) = None \<or>
         map_of (r_wallets (seen m)) (nt_receiver_wallet_id n) = None \<or>
         map_of (r_txns (seen m)) k \<noteq> None \<or>
         rows_where (\<lambda>x. t_idempotency_key x = nt_idempotency_key n) (r_txns (seen m)) \<noteq> []
      then py_raise (Library IntegrityError) m
      else (Inr k, m\<lparr>m_pend := m_pend m @ [W_txn y], m_seed := Suc (m_seed m),
              m_txns := (k, transaction_row k (m_now m) (nt_amount n) n) # m_txns m\<rparr>))"

text \<open>A commit that would change or drop a committed user or transaction is refused.\<close>

definition keeps_rows :: "rows \<Rightarrow> rows \<Rightarrow> bool" where
  "keeps_rows r s \<longleftrightarrow> list_all (\<lambda>(k, _). map_of (r_users s) k = map_of (r_users r) k) (r_users r) \<and>
     list_all (\<lambda>(k, _). map_of (r_txns s) k = map_of (r_txns r) k) (r_txns r)"

lemma keeps_rows_iff:
  "keeps_rows r s \<longleftrightarrow> users (tables_of r) \<subseteq>\<^sub>m users (tables_of s) \<and> txns (tables_of r) \<subseteq>\<^sub>m txns (tables_of s)"
  by (auto simp: keeps_rows_def list_all_iff map_le_def dom_map_of_conv_image_fst)

definition mem_commit :: "(mem, unit) io" where
  "mem_commit m =
     (if keeps_rows (m_base m) (seen m)
      then (Inr (), m\<lparr>m_base := seen m, m_pend := [], m_locks := []\<rparr>)
      else py_raise (Library IntegrityError) m)"

definition mem_rollback :: "(mem, unit) io" where
  "mem_rollback m =
     (Inr (), m\<lparr>m_pend := [], m_locks := [], m_users := [], m_wallets := [], m_txns := [], m_dirty := False\<rparr>)"

definition mem_refresh_user :: "uuid \<Rightarrow> (mem, unit) io" where
  "mem_refresh_user k m = (case map_of (r_users (seen m)) k of
     None \<Rightarrow> mem_refuse m | Some x \<Rightarrow> (Inr (), m\<lparr>m_users := (k, x) # m_users m\<rparr>))"

definition mem_refresh_wallet :: "uuid \<Rightarrow> (mem, unit) io" where
  "mem_refresh_wallet k m = (case map_of (r_wallets (seen m)) k of
     None \<Rightarrow> mem_refuse m | Some x \<Rightarrow> (Inr (), m\<lparr>m_wallets := (k, x) # m_wallets m\<rparr>))"

definition mem_refresh_txn :: "uuid \<Rightarrow> (mem, unit) io" where
  "mem_refresh_txn k m = (case map_of (r_txns (seen m)) k of
     None \<Rightarrow> mem_refuse m | Some x \<Rightarrow> (Inr (), m\<lparr>m_txns := (k, x) # m_txns m\<rparr>))"

definition mem_attrs :: "(mem \<Rightarrow> (uuid \<times> 'a) list) \<Rightarrow> uuid \<Rightarrow> (mem, 'a) io" where
  "mem_attrs f k m = (case map_of (f m) k of
     None \<Rightarrow> (Inl (Library MissingGreenlet), m) | Some x \<Rightarrow> (Inr x, m))"

definition mem_set_balance :: "uuid \<Rightarrow> decimal \<Rightarrow> (mem, unit) io" where
  "mem_set_balance k b m = (case map_of (m_wallets m) k of
     None \<Rightarrow> (Inl (Library MissingGreenlet), m)
   | Some x \<Rightarrow> (Inr (), m\<lparr>m_wallets := (k, x\<lparr>w_balance := b\<rparr>) # m_wallets m, m_dirty := True\<rparr>))"

definition mem_session :: "mem session" where
  "mem_session =
     \<lparr>select_user = mem_select_user, select_wallet = mem_select_wallet, select_txn = mem_select_txn,
      count_txns = mem_count_txns, page_txns = mem_page_txns, update_wallet = mem_update_wallet,
      insert_user = mem_insert_user, insert_wallet = mem_insert_wallet, insert_txn = mem_insert_txn,
      commit_tx = mem_commit, rollback_tx = mem_rollback, refresh_user = mem_refresh_user,
      refresh_wallet = mem_refresh_wallet, refresh_txn = mem_refresh_txn,
      user_attrs = mem_attrs m_users, wallet_attrs = mem_attrs m_wallets, txn_attrs = mem_attrs m_txns,
      set_wallet_balance = mem_set_balance\<rparr>"

section \<open>The session's laws\<close>

lemmas mem_defs = mem_refuse_def py_raise_def load_row_def mem_session_def wp_def tx_step_def
  same_objects_def failed_def db_error_def

lemma seen_same [simp]:
  "seen (m\<lparr>m_locks := ls\<rparr>) = seen m" "seen (m\<lparr>m_users := us\<rparr>) = seen m" "seen (m\<lparr>m_wallets := ws\<rparr>) = seen m"
  "seen (m\<lparr>m_txns := ts\<rparr>) = seen m" "seen (m\<lparr>m_seed := i\<rparr>) = seen m" "seen (m\<lparr>m_dirty := b\<rparr>) = seen m"
  "seen (m\<lparr>m_now := c\<rparr>) = seen m" "seen (m\<lparr>m_keys := kv\<rparr>) = seen m"
  by (simp_all add: seen_def)

lemma seen_append [simp]: "seen (m\<lparr>m_pend := m_pend m @ [x]\<rparr>) = apply_write x (seen m)"
  by (simp add: seen_def)

lemma seen_commit [simp]: "seen (m\<lparr>m_base := r, m_pend := []\<rparr>) = r"
  by (simp add: seen_def)

lemma rows_where_Nil: "rows_where P al = [] \<Longrightarrow> map_of al k = Some x \<Longrightarrow> \<not> P x"
  using rows_where_set [of P al] by auto

lemma rows_where_Cons: "rows_where P al = (k, x) # rs \<Longrightarrow> map_of al k = Some x \<and> P x"
  using rows_where_set [of P al] by auto

lemma map_of_sublist:
  assumes d: "distinct (map fst al)" and rs: "set rs \<subseteq> set al" and dr: "distinct (map fst rs)"
  shows "map_of rs k = (if k \<in> fst ` set rs then map_of al k else None)"
proof (cases "k \<in> fst ` set rs")
  case True
  then obtain x where x: "(k, x) \<in> set rs" by force
  then have "map_of rs k = Some x" "map_of al k = Some x"
    using d dr rs map_of_is_SomeI [of rs k x] map_of_is_SomeI [of al k x] by auto
  with True show ?thesis by simp
next
  case False
  then show ?thesis by (simp add: map_of_eq_None_iff)
qed

lemma whole_cents_column:
  "whole_cents d \<Longrightarrow> \<bar>cents d\<bar> < 10 ^ 18 \<Longrightarrow> numeric_18_2 d (Dec (cents d) (- 2))"
  using whole_cents_val [of d] whole_cents_val [of "Dec (cents d) (- 2)"] by (simp add: numeric_18_2_def)

lemma rows_free: "rows_where P al = [] \<Longrightarrow> \<forall>k x. map_of al k = Some x \<longrightarrow> \<not> P x"
  by (intro allI impI) (rule rows_where_Nil)

lemma mem_law_attrs: "law_attrs mem_session mem_absn"
  by (simp add: law_attrs_def mem_session_def mem_attrs_def split: option.split)

lemma mem_law_set_balance: "law_set_balance mem_session mem_absn"
  by (simp add: law_set_balance_def mem_session_def mem_set_balance_def seen_def)

text \<open>Nobody else is simulated, so the laws hold for every relation that allows doing nothing.\<close>

locale idle_rely =
  fixes R :: rely
  assumes idle [simp]: "R L t t"
begin

lemma mem_law_select_wallet: "law_select_wallet mem_session mem_absn R"
  unfolding law_select_wallet_def
  by (auto simp: mem_defs dest: rows_where_Nil rows_where_Cons split: list.splits option.splits)

lemma mem_law_select_user: "law_select_user mem_session mem_absn R"
  unfolding law_select_user_def
  by (auto simp: mem_defs dest: rows_where_Nil rows_where_Cons split: list.splits option.splits)

lemma mem_law_select_txn: "law_select_txn mem_session mem_absn R"
  unfolding law_select_txn_def
  by (auto simp: mem_defs dest: rows_where_Nil rows_where_Cons split: list.splits option.splits)

lemma mem_law_history: "law_history mem_session mem_absn R"
  unfolding law_history_def
proof (intro conjI allI impI)
  fix c m
  let ?rs = "rows_where (txn_matches c) (r_txns (seen m))"
  have keys: "fst ` set ?rs = matching_txns c (tables_of (seen m))"
    unfolding rows_where_set matching_txns_def by force
  have "card (fst ` set ?rs) = length ?rs"
    using distinct_card [OF rows_where_distinct [of "txn_matches c" "r_txns (seen m)"]] by simp
  then show "wp (count_txns mem_session c) (\<lambda>n w'. n = card (matching_txns c (view mem_absn m)) \<and>
      tx_step mem_absn R (locked mem_absn m) (view mem_absn m) m w' \<and> same_objects mem_absn m w')
    (\<lambda>e. failed mem_absn R e m) m"
    by (simp add: mem_defs mem_count_txns_def keys)
next
  fix c off cnt m
  let ?al = "rows_where (txn_matches c) (r_txns (seen m))"
  let ?all = "sort_key (\<lambda>(k, x). - t_created_at x) ?al"
  let ?rs = "take (nat cnt) (drop (nat off) ?all)"
  have set: "set ?al = {(k, x). map_of (r_txns (seen m)) k = Some x \<and> txn_matches c x}"
    by (rule rows_where_set)
  have d: "distinct (map fst ?al)" by (rule rows_where_distinct)
  have dall: "distinct (map fst ?all)"
    using d by (simp add: distinct_map) 
  have keys: "fst ` set ?all = matching_txns c (tables_of (seen m))"
    unfolding set_sort set matching_txns_def by force
  have "latest_first (tables_of (seen m)) (map fst ?all)"
    unfolding latest_first_def sorted_wrt_map
  proof (rule sorted_wrt_mono_rel)
    show "sorted_wrt (\<lambda>p q. (case p of (k, x) \<Rightarrow> - t_created_at x) \<le> (case q of (k, x) \<Rightarrow> - t_created_at x)) ?all"
      using sorted_sort_key [of "\<lambda>(k, x). - t_created_at x" ?al] by (simp add: sorted_map)
  qed (auto simp: set)
  moreover have "map_of ?rs k = (if k \<in> set (map fst ?rs) then map_of (r_txns (seen m)) k else None)" for k
  proof -
    have "distinct (map fst ?rs)" using dall by (metis distinct_drop distinct_take drop_map take_map)
    moreover have "set ?rs \<subseteq> set ?all" by (meson order_trans set_drop_subset set_take_subset)
    ultimately have *: "map_of ?rs k = (if k \<in> fst ` set ?rs then map_of ?all k else None)"
      using map_of_sublist [OF dall] by blast
    have "map_of ?all k = map_of (r_txns (seen m)) k" if "k \<in> fst ` set ?rs"
    proof -
      from that obtain x where "(k, x) \<in> set ?all"
        using \<open>set ?rs \<subseteq> set ?all\<close> by force
      then show ?thesis using dall set by (auto simp: map_of_is_SomeI)
    qed
    with * show ?thesis by simp
  qed
  ultimately show "wp (page_txns mem_session c off cnt)
    (\<lambda>ks w'. tx_step mem_absn R (locked mem_absn m) (view mem_absn m) m w' \<and>
       (\<exists>all. distinct all \<and> set all = matching_txns c (view mem_absn m) \<and> latest_first (view mem_absn m) all \<and>
          ks = take (nat cnt) (drop (nat off) all)) \<and>
       loaded_wallet mem_absn w' = loaded_wallet mem_absn m \<and> loaded_user mem_absn w' = loaded_user mem_absn m \<and>
       (\<forall>k. loaded_txn mem_absn w' k = (if k \<in> set ks \<and> loaded_txn mem_absn m k = None
          then txns (view mem_absn m) k else loaded_txn mem_absn m k)))
    (\<lambda>e. failed mem_absn R e m) m"
    using dall keys
    by (simp add: mem_defs mem_page_txns_def Let_def map_add_def split: option.split)
      (auto intro!: exI [of _ "map fst ?all"] simp: take_map drop_map)
qed

lemma mem_law_update_wallet: "law_update_wallet mem_session mem_absn R"
  unfolding law_update_wallet_def
proof (intro allI impI)
  fix k ev nb nv m
  show "wp (update_wallet mem_session k ev nb nv)
    (\<lambda>n w'. loaded_user mem_absn w' = loaded_user mem_absn m \<and> loaded_txn mem_absn w' = loaded_txn mem_absn m \<and>
       (\<forall>j. j \<noteq> k \<longrightarrow> loaded_wallet mem_absn w' j = loaded_wallet mem_absn m j) \<and>
       (if n = 0
        then (\<forall>x. wallets (view mem_absn m) k = Some x \<longrightarrow> w_version x \<noteq> ev) \<and>
          tx_step mem_absn R (locked mem_absn m) (view mem_absn m) m w' \<and>
          (loaded_wallet mem_absn w' k = None \<longleftrightarrow> loaded_wallet mem_absn m k = None)
        else (\<exists>x b ts. wallets (view mem_absn m) k = Some x \<and> w_version x = ev \<and> w_id x = k \<and>
          numeric_18_2 nb b \<and> 0 \<le> coef b \<and>
          tx_step mem_absn R (insert k (locked mem_absn m)) (put_wallet (rebalance b nv ts x) (view mem_absn m)) m w' \<and>
          (loaded_wallet mem_absn w' k = loaded_wallet mem_absn m k \<or>
           loaded_wallet mem_absn m k \<noteq> None \<and> loaded_wallet mem_absn w' k = Some (rebalance b nv ts x)))))
    (\<lambda>e. failed mem_absn R e m) m"
  proof (cases "map_of (r_wallets (seen m)) k")
    case None
    then show ?thesis by (simp add: mem_defs mem_update_wallet_def)
  next
    case (Some x)
    show ?thesis
    proof (cases "w_version x \<noteq> ev \<or> w_id x \<noteq> k \<or> \<not> whole_cents nb \<or> 10 ^ 18 \<le> \<bar>cents nb\<bar> \<or> cents nb < 0")
      case True
      with Some show ?thesis by (auto simp: mem_defs mem_update_wallet_def)
    next
      case False
      then have "numeric_18_2 nb (Dec (cents nb) (- 2))" by (intro whole_cents_column) auto
      moreover have "w_id (rebalance (Dec (cents nb) (- 2)) nv (m_now m) x) = k" using False by simp
      ultimately show ?thesis
        using Some False
        by (simp add: mem_defs mem_update_wallet_def Let_def)
          (intro conjI impI exI [of _ "Dec (cents nb) (- 2)"] exI [of _ "m_now m"]; simp)
    qed
  qed
qed

lemma mem_law_insert_user: "law_insert_user mem_session mem_absn R"
  unfolding law_insert_user_def Let_def
proof (intro allI impI)
  fix n :: new_user and m
  let ?k = "next_id (map fst (r_users (seen m))) m"
  let ?y = "user_row ?k (m_now m) (m_now m) n"
  have y: "u_id ?y = ?k" by (simp add: user_row_def)
  show "wp (insert_user mem_session n)
    (\<lambda>k w'. \<exists>c u. users (view mem_absn m) k = None \<and>
       (\<forall>j x. users (view mem_absn m) j = Some x \<longrightarrow> u_email x \<noteq> nu_email n) \<and>
       tx_step mem_absn R (locked mem_absn m) (put_user (user_row k c u n) (view mem_absn m)) m w' \<and>
       loaded_user mem_absn w' = (loaded_user mem_absn m)(k \<mapsto> user_row k c u n) \<and>
       loaded_wallet mem_absn w' = loaded_wallet mem_absn m \<and> loaded_txn mem_absn w' = loaded_txn mem_absn m)
    (\<lambda>e. failed mem_absn R e m) m"
    by (auto simp: mem_defs mem_insert_user_def Let_def seen_def dest!: rows_free)
      (intro exI [of _ "m_now m"], use y in \<open>simp add: seen_def\<close>)
qed

lemma mem_law_insert_wallet: "law_insert_wallet mem_session mem_absn R"
  unfolding law_insert_wallet_def Let_def
proof (intro allI impI)
  fix u m
  show "wp (insert_wallet mem_session u)
    (\<lambda>k w'. \<exists>c d. wallets (view mem_absn m) k = None \<and> u \<in> dom (users (view mem_absn m)) \<and>
       (\<forall>j x. wallets (view mem_absn m) j = Some x \<longrightarrow> w_user_id x \<noteq> u) \<and>
       tx_step mem_absn R (insert k (locked mem_absn m)) (put_wallet (wallet_row k c d u) (view mem_absn m)) m w' \<and>
       loaded_wallet mem_absn w' = (loaded_wallet mem_absn m)(k \<mapsto> wallet_row k c d u) \<and>
       loaded_user mem_absn w' = loaded_user mem_absn m \<and> loaded_txn mem_absn w' = loaded_txn mem_absn m)
    (\<lambda>e. failed mem_absn R e m) m"
    by (auto simp: mem_defs mem_insert_wallet_def Let_def seen_def dest!: rows_free)
      (intro exI [of _ "m_now m"], simp add: seen_def)
qed

lemma mem_law_insert_txn: "law_insert_txn mem_session mem_absn R"
  unfolding law_insert_txn_def Let_def
proof (intro allI impI)
  fix n :: new_transaction and m
  let ?b = "Dec (cents (nt_amount n)) (- 2)"
  let ?k = "next_id (map fst (r_txns (seen m))) m"
  let ?y = "transaction_row ?k (m_now m) ?b n"
  have y: "t_id ?y = ?k" by (simp add: transaction_row_def)
  have st: "whole_cents (nt_amount n) \<Longrightarrow> \<bar>cents (nt_amount n)\<bar> < 10 ^ 18 \<Longrightarrow> numeric_18_2 (nt_amount n) ?b"
    by (rule whole_cents_column)
  show "wp (insert_txn mem_session n)
    (\<lambda>k w'. \<exists>ts b. numeric_18_2 (nt_amount n) b \<and> chk_amount_positive (transaction_row k ts b n) \<and>
       chk_different_wallets (transaction_row k ts b n) \<and>
       nt_sender_wallet_id n \<in> dom (wallets (view mem_absn m)) \<and>
       nt_receiver_wallet_id n \<in> dom (wallets (view mem_absn m)) \<and>
       txns (view mem_absn m) k = None \<and>
       (\<forall>j x. txns (view mem_absn m) j = Some x \<longrightarrow> t_idempotency_key x \<noteq> nt_idempotency_key n) \<and>
       tx_step mem_absn R (locked mem_absn m) (put_txn (transaction_row k ts b n) (view mem_absn m)) m w' \<and>
       loaded_txn mem_absn w' = (loaded_txn mem_absn m)(k \<mapsto> transaction_row k ts (nt_amount n) n) \<and>
       loaded_wallet mem_absn w' = loaded_wallet mem_absn m \<and> loaded_user mem_absn w' = loaded_user mem_absn m)
    (\<lambda>e. failed mem_absn R e m) m"
    by (auto simp: mem_defs mem_insert_txn_def Let_def seen_def dest!: rows_free)
      (intro exI [of _ "m_now m"] exI [of _ ?b], use y st in \<open>simp add: seen_def domIff\<close>)
qed

lemma mem_law_refresh: "law_refresh mem_session mem_absn R"
  unfolding law_refresh_def
  by (simp add: mem_defs mem_refresh_user_def mem_refresh_wallet_def mem_refresh_txn_def split: option.split)

lemma mem_law_rollback: "law_rollback mem_session mem_absn R"
  by (simp add: law_rollback_def mem_defs mem_rollback_def seen_def)

lemma mem_law_commit: "law_commit mem_session mem_absn R"
  unfolding law_commit_def
proof (intro allI impI)
  fix m
  have "rows_kept mem_absn m (m\<lparr>m_base := seen m, m_pend := [], m_locks := []\<rparr>)"
    if "keeps_rows (m_base m) (seen m)"
    using that by (simp add: rows_kept_def keeps_rows_iff)
  moreover assume "\<not> dirty mem_absn m"
  ultimately show "wp (commit_tx mem_session)
    (\<lambda>_ w'. R {} (view mem_absn m) (durable mem_absn w') \<and> rows_kept mem_absn m w' \<and>
       view mem_absn w' = durable mem_absn w' \<and>
       locked mem_absn w' = {} \<and> \<not> dirty mem_absn w' \<and> same_objects mem_absn m w')
    (\<lambda>e w'. db_error e \<and> (R {} (durable mem_absn m) (durable mem_absn w') \<or>
       e \<noteq> Library IntegrityError \<and> R {} (view mem_absn m) (durable mem_absn w') \<and> rows_kept mem_absn m w')) m"
    by (simp add: mem_defs mem_commit_def)
qed

lemma session_lawful: "rely_ok R \<Longrightarrow> lawful_session mem_session mem_absn R"
  unfolding lawful_session_def
  by (intro conjI mem_law_select_wallet mem_law_select_user mem_law_select_txn
      mem_law_update_wallet mem_law_insert_txn mem_law_insert_user mem_law_insert_wallet
      mem_law_commit mem_law_rollback mem_law_refresh mem_law_attrs mem_law_set_balance mem_law_history)

end

section \<open>The Redis server\<close>

definition mem_kv :: "mem kv" where
  "mem_kv = \<lparr>entries = \<lambda>m. map_of (m_keys m), clock = m_now, writers = None\<rparr>"

lemma mem_kv_simps [simp]: "entries mem_kv m = map_of (m_keys m)" "clock mem_kv m = m_now m"
  by (simp_all add: mem_kv_def)

lemma mem_exclusive: "exclusive mem_kv"
  by (simp add: exclusive_def mem_kv_def)

lemmas mem_kv_step = kv_step_exclusive [OF mem_exclusive]

definition mem_command :: "bool \<Rightarrow> (mem, 'a) io \<Rightarrow> (mem, 'a) io" where
  "mem_command alive c = (if alive then c else py_raise (Library RedisError))"

definition mem_incr :: "string \<Rightarrow> (mem, int) io" where
  "mem_incr k m =
     (let old = map_of (m_keys m) k in
      case counter (m_now m) old of
        None \<Rightarrow> (Inr 0, m)
      | Some n \<Rightarrow>
          (Inr (int (Suc n)),
           m\<lparr>m_keys := (k, (nat_str (Suc n), if live_entry (m_now m) old = None then None else expiry_of old)) # m_keys m\<rparr>))"

definition mem_expire :: "string \<Rightarrow> int \<Rightarrow> (mem, unit) io" where
  "mem_expire k ttl m =
     (case live_entry (m_now m) (map_of (m_keys m) k) of
        None \<Rightarrow> (Inr (), m)
      | Some v \<Rightarrow> (Inr (), m\<lparr>m_keys := (k, (v, Some (m_now m + ttl))) # m_keys m\<rparr>))"

definition mem_drop :: "string list \<Rightarrow> (mem, unit) io" where
  "mem_drop ks m = (Inr (), m\<lparr>m_keys := filter (\<lambda>p. fst p \<notin> set ks) (m_keys m)\<rparr>)"

text \<open>The server that answers, and the one that does not.\<close>

definition mem_redis :: "bool \<Rightarrow> mem redis" where
  "mem_redis alive =
     \<lparr>redis_get = \<lambda>k. mem_command alive (\<lambda>m. (Inr (live mem_kv m k), m)),
      redis_setex = \<lambda>k ttl v. mem_command alive
        (\<lambda>m. (Inr (), m\<lparr>m_keys := (k, (v, Some (m_now m + ttl))) # m_keys m\<rparr>)),
      redis_delete = \<lambda>k. mem_command alive (mem_drop [k]),
      redis_incr = \<lambda>k. mem_command alive (mem_incr k),
      redis_expire = \<lambda>k ttl. mem_command alive (mem_expire k ttl),
      redis_pipeline_delete = \<lambda>ks. mem_command alive (mem_drop ks),
      redis_ping = mem_command alive (\<lambda>m. (Inr True, m))\<rparr>"

lemma map_of_drop: "map_of (filter (\<lambda>p. fst p \<notin> set ks) al) = del_keys ks (map_of al)"
  by (induction al) (auto simp: del_keys_def fun_eq_iff)

lemma map_of_drop_one: "map_of (filter (\<lambda>p. fst p \<noteq> k) al) = del_keys [k] (map_of al)"
  using map_of_drop [of "[k]"] by simp

lemmas mem_redis_defs = mem_redis_def mem_command_def py_raise_def wp_def mem_kv_step kv_failed_def

lemma lawful_mem_redis: "lawful_redis (mem_redis alive) mem_kv"
  unfolding lawful_redis_def
proof (intro conjI allI)
  fix k and m :: mem
  show "wp (redis_incr (mem_redis alive) k)
     (\<lambda>r w'. (\<exists>ks. (\<forall>j. j \<noteq> k \<longrightarrow> ks j = entries mem_kv m j) \<and> kv_step mem_kv (\<lambda>_. ks) m w') \<and>
           (\<forall>n. counter (clock mem_kv w') (entries mem_kv m k) = Some n \<longrightarrow>
        r = int (Suc n) \<and> kv_step mem_kv (incr_key k n (entries mem_kv m)) m w'))
     (\<lambda>e w'. e = Library RedisError \<and>
        (\<exists>ks. (\<forall>j. j \<noteq> k \<longrightarrow> ks j = entries mem_kv m j) \<and> kv_step mem_kv (\<lambda>_. ks) m w')) m"
    by (auto simp: mem_redis_defs mem_incr_def incr_key_def Let_def split: option.split)
qed (simp_all add: mem_redis_defs live_def fetched_def set_key_def mem_drop_def map_of_drop map_of_drop_one mem_expire_def
    expire_key_def split: option.split)

lemma mem_redis_up: "redis_up (mem_redis True)"
  unfolding redis_up_def
  by (simp add: mem_redis_defs mem_incr_def mem_expire_def mem_drop_def Let_def split: option.split)

context idle_rely begin

lemma keys_quiet: "db_quiet mem_absn R m (m\<lparr>m_keys := kv\<rparr>)" "db_quiet mem_absn R m m"
  by (simp_all add: db_quiet_def tx_step_def same_objects_def)

lemma redis_apart: "redis_keeps_db (mem_redis alive) mem_absn R"
  unfolding redis_keeps_db_def
  by (simp add: mem_redis_defs mem_incr_def mem_expire_def mem_drop_def Let_def keys_quiet split: option.split)

lemma client_lawful: "client_ok (Some (mem_redis alive)) mem_kv mem_absn R" "client_ok None mem_kv mem_absn R"
  by (simp_all add: client_ok_def lawful_mem_redis redis_apart)

end

text \<open>Both with the other sessions of the deployed program and with none.\<close>

interpretation mem_ledger: idle_rely others
  by unfold_locales simp

interpretation mem_alone: idle_rely alone
  by unfold_locales (simp add: alone_def)

lemma lawful_mem_session:
  "lawful_session mem_session mem_absn others" "lawful_session mem_session mem_absn alone"
  by (rule mem_ledger.session_lawful [OF rely_ok_others], rule mem_alone.session_lawful [OF rely_ok_alone])

lemma mem_client_ok:
  "client_ok (Some (mem_redis alive)) mem_kv mem_absn others" "client_ok None mem_kv mem_absn others"
  "client_ok (Some (mem_redis alive)) mem_kv mem_absn alone" "client_ok None mem_kv mem_absn alone"
  by (rule mem_ledger.client_lawful mem_alone.client_lawful)+

lemma mem_keeps_redis: "session_keeps_redis mem_session mem_kv"
  unfolding session_keeps_redis_def keeps_redis_def mem_kv_step mem_session_def
  by (simp add: mem_refuse_def py_raise_def mem_count_txns_def mem_page_txns_def mem_update_wallet_def
      mem_insert_user_def mem_insert_wallet_def mem_insert_txn_def mem_commit_def mem_rollback_def
      mem_refresh_user_def mem_refresh_wallet_def mem_refresh_txn_def mem_set_balance_def Let_def
      split: option.split list.split)

section \<open>A codec\<close>

definition opt_str :: "string option \<Rightarrow> json" where
  "opt_str d = (case d of None \<Rightarrow> JNull | Some s \<Rightarrow> JStr s)"

definition mem_dump :: "transaction_response \<Rightarrow> json" where
  "mem_dump r = JObj
     [(''id'', JStr (uuid_str (tr_id r))), (''sender_wallet_id'', JStr (uuid_str (tr_sender_wallet_id r))),
      (''receiver_wallet_id'', JStr (uuid_str (tr_receiver_wallet_id r))), (''amount'', JStr (dec_str (tr_amount r))),
      (''currency'', JStr (tr_currency r)), (''status'', JStr (tr_status r)),
      (''idempotency_key'', JStr (tr_idempotency_key r)), (''description'', opt_str (tr_description r)),
      (''created_at'', JInt (tr_created_at r))]"

fun str_of :: "json option \<Rightarrow> string option" where
  "str_of (Some (JStr s)) = Some s"
| "str_of _ = None"

fun int_of :: "json option \<Rightarrow> int option" where
  "int_of (Some (JInt n)) = Some n"
| "int_of _ = None"

definition mem_load :: "json \<Rightarrow> exn + transaction_response" where
  "mem_load d =
     (let str = \<lambda>k. str_of (json_get k d); uid = \<lambda>k. Option.bind (str k) uuid_parse in
      case (uid ''id'', uid ''sender_wallet_id'', uid ''receiver_wallet_id'',
            Option.bind (str ''amount'') dec_parse, int_of (json_get ''created_at'' d)) of
        (Some i, Some s, Some r, Some a, Some created) \<Rightarrow>
          Inr \<lparr>tr_id = i, tr_sender_wallet_id = s, tr_receiver_wallet_id = r, tr_amount = a,
            tr_currency = the (str ''currency''), tr_status = the (str ''status''),
            tr_idempotency_key = the (str ''idempotency_key''), tr_description = str ''description'',
            tr_created_at = created\<rparr>
      | _ \<Rightarrow> Inl (Library ValidationError))"

definition mem_codec :: codec where
  "mem_codec = \<lparr>dump_txn = mem_dump, load_txn = mem_load\<rparr>"

lemma lawful_mem_codec: "lawful_codec mem_codec"
  by (simp add: lawful_codec_def mem_codec_def mem_dump_def mem_load_def opt_str_def uuid_parse_str dec_parse_str
      split: option.split)

section \<open>A Redis server with other clients\<close>

text \<open>The same server, where others may store anything but responses that are not recorded.\<close>

definition mem_shared :: "mem kv" where
  "mem_shared = among_clients mem_codec mem_absn mem_kv"

lemma mem_shared_client_ok:
  "client_ok (Some (mem_redis alive)) mem_shared mem_absn others"
  "client_ok (Some (mem_redis alive)) mem_shared mem_absn alone"
  using mem_client_ok(1,3) [of alive]
    among_clients_lawful [OF mem_exclusive lawful_mem_redis mem_alone.redis_apart rely_ok_alone]
  by (simp_all add: mem_shared_def)

lemma mem_keeps_redis_shared: "session_keeps_redis mem_session mem_shared"
proof -
  have base: "kv_same mem_shared m m'" if "m_base m' = m_base m" "m_keys m' = m_keys m" "m_now m' = m_now m" for m m'
    unfolding mem_shared_def among_clients_simps
    by (rule among_clients_step [OF mem_exclusive]) (use that in \<open>simp_all add: mem_kv_step\<close>)
  have commit: "kv_same mem_shared m (snd (mem_commit m))" for m
    unfolding mem_shared_def among_clients_simps
    by (rule among_clients_step [OF mem_exclusive])
      (auto simp: mem_kv_step mem_commit_def py_raise_def keeps_rows_iff)
  show ?thesis
    unfolding session_keeps_redis_def keeps_redis_def
    by (intro conjI allI)
      (auto intro!: base commit simp: mem_session_def mem_refuse_def py_raise_def mem_count_txns_def mem_page_txns_def
        mem_update_wallet_def mem_insert_user_def mem_insert_wallet_def mem_insert_txn_def mem_rollback_def
        mem_refresh_user_def mem_refresh_wallet_def mem_refresh_txn_def mem_set_balance_def Let_def
        split: option.split list.split)
qed

section \<open>An example database\<close>

text \<open>Two users, with 100.00 and 5.00; one payment of 7.50 was made before under the key \<open>k0\<close>.\<close>

definition alice :: uuid where "alice = UUID 1"
definition bob :: uuid where "bob = UUID 2"
definition alice_wallet :: uuid where "alice_wallet = UUID 17"
definition bob_wallet :: uuid where "bob_wallet = UUID 18"

definition demo_user :: "uuid \<Rightarrow> string \<Rightarrow> user" where
  "demo_user k email = user_row k 0 0 \<lparr>nu_email = email, nu_password_hash = ''#secret12'', nu_full_name = ''N''\<rparr>"

definition demo_wallet :: "uuid \<Rightarrow> uuid \<Rightarrow> int \<Rightarrow> wallet" where
  "demo_wallet k u c = rebalance (Dec c (- 2)) 1 0 (wallet_row k 0 0 u)"

definition demo_txn :: transaction where
  "demo_txn = transaction_row (UUID 40) 0 (Dec 750 (- 2))
     \<lparr>nt_sender_wallet_id = bob_wallet, nt_receiver_wallet_id = alice_wallet, nt_amount = Dec 750 (- 2),
      nt_currency = ''USD'', nt_status = COMPLETED, nt_idempotency_key = ''k0'', nt_description = None\<rparr>"

definition demo_rows :: rows where
  "demo_rows =
     \<lparr>r_users = [(alice, demo_user alice ''a@x.org''), (bob, demo_user bob ''b@x.org'')],
      r_wallets = [(alice_wallet, demo_wallet alice_wallet alice 10000), (bob_wallet, demo_wallet bob_wallet bob 500)],
      r_txns = [(UUID 40, demo_txn)]\<rparr>"

definition demo :: mem where
  "demo = \<lparr>m_base = demo_rows, m_pend = [], m_locks = [], m_users = [], m_wallets = [], m_txns = [],
     m_dirty = False, m_seed = 64, m_now = 1000, m_keys = []\<rparr>"

definition demo_request :: "string \<Rightarrow> int \<Rightarrow> payment_request" where
  "demo_request key c = \<lparr>pr_receiver_id = bob, pr_amount = Dec c (- 2), pr_currency = ''USD'',
     pr_idempotency_key = key, pr_description = None\<rparr>"

lemmas demo_defs = demo_def demo_rows_def demo_user_def demo_wallet_def demo_txn_def user_row_def transaction_row_def
  alice_def bob_def alice_wallet_def bob_wallet_def

lemma demo_fresh: "fresh_session mem_absn demo"
  by (simp add: fresh_session_def seen_def demo_def)

lemma demo_sound: "cache_sound cdc mem_kv mem_absn demo"
  by (simp add: cache_sound_def exclusive_honest [OF mem_exclusive] demo_def)

lemma demo_shared_sound: "cache_sound mem_codec mem_shared mem_absn demo"
  by (simp add: cache_sound_def mem_shared_def among_clients_honest demo_def)

lemma demo_valid: "valid_db (tables_of demo_rows)"
  by (rule valid_dbI)
    (auto simp: demo_defs unique_by_def wallet_ok_def txn_ok_def numeric_column_def chk_balance_non_negative_def
      chk_amount_positive_def chk_different_wallets_def split: if_splits)

lemma demo_request_money: "0 < c \<Longrightarrow> money_field (pr_amount (demo_request key c))"
  by (simp add: demo_request_def money_field_def whole_cents_def)

end
