(* ===== verification/Http.thy ===== *)
theory Http
  imports Errors Json
begin

text \<open>
  Requests and responses as the middleware sees them, and \<open>app/middleware/request_context.py\<close>: the
  request id that follows a request through its context variables, its log lines and its response.
  Starlette and the clock behind \<open>time.perf_counter\<close> are parameters.
\<close>

section \<open>Requests, responses and context variables\<close>

text \<open>
  \<open>rq_header\<close> is the lookup \<open>request.headers.get\<close>, \<open>rq_state_user_id\<close> the attribute \<open>user_id\<close> of
  \<open>request.state\<close> where some code has set one, \<open>rq_bearer\<close> what \<open>HTTPBearer\<close> makes of the request: the token,
  or the exception it raises.
\<close>

record request =
  rq_method :: string
  rq_path :: string
  rq_header :: "string \<Rightarrow> string option"
  rq_client_host :: string
  rq_state_user_id :: "uuid option"
  rq_bearer :: "exn + string"

record 'b response =
  rs_status :: nat
  rs_body :: 'b
  rs_headers :: "(string \<times> string) list"

text \<open>The context variables \<open>request_id_ctx\<close> and \<open>user_id_ctx\<close>: set, or not yet set.\<close>

record context_vars =
  cv_request_id :: "string option"
  cv_user_id :: "string option"

definition ctx_get :: "string option \<Rightarrow> string \<Rightarrow> string" where
  "ctx_get var fallback = (case var of None \<Rightarrow> fallback | Some v \<Rightarrow> v)"

section \<open>The libraries\<close>

text \<open>
  \<open>uuid.uuid4\<close>, \<open>time.perf_counter\<close> (in nanoseconds) and the logger: a level and a message, with
  the context variables in force.
\<close>

datatype log_level = INFO | WARNING | ERROR

record 'w server =
  new_uuid4 :: "('w, uuid) io"
  perf_counter :: "('w, int) io"
  emit_log :: "context_vars \<Rightarrow> log_level \<Rightarrow> string \<Rightarrow> ('w, unit) io"

definition lawful_server :: "'w server \<Rightarrow> ('w \<Rightarrow> 'o) \<Rightarrow> bool" where
  "lawful_server srv obs \<longleftrightarrow>
     (\<forall>w. wp (new_uuid4 srv) (\<lambda>_ w'. obs w' = obs w) (\<lambda>_ _. False) w) \<and>
     (\<forall>w. wp (perf_counter srv) (\<lambda>_ w'. obs w' = obs w) (\<lambda>_ _. False) w) \<and>
     (\<forall>cv l s w. wp (emit_log srv cv l s) (\<lambda>_ w'. obs w' = obs w) (\<lambda>_ _. False) w)"

lemma server_laws:
  assumes "lawful_server srv obs"
  shows "wp (new_uuid4 srv) (\<lambda>_ w'. obs w' = obs w) (\<lambda>_ _. False) w"
    and "wp (perf_counter srv) (\<lambda>_ w'. obs w' = obs w) (\<lambda>_ _. False) w"
    and "wp (emit_log srv cv l s) (\<lambda>_ w'. obs w' = obs w) (\<lambda>_ _. False) w"
  using assms unfolding lawful_server_def by - (elim conjE, blast)+

section \<open>The request context middleware\<close>

text \<open>
  \<open>(end - start) * 1000\<close> to one digit after the point. Python computes it with floating-point
  seconds; here the counter's nanoseconds are rounded half up.
\<close>

definition ms_str :: "int \<Rightarrow> string" where
  "ms_str ns = (let tenths = (ns + 50000) div 100000
                in int_str (tenths div 10) @ ''.'' @ int_str (tenths mod 10))"

text \<open>The type name the failure line shows: \<open>type(e).__name__\<close>.\<close>

fun type_name :: "exn \<Rightarrow> string" where
  "type_name (Domain (UserNotFoundException _)) = ''UserNotFoundException''"
| "type_name (Domain (UserAlreadyExistsException _)) = ''UserAlreadyExistsException''"
| "type_name (Domain WalletNotFoundException) = ''WalletNotFoundException''"
| "type_name (Domain (InsufficientBalanceException _ _)) = ''InsufficientBalanceException''"
| "type_name (Domain DuplicateTransactionException) = ''DuplicateTransactionException''"
| "type_name (Domain SelfTransferException) = ''SelfTransferException''"
| "type_name (Domain OptimisticLockException) = ''OptimisticLockException''"
| "type_name (HTTPExc _ _ _) = ''HTTPException''"
| "type_name (RequestInvalid _) = ''RequestValidationError''"
| "type_name (Library IntegrityError) = ''IntegrityError''"
| "type_name (Library MissingGreenlet) = ''MissingGreenlet''"
| "type_name (Library DatabaseError) = ''DBAPIError''"
| "type_name (Library RedisError) = ''RedisError''"
| "type_name (Library JWTError) = ''JWTError''"
| "type_name (Library ValueError) = ''ValueError''"
| "type_name (Library KeyError) = ''KeyError''"
| "type_name (Library ValidationError) = ''ValidationError''"
| "type_name (Library PlainException) = ''Exception''"

definition request_id :: "'w server \<Rightarrow> request \<Rightarrow> ('w, string) io" where
  "request_id srv request =
     py_bind (new_uuid4 srv) (\<lambda>u.
       py_return (case rq_header request ''X-Request-ID'' of None \<Rightarrow> uuid_str u | Some rid \<Rightarrow> rid))"

definition request_vars :: "string \<Rightarrow> context_vars" where
  "request_vars rid = \<lparr>cv_request_id = Some rid, cv_user_id = Some ''anonymous''\<rparr>"

text \<open>
  The rest of \<open>dispatch\<close>, given the id. What runs inside \<open>call_next\<close> sees the context variables set
  here. Assigning to a header replaces it.
\<close>

fun set_header :: "string \<Rightarrow> string \<Rightarrow> (string \<times> string) list \<Rightarrow> (string \<times> string) list" where
  "set_header k v [] = [(k, v)]"
| "set_header k v ((k', v') # hs) = (if k = k' then (k, v) # hs else (k', v') # set_header k v hs)"

definition dispatch_as ::
  "'w server \<Rightarrow> request \<Rightarrow> (context_vars \<Rightarrow> ('w, 'b response) io) \<Rightarrow> string \<Rightarrow> ('w, 'b response) io" where
  "dispatch_as srv request call_next rid =
     py_bind (perf_counter srv) (\<lambda>start.
     py_bind
       (py_catch (call_next (request_vars rid))
          (\<lambda>e. py_bind (perf_counter srv) (\<lambda>now.
             py_bind (emit_log srv (request_vars rid) ERROR
               (''Request failed: '' @ rq_method request @ '' '' @ rq_path request @ '' -> '' @ type_name e @
                '' ('' @ ms_str (now - start) @ ''ms)'')) (\<lambda>_. py_raise e))))
       (\<lambda>response.
     py_bind (perf_counter srv) (\<lambda>now.
       let response = response\<lparr>rs_headers := set_header ''X-Response-Time-Ms'' (ms_str (now - start))
             (set_header ''X-Request-ID'' rid (rs_headers response))\<rparr>
       in py_bind (emit_log srv (request_vars rid) INFO
            (rq_method request @ '' '' @ rq_path request @ '' -> '' @ nat_str (rs_status response) @
             '' ('' @ ms_str (now - start) @ ''ms)'')) (\<lambda>_. py_return response))))"

definition dispatch ::
  "'w server \<Rightarrow> request \<Rightarrow> (context_vars \<Rightarrow> ('w, 'b response) io) \<Rightarrow> ('w, 'b response) io" where
  "dispatch srv request call_next = py_bind (request_id srv request) (dispatch_as srv request call_next)"

section \<open>The exception handlers around it\<close>

text \<open>
  The bodies of \<open>JSONResponse\<close>, and a whole request: the handlers of \<open>HTTPException\<close> and of
  \<open>RequestValidationError\<close> run inside the middleware, that of \<open>Exception\<close> outside of it.
\<close>

definition error_json :: "error_response \<Rightarrow> json" where
  "error_json r = JObj ([(''error'', JStr (er_error r)), (''detail'', JStr (er_detail r))] @
     (case er_errors r of None \<Rightarrow> []
      | Some es \<Rightarrow> [(''errors'', JArr (map (\<lambda>(f, m). JObj [(''field'', JStr f), (''message'', JStr m)]) es))]) @
     [(''request_id'', JStr (er_request_id r))])"

definition json_response :: "error_response \<Rightarrow> json response" where
  "json_response r = \<lparr>rs_status = er_status r, rs_body = error_json r, rs_headers = []\<rparr>"

definition serve ::
  "'w server \<Rightarrow> request \<Rightarrow> (context_vars \<Rightarrow> ('w, json response) io) \<Rightarrow> ('w, json response) io" where
  "serve srv request endpoint =
     py_bind (request_id srv request) (\<lambda>rid.
       py_catch
         (dispatch_as srv request
           (\<lambda>cv. py_catch (endpoint cv)
              (\<lambda>e. case e of
                 Library l \<Rightarrow> py_raise e
               | _ \<Rightarrow> py_return (json_response (handle_exception (ctx_get (cv_request_id cv) ''-'') e)))) rid)
         (\<lambda>e. py_bind (emit_log srv (request_vars rid) ERROR
                (''Unhandled exception on '' @ rq_method request @ '' '' @ rq_path request)) (\<lambda>_.
              py_return (json_response (handle_exception rid e)))))"

section \<open>Every request gets one answer\<close>

text \<open>
  What the client receives for the outcome of an endpoint: its own response or the rendering of its
  exception. Only a response made inside the middleware carries the request id in a header; the body
  of every error names it.
\<close>

definition answers :: "string \<Rightarrow> (json response \<Rightarrow> bool) \<Rightarrow> (exn \<Rightarrow> bool) \<Rightarrow> json response \<Rightarrow> bool" where
  "answers rid returned raised resp \<longleftrightarrow>
     (\<exists>r ms. returned r \<and> rs_status resp = rs_status r \<and> rs_body resp = rs_body r \<and>
        rs_headers resp = set_header ''X-Response-Time-Ms'' ms (set_header ''X-Request-ID'' rid (rs_headers r))) \<or>
     (\<exists>e ms. raised e \<and> (\<forall>l. e \<noteq> Library l) \<and>
        rs_status resp = er_status (handle_exception rid e) \<and> rs_body resp = error_json (handle_exception rid e) \<and>
        rs_headers resp = [(''X-Request-ID'', rid), (''X-Response-Time-Ms'', ms)]) \<or>
     (\<exists>l. raised (Library l) \<and> resp = json_response (unhandled_exception_handler rid))"

definition names_request :: "request \<Rightarrow> string \<Rightarrow> bool" where
  "names_request request rid \<longleftrightarrow>
     (case rq_header request ''X-Request-ID'' of None \<Rightarrow> \<exists>u. rid = uuid_str u | Some r \<Rightarrow> rid = r)"

lemma wp_request_id:
  assumes "lawful_server srv obs"
  shows "wp (request_id srv request) (\<lambda>rid w'. names_request request rid \<and> obs w' = obs w) (\<lambda>_ _. False) w"
  unfolding request_id_def wp_bind wp_return
  by (rule wp_mono [OF server_laws(1) [OF assms]]) (auto simp: names_request_def split: option.split)

lemma wp_keeps_obs:
  assumes "wp m (\<lambda>_ w'. obs w' = obs w) (\<lambda>_ _. False) w" and "\<And>a w'. obs w' = obs w \<Longrightarrow> Q a w'"
  shows "wp m Q E w"
  by (rule wp_mono [OF assms(1)]) (use assms(2) in auto)

lemma wp_dispatch_as:
  assumes srv: "lawful_server srv obs"
    and nxt: "\<And>w'. obs w' = obs w \<Longrightarrow> wp (call_next (request_vars rid)) (\<lambda>r w'. Q r (obs w')) (\<lambda>e w'. E e (obs w')) w'"
  shows "wp (dispatch_as srv request call_next rid)
    (\<lambda>resp w'. \<exists>r ms. Q r (obs w') \<and> resp = r\<lparr>rs_headers :=
       set_header ''X-Response-Time-Ms'' ms (set_header ''X-Request-ID'' rid (rs_headers r))\<rparr>)
    (\<lambda>e w'. E e (obs w')) w"
  unfolding dispatch_as_def Let_def
proof (subst wp_bind, rule wp_keeps_obs [OF server_laws(2) [OF srv]], goal_cases)
  case (1 start w1)
  show ?case
  proof (subst wp_bind, subst wp_catch, rule wp_mono [OF nxt [OF 1]], goal_cases)
    case (1 r w2)
    show ?case
      unfolding wp_bind wp_return
      by (rule wp_keeps_obs [OF server_laws(2) [OF srv]], rule wp_keeps_obs [OF server_laws(3) [OF srv]])
        (use 1 in auto)
  next
    case (2 e w2)
    show ?case
      unfolding wp_bind wp_raise
      by (rule wp_keeps_obs [OF server_laws(2) [OF srv]], rule wp_keeps_obs [OF server_laws(3) [OF srv]])
        (use 2 in auto)
  qed
qed

lemma wp_serve:
  assumes srv: "lawful_server srv obs"
    and ep: "\<And>rid w'. obs w' = obs w \<Longrightarrow> wp (endpoint (request_vars rid)) (\<lambda>r w'. Q r (obs w')) (\<lambda>e w'. E e (obs w')) w'"
  shows "wp (serve srv request endpoint)
    (\<lambda>resp w'. \<exists>rid. names_request request rid \<and> answers rid (\<lambda>r. Q r (obs w')) (\<lambda>e. E e (obs w')) resp)
    (\<lambda>_ _. False) w"
  unfolding serve_def
proof (subst wp_bind, rule wp_mono [OF wp_request_id [OF srv]], goal_cases)
  case (1 rid w1)
  then have o: "obs w1 = obs w" by simp
  let ?render = "\<lambda>e. json_response (handle_exception rid e)"
  let ?Q = "\<lambda>r v. Q r v \<or> (\<exists>e. E e v \<and> (\<forall>l. e \<noteq> Library l) \<and> r = ?render e)"
  let ?inner = "\<lambda>cv. py_catch (endpoint cv) (\<lambda>e. case e of
        Library l \<Rightarrow> py_raise e
      | _ \<Rightarrow> py_return (json_response (handle_exception (ctx_get (cv_request_id cv) ''-'') e)))"
  have inner: "wp (?inner (request_vars rid))
      (\<lambda>r w'. ?Q r (obs w')) (\<lambda>e w'. \<exists>l. e = Library l \<and> E e (obs w')) w'" if "obs w' = obs w1" for w'
    unfolding wp_catch
    by (rule wp_mono [OF ep], use that o in simp)
      (auto simp: request_vars_def ctx_get_def wp_simps split: exn.split)
  note D = wp_dispatch_as [of srv obs w1 ?inner rid ?Q "\<lambda>e v. \<exists>l. e = Library l \<and> E e v", OF srv inner]
  show ?case
  proof (subst wp_catch, rule wp_mono [OF D], goal_cases)
    case (2 resp w2)
    then obtain r ms where r: "?Q r (obs w2)" "resp = r\<lparr>rs_headers :=
        set_header ''X-Response-Time-Ms'' ms (set_header ''X-Request-ID'' rid (rs_headers r))\<rparr>" by blast
    then have "answers rid (\<lambda>r. Q r (obs w2)) (\<lambda>e. E e (obs w2)) resp"
      unfolding answers_def by (elim disjE) (auto simp: json_response_def)
    with 1 show ?case by blast
  next
    case (3 e w2)
    then obtain l where e: "e = Library l" "E e (obs w2)" by blast
    then have "answers rid (\<lambda>r. Q r (obs w2)) (\<lambda>e. E e (obs w2)) (?render e)"
      unfolding answers_def by (intro disjI2 exI [of _ l]) simp
    with 1 show ?case
      unfolding wp_bind wp_return by (intro wp_keeps_obs [OF server_laws(3) [OF srv]]) auto
  qed simp
qed simp

text \<open>The same for conditions on the world that look at no more of it than \<open>obs\<close>.\<close>

lemma wp_serve_world:
  assumes srv: "lawful_server srv obs"
    and ep: "\<And>rid w1. obs w1 = obs w \<Longrightarrow> wp (endpoint (request_vars rid)) Q E w1"
    and stable: "\<And>r w1 w2. obs w2 = obs w1 \<Longrightarrow> Q r w1 \<Longrightarrow> Q r w2" "\<And>e w1 w2. obs w2 = obs w1 \<Longrightarrow> E e w1 \<Longrightarrow> E e w2"
  shows "wp (serve srv request endpoint)
    (\<lambda>resp w'. \<exists>rid. names_request request rid \<and> answers rid (\<lambda>r. Q r w') (\<lambda>e. E e w') resp) (\<lambda>_ _. False) w"
proof -
  have Q: "(\<exists>w1. obs w1 = obs w' \<and> Q r w1) = Q r w'" and E: "(\<exists>w1. obs w1 = obs w' \<and> E e w1) = E e w'" for r e w'
    using stable by metis+
  have "wp (endpoint (request_vars rid)) (\<lambda>r w'. \<exists>w1. obs w1 = obs w' \<and> Q r w1) (\<lambda>e w'. \<exists>w1. obs w1 = obs w' \<and> E e w1) w1"
    if "obs w1 = obs w" for rid w1
    by (rule wp_mono [OF ep [OF that]]) blast+
  from wp_serve [OF srv, of w endpoint "\<lambda>r v. \<exists>w1. obs w1 = v \<and> Q r w1" "\<lambda>e v. \<exists>w1. obs w1 = v \<and> E e w1", OF this]
  show ?thesis by (simp only: Q E)
qed

end
