(* ===== verification/Rate_Limit.thy ===== *)
theory Rate_Limit
  imports Http Cache
begin

text \<open>
  \<open>app/middleware/rate_limiter.py\<close> over \<open>check_rate_limit\<close> of the cache manager: a counter per
  caller and path that starts over when its key expires, and what it admits.
\<close>

section \<open>The dependency\<close>

text \<open>\<open>RateLimiter.__init__\<close> keeps the one number; the instances of the module.\<close>

record rate_limiter =
  rl_max_requests :: int

definition payment_rate_limit :: rate_limiter where
  "payment_rate_limit = \<lparr>rl_max_requests = 20\<rparr>"

definition balance_rate_limit :: rate_limiter where
  "balance_rate_limit = \<lparr>rl_max_requests = 200\<rparr>"

definition auth_rate_limit :: rate_limiter where
  "auth_rate_limit = \<lparr>rl_max_requests = 5\<rparr>"

definition limit_identifier :: "request \<Rightarrow> string" where
  "limit_identifier request =
     (case rq_state_user_id request of None \<Rightarrow> rq_client_host request | Some u \<Rightarrow> uuid_str u)"

definition limit_exceeded :: "rate_limiter \<Rightarrow> exn" where
  "limit_exceeded rl = HTTPExc 429
     (''Rate limit exceeded: max '' @ int_str (rl_max_requests rl) @ '' requests per minute'')
     [(''Retry-After'', ''60'')]"

definition rate_limit :: "rate_limiter \<Rightarrow> request \<Rightarrow> 'w redis \<Rightarrow> ('w, unit) io" where
  "rate_limit rl request redis_client =
     py_bind (check_rate_limit redis_client (limit_identifier request) (rq_path request) (rl_max_requests rl))
       (\<lambda>allowed. if \<not> allowed then py_raise (limit_exceeded rl) else py_return ())"

section \<open>The counter\<close>

lemma parse_digits_nat_str [simp]: "parse_digits (nat_str n) = Some n"
  using nat_str_digits [of n] by (simp add: parse_digits_def text_simps list_all_iff)

text \<open>\<open>n\<close> requests counted, until the instant \<open>t\<close> (for good, when there is none).\<close>

definition counted :: "'w kv \<Rightarrow> 'w \<Rightarrow> string \<Rightarrow> nat \<Rightarrow> int option \<Rightarrow> bool" where
  "counted K w key n t \<longleftrightarrow> entries K w key = Some (nat_str n, t)"

definition still :: "'w kv \<Rightarrow> 'w \<Rightarrow> int option \<Rightarrow> bool" where
  "still K w t \<longleftrightarrow> (case t of None \<Rightarrow> True | Some e \<Rightarrow> clock K w < e)"

lemma counter_counted: "counted K w key n t \<Longrightarrow> still K w' t \<Longrightarrow> counter (clock K w') (entries K w key) = Some n"
  by (cases t) (simp_all add: counted_def still_def counter_def)

lemma live_entry_later: "live_entry now x = None \<Longrightarrow> now \<le> soon \<Longrightarrow> live_entry soon x = None"
  by (cases "(now, x)" rule: live_entry.cases) (auto split: if_splits)

text \<open>
  The first request of a window starts the counter and its lifetime; a later one counts on and
  leaves the end of the window where it was.
\<close>

lemma wp_first_request:
  assumes law: "lawful_redis rd K" and ex: "exclusive K" and up: "redis_up rd" and none: "live K w (key_rate_limit i ep) = None"
  shows "wp (check_rate_limit rd i ep mx)
    (\<lambda>r w'. r = (1 \<le> mx) \<and> clock K w \<le> clock K w' \<and>
       (\<exists>t. counted K w' (key_rate_limit i ep) 1 (Some t) \<and> clock K w + TTL_RATE_LIMIT \<le> t \<and>
          t \<le> clock K w' + TTL_RATE_LIMIT))
    (\<lambda>_ _. False) w"
  unfolding check_rate_limit_def Let_def wp_catch wp_bind
proof (rule wp_mono [OF redis_laws(5) [OF law]], goal_cases)
  case (1 r w1)
  let ?k = "key_rate_limit i ep"
  have n: "live_entry (clock K w1) (entries K w ?k) = None"
    using none 1 unfolding live_def by (blast intro: live_entry_later dest: kv_step_clock)
  then have r: "r = 1" and e: "entries K w1 ?k = Some (nat_str 1, None)" and c: "clock K w \<le> clock K w1"
    using 1 by (auto simp: counter_def incr_key_def kv_step_exclusive [OF ex])
  show ?case
    unfolding r wp_if if_P [OF refl] wp_return
    by (rule wp_mono [OF redis_laws(6) [OF law]])
      (use up e c in \<open>auto simp: up_returns kv_step_exclusive [OF ex] expire_key_def counted_def\<close>)
next
  case (2 e w1)
  with up show ?case by (simp add: up_returns)
qed

lemma wp_next_request:
  assumes law: "lawful_redis rd K" and ex: "exclusive K" and up: "redis_up rd" and cnt: "counted K w (key_rate_limit i ep) n t" and n: "0 < n"
  shows "wp (check_rate_limit rd i ep mx)
    (\<lambda>r w'. clock K w \<le> clock K w' \<and> (still K w' t \<longrightarrow>
       r = (int n < mx) \<and> counted K w' (key_rate_limit i ep) (Suc n) t))
    (\<lambda>_ _. False) w"
  unfolding check_rate_limit_def Let_def wp_catch wp_bind
proof (rule wp_mono [OF redis_laws(5) [OF law]], goal_cases)
  case (1 r w1)
  let ?k = "key_rate_limit i ep"
  have later: "clock K w \<le> clock K w1" using 1 by (blast dest: kv_step_clock)
  show ?case
  proof (cases "still K w1 t")
    case True
    from 1 have step: "r = int (Suc n)" "kv_step K (incr_key ?k n (entries K w)) w w1"
      using counter_counted [OF cnt True] by simp_all
    have "live_entry (clock K w1) (entries K w ?k) \<noteq> None"
      using cnt True by (simp add: counted_def still_def split: option.splits)
    then have e: "counted K w1 ?k (Suc n) t"
      using step(2) cnt by (auto simp: counted_def incr_key_def kv_step_exclusive [OF ex])
    have r: "r = int (Suc n)" and c: "clock K w \<le> clock K w1" using step by (simp_all add: kv_step_clock)
    moreover note e
    moreover have "r \<noteq> 1" using r n by simp
    ultimately show ?thesis by (auto simp: wp_if wp_return)
  next
    case False
    then have late: "\<not> still K w2 t" if "clock K w1 \<le> clock K w2" for w2
      using that by (auto simp: still_def split: option.splits)
    show ?thesis
    proof (cases "r = 1")
      case True
      show ?thesis
        unfolding wp_if if_P [OF True] wp_return
        by (rule wp_mono [OF redis_laws(6) [OF law]])
          (use up late later in \<open>auto simp: up_returns kv_step_exclusive [OF ex]\<close>)
    next
      case False
      with late later show ?thesis by (simp add: wp_return)
    qed
  qed
next
  case (2 e w1)
  with up show ?case by (simp add: up_returns)
qed

text \<open>Whatever the server does, the check returns; a failure admits the request.\<close>

lemma wp_check_returns:
  assumes law: "lawful_redis rd K"
  shows "wp (check_rate_limit rd i ep mx) (\<lambda>_ w'. clock K w \<le> clock K w') (\<lambda>_ _. False) w"
  unfolding check_rate_limit_def Let_def wp_catch wp_bind wp_return
proof (rule wp_mono [OF redis_laws(5) [OF law]], goal_cases)
  case (1 r w1)
  have "wp (redis_expire rd k TTL_RATE_LIMIT) (\<lambda>_ w'. clock K w1 \<le> clock K w') (\<lambda>_ w'. clock K w1 \<le> clock K w') w1" for k
    by (rule wp_mono [OF redis_laws(6) [OF law]]) (auto simp: kv_failed_def dest!: kv_step_clock)
  then have "wp (if r = 1 then redis_expire rd k TTL_RATE_LIMIT else py_return ())
      (\<lambda>_ w'. clock K w1 \<le> clock K w') (\<lambda>_ w'. clock K w1 \<le> clock K w') w1" for k
    by (simp add: wp_return)
  from this show ?case
  proof (rule wp_mono)
    have "clock K w \<le> clock K w1" using 1 by (blast dest: kv_step_clock)
    then show "clock K w1 \<le> clock K w' \<Longrightarrow> clock K w \<le> clock K w'" "clock K w1 \<le> clock K w' \<Longrightarrow> clock K w \<le> clock K w'" for w'
      by simp_all
  qed
qed (blast dest: kv_step_clock)

lemma check_fails_open:
  "redis_incr rd (key_rate_limit i ep) w = (Inl e, w') \<Longrightarrow> check_rate_limit rd i ep mx w = (Inr True, w')"
  by (simp add: check_rate_limit_def Let_def py_catch_def py_bind_def py_return_def)

section \<open>A burst of requests\<close>

text \<open>The answers to \<open>n\<close> checks in a row.\<close>

primrec burst :: "'w redis \<Rightarrow> string \<Rightarrow> string \<Rightarrow> int \<Rightarrow> nat \<Rightarrow> ('w, bool list) io" where
  "burst rd i ep mx 0 = py_return []"
| "burst rd i ep mx (Suc n) =
     py_bind (check_rate_limit rd i ep mx) (\<lambda>r. py_bind (burst rd i ep mx n) (\<lambda>rs. py_return (r # rs)))"

lemma wp_burst_clock:
  assumes law: "lawful_redis rd K"
  shows "wp (burst rd i ep mx n) (\<lambda>_ w'. clock K w \<le> clock K w') (\<lambda>_ _. False) w"
proof (induction n arbitrary: w)
  case (Suc n)
  show ?case
    unfolding burst.simps wp_bind wp_return
  proof (rule wp_mono [OF wp_check_returns [OF law]], goal_cases)
    case (1 r w1)
    show ?case by (rule wp_mono [OF Suc.IH]) (use 1 in auto)
  qed simp
qed (simp add: wp_simps)

lemma wp_burst_on:
  assumes law: "lawful_redis rd K" and ex: "exclusive K" and up: "redis_up rd"
  shows "counted K w (key_rate_limit i ep) k t \<Longrightarrow> 0 < k \<Longrightarrow>
    wp (burst rd i ep mx n)
      (\<lambda>rs w'. clock K w \<le> clock K w' \<and> (still K w' t \<longrightarrow>
         rs = map (\<lambda>j. int j < mx) [k..<k + n] \<and> counted K w' (key_rate_limit i ep) (k + n) t)) (\<lambda>_ _. False) w"
proof (induction n arbitrary: w k)
  case 0
  then show ?case by (simp add: wp_simps)
next
  case (Suc n)
  show ?case
    unfolding burst.simps
  proof (subst wp_bind, rule wp_mono [OF wp_next_request [OF law ex up Suc.prems, of mx]], goal_cases)
    case (1 r w1)
    show ?case
    proof (cases "still K w1 t")
      case True
      with 1 have c1: "counted K w1 (key_rate_limit i ep) (Suc k) t" and r: "r = (int k < mx)" by simp_all
      show ?thesis
        unfolding wp_bind wp_return
        by (rule wp_mono [OF Suc.IH [OF c1]]) (use 1 r in \<open>auto simp: upt_conv_Cons\<close>)
    next
      case False
      have never: "\<not> still K w2 t" if "clock K w1 \<le> clock K w2" for w2
        using that False by (auto simp: still_def split: option.splits)
      show ?thesis
        unfolding wp_bind wp_return
        by (rule wp_mono [OF wp_burst_clock [OF law]]) (use 1 never in auto)
    qed
  qed simp
qed

text \<open>
  A burst that ends within a minute of its first request is admitted up to the limit and no
  further; a key that lost its expiry (the server failed between \<open>INCR\<close> and \<open>EXPIRE\<close>) blocks its
  caller for good.
\<close>

lemma wp_burst:
  assumes law: "lawful_redis rd K" and ex: "exclusive K" and up: "redis_up rd" and none: "live K w (key_rate_limit i ep) = None"
  shows "wp (burst rd i ep mx n)
    (\<lambda>rs w'. clock K w' < clock K w + TTL_RATE_LIMIT \<longrightarrow> rs = map (\<lambda>j. int j < mx) [0..<n]) (\<lambda>_ _. False) w"
proof (cases n)
  case 0
  then show ?thesis by (simp add: wp_simps)
next
  case (Suc m)
  show ?thesis
    unfolding Suc burst.simps
  proof (subst wp_bind, rule wp_mono [OF wp_first_request [OF law ex up none, of mx]], goal_cases)
    case (1 r w1)
    then obtain t where t: "counted K w1 (key_rate_limit i ep) 1 (Some t)" "clock K w + TTL_RATE_LIMIT \<le> t"
      by blast
    show ?case
      unfolding wp_bind wp_return
      by (rule wp_mono [OF wp_burst_on [OF law ex up t(1)]])
        (use 1 t(2) in \<open>auto simp: still_def upt_conv_Cons\<close>)
  qed simp
qed

lemma wp_burst_blocked:
  assumes law: "lawful_redis rd K" and ex: "exclusive K" and up: "redis_up rd"
    and cnt: "counted K w (key_rate_limit i ep) k None" and k: "0 < k" "mx \<le> int k"
  shows "wp (burst rd i ep mx n) (\<lambda>rs w'. rs = replicate n False) (\<lambda>_ _. False) w"
  by (rule wp_mono [OF wp_burst_on [OF law ex up cnt k(1)]])
    (use k(2) in \<open>auto simp: still_def intro!: nth_equalityI\<close>)

text \<open>The dependency raises for a request exactly when its check says no.\<close>

lemma wp_rate_limit:
  "wp (check_rate_limit rd (limit_identifier request) (rq_path request) (rl_max_requests rl))
     (\<lambda>r w'. if r then Q () w' else E (limit_exceeded rl) w') E w \<Longrightarrow>
   wp (rate_limit rl request rd) Q E w"
  unfolding rate_limit_def wp_bind by (erule wp_mono) (simp_all add: wp_simps)

end
