(* ===== verification/User_Service.thy ===== *)
theory User_Service
  imports Security Schemas Repositories Ledger
begin

text \<open>
  \<open>app/services/user_service.py\<close>: registration of a user together with a wallet, login and the
  profile; with the refinement of registration to one ledger step.
\<close>

section \<open>The methods\<close>

definition register :: "'w session \<Rightarrow> 'w security \<Rightarrow> user_create_data \<Rightarrow> ('w, user_response) io" where
  "register db sec data =
     py_bind (user_get_by_email db (uc_email data)) (\<lambda>existing.
       case existing of
         Some _ \<Rightarrow> raise_domain (UserAlreadyExistsException (uc_email data))
       | None \<Rightarrow>
           py_bind (hash_password sec (uc_password data)) (\<lambda>password_hash.
           py_bind (user_create db \<lparr>nu_email = uc_email data, nu_password_hash = password_hash,
                      nu_full_name = uc_full_name data\<rparr>) (\<lambda>user.
           py_bind (user_attrs db user) (\<lambda>u.
           py_bind (wallet_create db (u_id u)) (\<lambda>_.
           py_bind (commit_tx db) (\<lambda>_.
           py_bind (refresh_user db user) (\<lambda>_.
           py_bind (user_attrs db user) (\<lambda>u.
             py_return (user_response_of u)))))))))"

definition login :: "'w session \<Rightarrow> 'w security \<Rightarrow> settings \<Rightarrow> user_login \<Rightarrow> ('w, token_response) io" where
  "login db sec settings data =
     py_bind (user_get_by_email db (ul_email data)) (\<lambda>user.
       case user of
         None \<Rightarrow> raise_domain (UserNotFoundException '''')
       | Some k \<Rightarrow>
           py_bind (user_attrs db k) (\<lambda>u.
           py_bind (verify_password sec (ul_password data) (u_password_hash u)) (\<lambda>verified.
             if \<not> verified then raise_domain (UserNotFoundException '''')
             else
               py_bind (create_access_token sec settings [(''sub'', JStr (uuid_str (u_id u)))] None) (\<lambda>token.
                 py_return (token_response_of token)))))"

definition get_user :: "'w session \<Rightarrow> uuid \<Rightarrow> ('w, user_response) io" where
  "get_user db user_id =
     py_bind (user_get_by_id db user_id) (\<lambda>user.
       case user of
         None \<Rightarrow> raise_domain (UserNotFoundException (uuid_str user_id))
       | Some k \<Rightarrow> py_bind (user_attrs db k) (\<lambda>u. py_return (user_response_of u)))"

section \<open>Others, around an uncommitted user\<close>

text \<open>
  A user that is not committed yet changes nothing for the others: their steps can be moved before it.
\<close>

definition unused_user :: "user \<Rightarrow> tables \<Rightarrow> bool" where
  "unused_user y t \<longleftrightarrow> users t (u_id y) = None \<and> (\<forall>j x. users t j = Some x \<longrightarrow> u_email x \<noteq> u_email y)"

lemma put_user_swap: "u_id x \<noteq> u_id y \<Longrightarrow> put_user x (put_user y t) = put_user y (put_user x t)"
  by (simp add: put_user_def fun_upd_twist)

lemma transfers_unput_user:
  assumes "transfers s r a currency key description (put_user y t) z T"
  shows "\<exists>T'. transfers s r a currency key description t z T' \<and> T = put_user y T' \<and> users T' = users t"
proof -
  obtain x x' where "T = put_txn z (put_wallet x' (put_wallet x (put_user y t)))"
    "transfers s r a currency key description t z (put_txn z (put_wallet x' (put_wallet x t)))"
    using transfers_frame [OF assms, of t] by auto
  then show ?thesis
    by (intro exI [of _ "put_txn z (put_wallet x' (put_wallet x t))"]) simp
qed

lemma ledger_step_unput_user:
  assumes "ledger_step L (put_user y t) u" and y: "unused_user y t"
  shows "\<exists>t'. ledger_step L t t' \<and> u = put_user y t' \<and> unused_user y t'"
  using assms(1)
proof cases
  case (transfer s r a currency key description z)
  then obtain T' where "transfers s r a currency key description t z T'" "u = put_user y T'" "users T' = users t"
    using transfers_unput_user by blast
  with transfer y show ?thesis
    by (intro exI [of _ T']) (auto simp: unused_user_def intro: ledger_step.transfer)
next
  case (top_up k x b ts)
  with y show ?thesis
    using ledger_step.top_up [of t k x L b ts]
    by (intro exI [of _ "put_wallet (rebalance b (w_version x + 1) ts x) t"]) (simp add: unused_user_def)
next
  case (register z k c d)
  have ne: "u_id z \<noteq> u_id y" "u_email z \<noteq> u_email y"
    using register(2,3) by (auto split: if_splits)
  have "users t (u_id z) = None" "\<forall>j x. users t j = Some x \<longrightarrow> u_email x \<noteq> u_email z"
    using register(2,3) ne y by (auto simp: unused_user_def split: if_splits) (metis option.distinct(1))
  then have "ledger_step L t (put_wallet (wallet_row k c d (u_id z)) (put_user z t))"
    using register ledger_step.register [of t z k L c d] by simp
  with register ne y show ?thesis
    by (intro exI [of _ "put_wallet (wallet_row k c d (u_id z)) (put_user z t)"])
      (auto simp: unused_user_def put_user_swap [of z y])
qed

lemma others_unput_user:
  assumes "others L (put_user y t) u" and y: "unused_user y t"
  shows "\<exists>t'. others L t t' \<and> u = put_user y t' \<and> unused_user y t'"
  using assms(1) unfolding others_def
proof (induction rule: rtranclp_induct)
  case base
  then show ?case using y by blast
next
  case (step u v)
  then obtain t' where t': "(ledger_step L)\<^sup>*\<^sup>* t t'" "u = put_user y t'" "unused_user y t'" by blast
  with step.hyps(2) obtain v' where "ledger_step L t' v'" "v = put_user y v'" "unused_user y v'"
    using ledger_step_unput_user by blast
  with rtranclp.rtrancl_into_rtrancl [OF t'(1)] show ?case by blast
qed

text \<open>What registration needs of the other sessions: the ones of the ledger do it, and no one at all does.\<close>

definition moves_users :: "rely \<Rightarrow> bool" where
  "moves_users R \<longleftrightarrow> (\<forall>L y t u. R L (put_user y t) u \<longrightarrow> unused_user y t \<longrightarrow>
     (\<exists>t'. R L t t' \<and> u = put_user y t' \<and> unused_user y t'))"

lemma moves_users_others: "moves_users others"
  unfolding moves_users_def using others_unput_user by blast

lemma moves_users_alone: "moves_users alone"
  by (simp add: moves_users_def alone_def)

section \<open>Registration is one step of the ledger\<close>

definition obs_db :: "'w absn \<Rightarrow> 'w \<Rightarrow> _" where
  "obs_db V w = (view V w, durable V w, locked V w, loaded_user V w, loaded_wallet V w, loaded_txn V w, dirty V w)"

lemma obs_dbD:
  assumes "obs_db V w' = obs_db V w"
  shows "view V w' = view V w" "durable V w' = durable V w" "locked V w' = locked V w"
    "loaded_user V w' = loaded_user V w" "loaded_wallet V w' = loaded_wallet V w"
    "loaded_txn V w' = loaded_txn V w" "dirty V w' = dirty V w"
  using assms by (simp_all add: obs_db_def)

definition registered :: "'w absn \<Rightarrow> rely \<Rightarrow> user \<Rightarrow> 'w \<Rightarrow> 'w \<Rightarrow> bool" where
  "registered V R y w w' \<longleftrightarrow>
     (\<exists>t k c d. R {} (durable V w) t \<and> unused_user y t \<and> wallets t k = None \<and>
        R {} (put_wallet (wallet_row k c d (u_id y)) (put_user y t)) (durable V w'))"

lemma registered_others: "registered V others y w w' \<Longrightarrow> others {} (durable V w) (durable V w')"
proof -
  assume "registered V others y w w'"
  then obtain t k c d where h: "others {} (durable V w) t" "unused_user y t" "wallets t k = None"
      "others {} (put_wallet (wallet_row k c d (u_id y)) (put_user y t)) (durable V w')"
    unfolding registered_def by blast
  have "others {} t (put_wallet (wallet_row k c d (u_id y)) (put_user y t))"
    by (rule others_step, rule ledger_step.register) (use h in \<open>auto simp: unused_user_def\<close>)
  with h show ?thesis by (meson others_trans)
qed

text \<open>The new row answers to the request.\<close>

definition user_for :: "'w security \<Rightarrow> user_create_data \<Rightarrow> user \<Rightarrow> bool" where
  "user_for sec data y \<longleftrightarrow> u_email y = uc_email data \<and> u_full_name y = uc_full_name data \<and> u_is_active y \<and>
     pwd_verify sec (uc_password data) (u_password_hash y) = Inr True"

text \<open>The state between the two inserts and the commit: the user and the wallet written.\<close>

definition enrolled :: "'w absn \<Rightarrow> rely \<Rightarrow> user \<Rightarrow> 'w \<Rightarrow> 'w \<Rightarrow> bool" where
  "enrolled V R y w w' \<longleftrightarrow> R {} (durable V w) (durable V w') \<and> \<not> dirty V w' \<and>
     users (view V w') (u_id y) = Some y \<and>
     (\<exists>t k c d. R {} (durable V w) t \<and> unused_user y t \<and> wallets t k = None \<and>
        R {} (put_wallet (wallet_row k c d (u_id y)) (put_user y t)) (view V w'))"

lemma wp_user_attrs:
  assumes "lawful_session db V R"
  shows "wp (user_attrs db k) Q E w =
    (case loaded_user V w k of None \<Rightarrow> E (Library MissingGreenlet) w | Some x \<Rightarrow> Q x w)"
  using lawful_laws(11) [OF assms] by (simp add: law_attrs_def wp_def split: option.split)

lemma wp_enrol:
  assumes law: "lawful_session db V R" and mv: "moves_users R" and clean: "\<not> dirty V w"
    and v: "R {} (durable V w0) (view V w)" and d: "R {} (durable V w0) (durable V w)"
  shows "wp (py_bind (insert_user db n) (\<lambda>k. py_bind (user_attrs db k) (\<lambda>u.
           py_bind (insert_wallet db (u_id u)) (\<lambda>_. py_return k))))
    (\<lambda>k w'. \<exists>c u. let y = user_row k c u n in enrolled V R y w0 w' \<and> u_id y = k)
    (\<lambda>e. failed V R e w0) w"
proof -
  note R = lawful_rely [OF law]
  note U = lawful_laws(6) [OF law, unfolded law_insert_user_def Let_def, rule_format, OF clean]
  show ?thesis
    unfolding wp_bind wp_return
  proof (rule wp_mono [OF U], goal_cases)
    case (1 k w1)
    then obtain c u where new: "users (view V w) k = None"
        "\<forall>j x. users (view V w) j = Some x \<longrightarrow> u_email x \<noteq> nu_email n"
      and step: "tx_step V R (locked V w) (put_user (user_row k c u n) (view V w)) w w1"
      and lu: "loaded_user V w1 = (loaded_user V w)(k \<mapsto> user_row k c u n)" by blast
    let ?y = "user_row k c u n"
    have y: "u_id ?y = k" "u_email ?y = nu_email n" by (simp_all add: user_row_def)
    have un: "unused_user ?y (view V w)" using new y by (simp add: unused_user_def)
    have s1: "R (locked V w) (put_user ?y (view V w)) (view V w1)" and d1: "R {} (durable V w0) (durable V w1)"
      and c1: "\<not> dirty V w1"
      using step clean rely_trans [OF R, OF d] by (auto simp: tx_step_def)
    obtain t where t: "R (locked V w) (view V w) t" "view V w1 = put_user ?y t" "unused_user ?y t"
      using mv s1 un unfolding moves_users_def by blast
    have t0: "R {} (durable V w0) t"
      using rely_trans [OF R, OF v] rely_shrink [OF R t(1)] by blast
    note W = lawful_laws(7) [OF law, unfolded law_insert_wallet_def Let_def, rule_format, OF c1]
    show ?case
      unfolding wp_user_attrs [OF law] lu fun_upd_same option.case
    proof (rule wp_mono [OF W], goal_cases)
      case (1 j w2)
      then obtain c' d' where j: "wallets (view V w1) j = None"
        and step2: "tx_step V R (insert j (locked V w1)) (put_wallet (wallet_row j c' d' (u_id ?y)) (view V w1)) w1 w2"
        by blast
      have s2: "R {} (put_wallet (wallet_row j c' d' (u_id ?y)) (put_user ?y t)) (view V w2)"
        using step2 t(2) rely_shrink [OF R] by (auto simp: tx_step_def)
      have "users (view V w2) k = Some ?y"
        by (rule rely_users [OF R s2]) (simp add: y)
      then have "enrolled V R ?y w0 w2"
        using step2 c1 t0 t(3) j s2 rely_trans [OF R, OF d1] y t(2) unfolding enrolled_def tx_step_def by auto
      with y show ?case by (auto simp: Let_def)
    next
      case (2 e w2)
      then show ?case using d1 rely_trans [OF R] by (auto simp: failed_def)
    qed
  next
    case (2 e w1)
    then show ?case using d rely_trans [OF R] by (auto simp: failed_def)
  qed
qed

lemma wp_commit_enrolled:
  assumes law: "lawful_session db V R" and en: "enrolled V R y w w1"
  shows "wp (py_bind (commit_tx db) (\<lambda>_. py_bind (refresh_user db (u_id y)) (\<lambda>_.
           py_bind (user_attrs db (u_id y)) (\<lambda>u. py_return (user_response_of u)))))
    (\<lambda>resp w'. resp = user_response_of y \<and> registered V R y w w')
    (\<lambda>e w'. db_error e \<and> (R {} (durable V w) (durable V w') \<or> registered V R y w w')) w1"
proof -
  note R = lawful_rely [OF law]
  obtain t k c d where d: "R {} (durable V w) (durable V w1)" and clean: "\<not> dirty V w1"
    and row: "users (view V w1) (u_id y) = Some y" and t: "R {} (durable V w) t" "unused_user y t" "wallets t k = None"
    and v: "R {} (put_wallet (wallet_row k c d (u_id y)) (put_user y t)) (view V w1)"
    using en unfolding enrolled_def by blast
  have reg: "registered V R y w w'" if "R {} (view V w1) (durable V w')" for w'
    using t rely_trans [OF R, OF v that] unfolding registered_def by blast
  note C = lawful_laws(8) [OF law, unfolded law_commit_def, rule_format, OF clean]
  show ?thesis
    unfolding wp_bind
  proof (rule wp_mono [OF C], goal_cases)
    case (1 u w2)
    then have c2: "\<not> dirty V w2" and v2: "R {} (view V w1) (view V w2)" "view V w2 = durable V w2" by simp_all
    note F = lawful_laws(10) [OF law, unfolded law_refresh_def, rule_format, OF c2, THEN conjunct2, THEN conjunct2]
    show ?case
    proof (rule wp_mono [OF F], goal_cases)
      case (1 u w3)
      then have "R {} (view V w1) (durable V w3)"
        using v2 rely_trans [OF R] by (auto simp: tx_step_def)
      moreover have "users (view V w2) (u_id y) = Some y" by (rule rely_users [OF R v2(1) row])
      ultimately show ?case
        using 1 reg by (auto simp: wp_user_attrs [OF law] wp_simps)
    next
      case (2 e w3)
      then show ?case using v2 reg rely_trans [OF R] by (auto simp: failed_def)
    qed
  next
    case (2 e w2)
    then show ?case using reg rely_trans [OF R, OF d] by blast
  qed
qed

lemma wp_find_user:
  assumes law: "lawful_session db V R" and fresh: "fresh_session V w"
  shows "wp (select_user db c)
    (\<lambda>r w'. R {} (durable V w) (durable V w') \<and> view V w' = durable V w' \<and> \<not> dirty V w' \<and>
       (case r of None \<Rightarrow> \<forall>k x. users (durable V w) k = Some x \<longrightarrow> \<not> user_matches c x
        | Some k \<Rightarrow> \<exists>x. users (durable V w) k = Some x \<and> u_id x = k \<and> user_matches c x \<and>
            loaded_user V w' k = Some x))
    (\<lambda>e. failed V R e w) w"
proof -
  have c: "\<not> dirty V w" and same: "view V w = durable V w" and l: "loaded_user V w = Map.empty"
    using fresh by (simp_all add: fresh_session_def)
  note L = lawful_laws(2) [OF law, unfolded law_select_user_def, rule_format, OF c]
  show ?thesis
    by (rule wp_mono [OF L]) (auto simp: tx_step_def same l c split: option.splits)
qed

text \<open>
  The duplicate check reads the rows of one moment, the insert those of a later one, so the request
  can also end in the integrity error of the unique column.
\<close>

lemma wp_register:
  assumes law: "lawful_session db V R" and mv: "moves_users R" and sec: "lawful_security sec (obs_db V)" and fresh: "fresh_session V w"
  shows "wp (register db sec data)
    (\<lambda>resp w'. \<exists>y. user_for sec data y \<and> resp = user_response_of y \<and> registered V R y w w')
    (\<lambda>e w'. R {} (durable V w) (durable V w') \<and>
         (db_error e \<or> e = Domain (UserAlreadyExistsException (uc_email data)) \<and>
            (\<exists>k x. users (durable V w) k = Some x \<and> u_email x = uc_email data) \<or>
          e = Library ValueError \<and> password_refused (uc_password data)) \<or>
       db_error e \<and> (\<exists>y. user_for sec data y \<and> registered V R y w w')) w"
proof -
  have rearrange: "py_bind (insert_user db n) (\<lambda>k. py_bind (user_attrs db k) (\<lambda>u.
        py_bind (insert_wallet db (u_id u)) (\<lambda>_. rest k))) =
      py_bind (py_bind (insert_user db n) (\<lambda>k. py_bind (user_attrs db k) (\<lambda>u.
        py_bind (insert_wallet db (u_id u)) (\<lambda>_. py_return k)))) rest" for n and rest :: "uuid \<Rightarrow> ('a, user_response) io"
    by (rule ext) (simp add: py_bind_def py_return_def split: prod.split sum.split)
  show ?thesis
    unfolding register_def user_get_by_email_def user_create_def wallet_create_def hash_password_def
  proof (subst wp_bind, rule wp_mono [OF wp_find_user [OF law fresh]], goal_cases)
    case (1 r w1)
    then have d1: "R {} (durable V w) (durable V w1)" and s1: "view V w1 = durable V w1" and c1: "\<not> dirty V w1"
      by simp_all
    show ?case
    proof (cases r)
      case (Some k)
      with 1 show ?thesis by (auto simp: wp_simps)
    next
      case None
      show ?thesis
        unfolding None option.case
      proof (subst wp_bind, rule wp_mono [OF security_laws(1) [OF sec]], goal_cases)
        case (1 h w2)
        note o = obs_dbD [OF conjunct2 [OF 1(2)]]
        let ?n = "\<lparr>nu_email = uc_email data, nu_password_hash = h, nu_full_name = uc_full_name data\<rparr>"
        have c2: "\<not> dirty V w2" and d2: "R {} (durable V w) (durable V w2)" and v2: "R {} (durable V w) (view V w2)"
          using c1 d1 s1 o by simp_all
        have ok: "user_for sec data (user_row k c u ?n)" for k c u
          using 1 by (simp add: user_for_def user_row_def)
        show ?case
          unfolding rearrange
        proof (subst wp_bind, rule wp_mono [OF wp_enrol [OF law mv c2 v2 d2, of ?n]], goal_cases)
          case (1 k w3)
          then obtain y where en: "enrolled V R y w w3" and k: "u_id y = k" and u: "user_for sec data y"
            using ok by (auto simp: Let_def)
          show ?case
            using wp_commit_enrolled [OF law en] unfolding k
            by (rule wp_mono) (use u in blast)+
        next
          case (2 e w3)
          then show ?case by (simp add: failed_def)
        qed
      qed (use d1 in \<open>auto dest: obs_dbD(2)\<close>)
    qed
  next
    case (2 e w1)
    then show ?case by (auto simp: failed_def)
  qed
qed

section \<open>Login and profile\<close>

text \<open>
  Only the password decides: \<open>is_active\<close> is not looked at. An unknown address and a wrong password
  are answered alike; a password that the verification refuses to look at raises, but only where there is a
  row with the address.
\<close>

lemma wp_login:
  assumes law: "lawful_session db V R" and sec: "lawful_security sec (obs_db V)" and fresh: "fresh_session V w"
  shows "wp (login db sec st data)
    (\<lambda>resp w'. R {} (durable V w) (durable V w') \<and>
       (\<exists>x issued. users (durable V w) (u_id x) = Some x \<and> u_email x = ul_email data \<and>
          pwd_verify sec (ul_password data) (u_password_hash x) = Inr True \<and>
          resp = token_response_of (login_token sec st issued (u_id x))))
    (\<lambda>e w'. R {} (durable V w) (durable V w') \<and>
       (db_error e \<or> e = Domain (UserNotFoundException '''') \<and>
          (\<forall>k x. users (durable V w) k = Some x \<longrightarrow> u_email x = ul_email data \<longrightarrow>
             (\<exists>y. users (durable V w) (u_id y) = Some y \<and> u_email y = ul_email data \<and>
               pwd_verify sec (ul_password data) (u_password_hash y) = Inr False)) \<or>
        e = Library ValueError \<and>
          (\<exists>y. users (durable V w) (u_id y) = Some y \<and> u_email y = ul_email data \<and>
             pwd_verify sec (ul_password data) (u_password_hash y) = Inl e))) w"
    (is "wp _ ?Q ?E w")
  unfolding login_def user_get_by_email_def
proof (subst wp_bind, rule wp_mono [OF wp_find_user [OF law fresh]], goal_cases)
  case (1 r w1)
  then have d1: "R {} (durable V w) (durable V w1)" by simp
  show ?case
  proof (cases r)
    case None
    with 1 show ?thesis by (auto simp: wp_simps)
  next
    case (Some k)
    with 1 obtain x where x: "users (durable V w) (u_id x) = Some x" "u_email x = ul_email data"
        "u_id x = k" "loaded_user V w1 k = Some x" by auto
    show ?thesis
    proof (cases "pwd_verify sec (ul_password data) (u_password_hash x)")
      case (Inl e)
      with x d1 security_laws(5) [OF sec Inl] show ?thesis
        by (auto simp: Some wp_bind wp_user_attrs [OF law] wp_raise verify_password_def)
    next
      case (Inr ok)
      show ?thesis
      proof (cases ok)
        case False
        with Inr x d1 show ?thesis
          by (auto simp: Some wp_bind wp_user_attrs [OF law] wp_if wp_raise wp_return verify_password_def)
      next
        case True
        have "wp (create_access_token sec st [(''sub'', JStr (uuid_str (u_id x)))] None)
            (\<lambda>t. wp (py_return (token_response_of t)) ?Q ?E) ?E w1"
          by (rule wp_mono [OF wp_create_login_token [OF sec]])
            (use True Inr x d1 in \<open>auto simp: wp_return dest: obs_dbD(2)\<close>)
        with True Inr x show ?thesis
          by (simp add: Some wp_bind wp_user_attrs [OF law] wp_if wp_return verify_password_def)
      qed
    qed
  qed
next
  case (2 e w1)
  then show ?case by (auto simp: failed_def)
qed

lemma wp_get_user:
  assumes law: "lawful_session db V R" and fresh: "fresh_session V w"
  shows "wp (get_user db k)
    (\<lambda>resp w'. R {} (durable V w) (durable V w') \<and> (\<exists>x. users (durable V w) k = Some x \<and> resp = user_response_of x))
    (\<lambda>e w'. R {} (durable V w) (durable V w') \<and>
       (db_error e \<or> e = Domain (UserNotFoundException (uuid_str k)) \<and>
          (\<forall>j x. users (durable V w) j = Some x \<longrightarrow> u_id x \<noteq> k))) w"
  unfolding get_user_def user_get_by_id_def
  by (subst wp_bind, rule wp_mono [OF wp_find_user [OF law fresh]])
    (auto simp: wp_simps wp_user_attrs [OF law] failed_def split: option.splits)

end
