(* ===== verification/Wallet_Service.thy ===== *)
theory Wallet_Service
  imports Schemas Repositories Cache Payment_Safety Ledger
begin

text \<open>
  \<open>app/services/wallet_service.py\<close>: the cached balance reads and the top-up with its optimistic
  retry loop.
\<close>

section \<open>The methods\<close>

definition MAX_TOPUP_RETRIES :: nat where
  "MAX_TOPUP_RETRIES = 3"

definition get_wallet :: "'w session \<Rightarrow> uuid \<Rightarrow> 'w redis option \<Rightarrow> ('w, wallet_response) io" where
  "get_wallet db user_id redis_client =
     py_bind (wallet_get_by_user_id db user_id) (\<lambda>wallet.
       case wallet of
         None \<Rightarrow> raise_domain WalletNotFoundException
       | Some k \<Rightarrow>
           py_bind
             (case redis_client of
                None \<Rightarrow> py_return ()
              | Some rd \<Rightarrow>
                  py_bind (wallet_attrs db k) (\<lambda>x.
                  py_bind (get_balance rd (w_id x)) (\<lambda>cached_balance.
                    case cached_balance of
                      Some b \<Rightarrow> set_wallet_balance db k b
                    | None \<Rightarrow>
                        py_bind (wallet_attrs db k) (\<lambda>x. set_balance rd (w_id x) (w_balance x)))))
             (\<lambda>_. py_bind (wallet_attrs db k) (\<lambda>x. py_return (wallet_response_of x))))"

definition get_balance_fast :: "'w session \<Rightarrow> uuid \<Rightarrow> 'w redis option \<Rightarrow> ('w, decimal) io" where
  "get_balance_fast db user_id redis_client =
     (case redis_client of
        Some rd \<Rightarrow>
          py_bind (wallet_get_by_user_id db user_id) (\<lambda>wallet.
            case wallet of
              None \<Rightarrow> raise_domain WalletNotFoundException
            | Some k \<Rightarrow>
                py_bind (wallet_attrs db k) (\<lambda>x.
                py_bind (get_balance rd (w_id x)) (\<lambda>cached.
                  case cached of
                    Some b \<Rightarrow> py_return b
                  | None \<Rightarrow>
                      py_bind (wallet_attrs db k) (\<lambda>x.
                      py_bind (set_balance rd (w_id x) (w_balance x)) (\<lambda>_.
                      py_bind (wallet_attrs db k) (\<lambda>x. py_return (w_balance x)))))))
      | None \<Rightarrow>
          py_bind (wallet_get_by_user_id db user_id) (\<lambda>wallet.
            case wallet of
              None \<Rightarrow> raise_domain WalletNotFoundException
            | Some k \<Rightarrow> py_bind (wallet_attrs db k) (\<lambda>x. py_return (w_balance x))))"

text \<open>What follows a successful update.\<close>

definition finish_top_up :: "'w session \<Rightarrow> uuid \<Rightarrow> 'w redis option \<Rightarrow> ('w, wallet_response) io" where
  "finish_top_up db wallet redis_client =
     py_bind (commit_tx db) (\<lambda>_.
     py_bind
       (case redis_client of
          None \<Rightarrow> py_return ()
        | Some rd \<Rightarrow>
            py_bind (wallet_attrs db wallet) (\<lambda>x.
            py_bind (invalidate_balance rd (w_id x)) (\<lambda>_.
            py_bind (wallet_attrs db wallet) (\<lambda>x. invalidate_wallet_info rd (w_id x)))))
       (\<lambda>_.
     py_bind (refresh_wallet db wallet) (\<lambda>_.
     py_bind (wallet_attrs db wallet) (\<lambda>x. py_return (wallet_response_of x)))))"

text \<open>\<open>for attempt in range(1, MAX_TOPUP_RETRIES + 1)\<close> over the attempts left.\<close>

fun top_up_loop :: "'w session \<Rightarrow> uuid \<Rightarrow> decimal \<Rightarrow> 'w redis option \<Rightarrow> nat list \<Rightarrow> ('w, wallet_response) io" where
  "top_up_loop db user_id amount redis_client [] = raise_domain OptimisticLockException"
| "top_up_loop db user_id amount redis_client (attempt # rest) =
     py_bind (wallet_get_by_user_id db user_id) (\<lambda>wallet.
       case wallet of
         None \<Rightarrow> raise_domain WalletNotFoundException
       | Some k \<Rightarrow>
           py_bind (wallet_attrs db k) (\<lambda>x.
           let new_balance = dec_add (w_balance x) amount in
           py_bind (wallet_update_balance db (w_id x) new_balance (w_version x)) (\<lambda>updated.
             if updated then finish_top_up db k redis_client
             else
               py_bind (rollback_tx db) (\<lambda>_.
                 if attempt = MAX_TOPUP_RETRIES then raise_domain OptimisticLockException
                 else top_up_loop db user_id amount redis_client rest))))"

definition top_up :: "'w session \<Rightarrow> uuid \<Rightarrow> decimal \<Rightarrow> 'w redis option \<Rightarrow> ('w, wallet_response) io" where
  "top_up db user_id amount redis_client =
     top_up_loop db user_id amount redis_client [1..<MAX_TOPUP_RETRIES + 1]"

section \<open>Redis on the side\<close>

lemma wp_drop_quiet:
  assumes rd: "lawful_redis rd K" "redis_keeps_db rd V R"
  shows "wp (invalidate_balance rd k)
      (\<lambda>_ w'. db_quiet V R w w' \<and> (kv_step K (\<lambda>_. del_keys [key_balance k] (entries K w)) w w' \<or>
         \<not> redis_up rd \<and> kv_same K w w')) (\<lambda>_ _. False) w"
    and "wp (invalidate_wallet_info rd k)
      (\<lambda>_ w'. db_quiet V R w w' \<and> (kv_step K (\<lambda>_. del_keys [key_wallet_info k] (entries K w)) w w' \<or>
         \<not> redis_up rd \<and> kv_same K w w')) (\<lambda>_ _. False) w"
proof -
  have q: "wp (py_catch (redis_delete rd key) (\<lambda>_. py_return ())) (\<lambda>_ w'. db_quiet V R w w') (\<lambda>_ w'. db_quiet V R w w') w" for key
    unfolding wp_simps by (rule wp_quiet [OF redis_quiet(3) [OF rd(2)]])
  show "wp (invalidate_balance rd k)
      (\<lambda>_ w'. db_quiet V R w w' \<and> (kv_step K (\<lambda>_. del_keys [key_balance k] (entries K w)) w w' \<or>
         \<not> redis_up rd \<and> kv_same K w w')) (\<lambda>_ _. False) w"
    unfolding invalidate_balance_def
    by (rule wp_mono [OF wp_conj [OF wp_swallow_delete [OF rd(1)] q]]) auto
  show "wp (invalidate_wallet_info rd k)
      (\<lambda>_ w'. db_quiet V R w w' \<and> (kv_step K (\<lambda>_. del_keys [key_wallet_info k] (entries K w)) w w' \<or>
         \<not> redis_up rd \<and> kv_same K w w')) (\<lambda>_ _. False) w"
    unfolding invalidate_wallet_info_def
    by (rule wp_mono [OF wp_conj [OF wp_swallow_delete [OF rd(1)] q]]) auto
qed

lemma wp_get_balance_quiet:
  assumes rd: "lawful_redis rd K" "redis_keeps_db rd V R"
  shows "wp (get_balance rd k)
    (\<lambda>r w'. db_quiet V R w w' \<and> kv_same K w w' \<and>
       (r \<noteq> None \<longrightarrow> (\<exists>s. fetched K w w' (key_balance k) = Some s \<and> r = dec_parse s)))
    (\<lambda>_ _. False) w"
proof -
  have "wp (get_balance rd k) (\<lambda>_ w'. db_quiet V R w w') (\<lambda>_ w'. db_quiet V R w w') w"
    unfolding get_balance_def wp_simps
    by (rule wp_mono [OF wp_quiet [OF redis_quiet(1) [OF rd(2)]]]) (auto simp: wp_simps split: option.splits)
  from wp_conj [OF wp_get_balance [OF rd(1)] this] show ?thesis
    by (rule wp_mono) auto
qed

lemma wp_set_balance_quiet:
  assumes rd: "lawful_redis rd K" "redis_keeps_db rd V R"
  shows "wp (set_balance rd k b)
    (\<lambda>_ w'. db_quiet V R w w' \<and> (kv_step K (set_key (key_balance k) TTL_BALANCE (dec_str b) (entries K w)) w w' \<or>
       \<not> redis_up rd \<and> kv_same K w w')) (\<lambda>_ _. False) w"
proof -
  have "wp (set_balance rd k b) (\<lambda>_ w'. db_quiet V R w w') (\<lambda>_ w'. db_quiet V R w w') w"
    unfolding set_balance_def wp_simps by (rule wp_quiet [OF redis_quiet(2) [OF rd(2)]])
  from wp_conj [OF wp_swallow_set [OF rd(1)] this [unfolded set_balance_def]] show ?thesis
    unfolding set_balance_def by (rule wp_mono) auto
qed

section \<open>A top-up is one step of the ledger\<close>

definition topped_up ::
  "'w absn \<Rightarrow> rely \<Rightarrow> uuid \<Rightarrow> decimal \<Rightarrow> wallet \<Rightarrow> 'w \<Rightarrow> 'w \<Rightarrow> bool" where
  "topped_up V R user amount z w w' \<longleftrightarrow>
     (\<exists>t x b ts. R {} (durable V w) t \<and> wallets t (w_id x) = Some x \<and> w_user_id x = user \<and>
        numeric_column b \<and> cents b = cents (w_balance x) + cents amount \<and>
        z = rebalance b (w_version x + 1) ts x \<and> R {} (put_wallet z t) (durable V w'))"

text \<open>A server that answers, and no one else, has forgotten the balance of the wallet.\<close>

definition balance_dropped :: "'w kv \<Rightarrow> 'w redis option \<Rightarrow> uuid \<Rightarrow> 'w \<Rightarrow> bool" where
  "balance_dropped K rc k w \<longleftrightarrow>
     (\<forall>rd. rc = Some rd \<longrightarrow> redis_up rd \<longrightarrow> exclusive K \<longrightarrow> entries K w (key_balance k) = None)"

text \<open>The two deletions between the commit and the refresh: no failure of theirs is seen.\<close>

lemma wp_forget_wallet:
  assumes law: "lawful_session db V R" and cl: "client_ok rc K V R" and h2: "holds V k w2"
  shows "wp (case rc of None \<Rightarrow> py_return ()
        | Some rd \<Rightarrow> py_bind (wallet_attrs db k) (\<lambda>x. py_bind (invalidate_balance rd (w_id x)) (\<lambda>_.
            py_bind (wallet_attrs db k) (\<lambda>x. invalidate_wallet_info rd (w_id x)))))
      (\<lambda>_ w'. db_quiet V R w2 w' \<and> balance_dropped K rc k w') (\<lambda>_ _. False) w2"
proof (cases rc)
  case None
  then show ?thesis by (simp add: wp_simps db_quiet_refl [OF lawful_rely [OF law]] balance_dropped_def)
next
  case (Some rd)
  note R = lawful_rely [OF law]
  from Some cl have rd: "lawful_redis rd K" "redis_keeps_db rd V R" by simp_all
  from h2 obtain x where x: "loaded_wallet V w2 k = Some x" "w_id x = k" by (auto simp: holds_def)
  show ?thesis
    unfolding Some option.case wp_bind wp_wallet_attrs [OF law] x
  proof (rule wp_mono [OF wp_drop_quiet(1) [OF rd]], goal_cases)
    case (1 u w3)
    then have q: "db_quiet V R w2 w3" by simp
    have e: "redis_up rd \<longrightarrow> exclusive K \<longrightarrow> entries K w3 (key_balance k) = None"
      using 1 by (auto simp: kv_step_exclusive del_keys_def)
    show ?case
      unfolding db_quietD(5) [OF q] x option.case
    proof (rule wp_mono [OF wp_drop_quiet(2) [OF rd]], goal_cases)
      case (1 u w4)
      then show ?case
        using e db_quiet_trans [OF R q, of w4]
        by (auto simp: balance_dropped_def Some kv_step_exclusive del_keys_def)
    qed simp
  qed simp
qed

lemma wp_finish_top_up:
  assumes law: "lawful_session db V R" and cl: "client_ok rc K V R" and keep: "session_keeps_redis db K"
    and clean: "\<not> dirty V w1" and h: "holds V k w1" and z: "w_id z = k"
    and d: "R {} (durable V w) (durable V w1)" and v: "R {} (put_wallet z t) (view V w1)"
  shows "wp (finish_top_up db k rc)
    (\<lambda>resp w'. R {} (put_wallet z t) (durable V w') \<and> balance_dropped K rc k w' \<and>
       (\<exists>z'. later z z' \<and> resp = wallet_response_of z'))
    (\<lambda>e w'. db_error e \<and> (R {} (durable V w) (durable V w') \<or> R {} (put_wallet z t) (durable V w'))) w1"
proof -
  have R: "rely_ok R" using law by (rule lawful_rely)
  note C = lawful_laws(8) [OF law, unfolded law_commit_def, rule_format, OF clean]
  show ?thesis
    unfolding finish_top_up_def
  proof (subst wp_bind, rule wp_mono [OF C], goal_cases)
    case (1 u w2)
    then have v2: "R {} (put_wallet z t) (view V w2)" "view V w2 = durable V w2" and c2: "\<not> dirty V w2"
      and h2: "holds V k w2" and l2: "locked V w2 = {}"
      using rely_trans [OF R v] h by (auto simp: same_objects_def holds_def)
    show ?case
    proof (subst wp_bind, rule wp_mono [OF wp_forget_wallet [OF law cl h2]], goal_cases)
      case (1 u w3)
      then have q: "db_quiet V R w2 w3" and b3: "balance_dropped K rc k w3" by simp_all
      have c3: "\<not> dirty V w3" and v3: "R {} (put_wallet z t) (view V w3)" and s3: "R {} (put_wallet z t) (durable V w3)"
        using c2 v2 l2 db_quietD [OF q] rely_trans [OF R v2(1)] by simp_all
      note F = lawful_laws(10) [OF law, unfolded law_refresh_def, rule_format, OF c3, THEN conjunct1]
      show ?case
        unfolding wp_bind
      proof (rule wp_mono [OF wp_keeps_redis [OF keeps_redis_session(11) [OF keep] F]], goal_cases)
        case (1 u w4)
        then have "balance_dropped K rc k w4" using b3 by (auto simp: balance_dropped_def kv_step_exclusive)
        moreover from 1
        obtain x where x: "wallets (view V w3) k = Some x" "loaded_wallet V w4 = (loaded_wallet V w3)(k \<mapsto> x)"
          and d4: "R {} (durable V w3) (durable V w4)" by (auto simp: tx_step_def)
        moreover have "later z x" using rely_later [OF R v3, of k z] z x by auto
        moreover note x rely_trans [OF R s3 d4]
        ultimately show ?case
          by (auto simp: wp_wallet_attrs [OF law] wp_simps)
      next
        case (2 e w4)
        then show ?case using rely_trans [OF R s3] by (auto simp: failed_def)
      qed
    qed simp
  next
    case (2 e w2)
    then show ?case using rely_trans [OF R d] rely_trans [OF R v] by blast
  qed
qed

text \<open>The whole loop, from any state in which the session has written nothing.\<close>

definition top_up_failed :: "'w absn \<Rightarrow> rely \<Rightarrow> uuid \<Rightarrow> decimal \<Rightarrow> 'w \<Rightarrow> exn \<Rightarrow> 'w \<Rightarrow> bool" where
  "top_up_failed V R user amount w e w' \<longleftrightarrow>
     R {} (durable V w) (durable V w') \<and>
       (db_error e \<or> e = Domain WalletNotFoundException \<or> e = Domain OptimisticLockException) \<or>
     db_error e \<and> (\<exists>z. topped_up V R user amount z w w')"

lemma top_up_failed_refused:
  "rely_ok R \<Longrightarrow> R {} (durable V w) (durable V w1) \<Longrightarrow> failed V R e w1 w' \<Longrightarrow> top_up_failed V R user amount w e w'"
  using rely_trans [of R "{}" "durable V w" "durable V w1" "durable V w'"]
  by (simp add: top_up_failed_def failed_def)

lemma wp_rollback_fresh:
  assumes law: "lawful_session db V R"
  shows "wp (rollback_tx db) (\<lambda>_ w'. fresh_session V w' \<and> R {} (durable V w) (durable V w')) (\<lambda>e. failed V R e w) w"
  using lawful_laws(9) [OF law, unfolded law_rollback_def, rule_format, of w]
  by (rule wp_mono) (auto simp: fresh_session_def)

lemma wp_top_up_loop:
  assumes law: "lawful_session db V R" and cl: "client_ok rc K V R" and keep: "session_keeps_redis db K" and amt: "whole_cents amount"
    and ok: "snapshots_ok V w1" and same: "view V w1 = durable V w1" and d: "R {} (durable V w) (durable V w1)"
  shows "wp (top_up_loop db user amount rc ns)
    (\<lambda>resp w'. \<exists>z z'. topped_up V R user amount z w w' \<and> balance_dropped K rc (w_id z) w' \<and>
       later z z' \<and> resp = wallet_response_of z')
    (top_up_failed V R user amount w) w1"
  using ok same d
proof (induction ns arbitrary: w1)
  case Nil
  then show ?case by (simp add: wp_simps top_up_failed_def)
next
  case (Cons n ns)
  have R: "rely_ok R" using law by (rule lawful_rely)
  show ?case
    unfolding top_up_loop.simps wallet_get_by_user_id_def
  proof (subst wp_bind, rule wp_mono [OF wp_select_wallet [OF law Cons.prems(1)]], goal_cases)
    case (1 r w2)
    then have u: "unchanged V R w1 w2" by simp
    then have ok2: "snapshots_ok V w2" and d2: "R {} (durable V w) (durable V w2)" and v12: "R {} (view V w1) (view V w2)"
      and same2: "view V w2 = durable V w2"
      using Cons.prems(2) rely_trans [OF R Cons.prems(3)] by (simp_all add: unchanged_def)
    show ?case
    proof (cases r)
      case None
      then show ?thesis using d2 by (simp add: wp_simps top_up_failed_def)
    next
      case (Some k)
      with 1 obtain x0 y where y: "loaded_wallet V w2 k = Some y" and x0: "wallets (view V w1) k = Some x0"
          "w_user_id x0 = user" "later y x0" by auto
      have k: "w_id y = k" "numeric_column (w_balance y)" using snapshot_row [OF ok2 y] by blast+
      show ?thesis
        unfolding Some option.case wp_bind wp_wallet_attrs [OF law] y Let_def k(1)
      proof (rule wp_mono [OF wp_update_balance [OF law ok2 y]], goal_cases)
        case (1 updated w3)
        show ?case
        proof (cases updated)
          case True
          with 1 obtain x b ts where x: "wallets (view V w2) k = Some x" "w_id x = k" "w_balance x = w_balance y"
            and b: "numeric_18_2 (dec_add (w_balance y) amount) b"
            and wr: "wrote V R (rebalance b (w_version x + 1) ts x) w2 w3" by auto
          let ?z = "rebalance b (w_version x + 1) ts x"
          have v3: "R {} (put_wallet ?z (view V w2)) (view V w3)" and d3: "R {} (durable V w) (durable V w3)"
            and c3: "\<not> dirty V w3" and h3: "holds V k w3"
            using wr rely_weaken [OF R] rely_trans [OF R d2] x y holds_snapshot [of V w3 k]
            by (auto simp: wrote_def snapshots_ok_def)
          have "w_user_id x = user"
            using rely_later [OF R v12 x0(1)] x x0 laterD by auto
          moreover have "cents b = cents (w_balance x) + cents amount" "numeric_column b"
            using numeric_18_2_add [OF _ amt _ b] column_exact [OF k(2)] x b
            by (simp_all add: numeric_18_2_def numeric_column_def)
          ultimately have top: "topped_up V R user amount ?z w w'" if "R {} (put_wallet ?z (view V w2)) (durable V w')" for w'
            unfolding topped_up_def using d2 same2 x that
            by (intro exI [of _ "view V w2"] exI [of _ x] exI [of _ b] exI [of _ ts]) simp
          have z: "w_id ?z = k" using x by simp
          show ?thesis
            unfolding wp_if if_P [OF True]
          proof (rule wp_mono [OF wp_finish_top_up [OF law cl keep c3 h3 z d3 v3]], goal_cases)
            case (1 resp w4)
            then show ?case using top z by blast
          next
            case (2 e w4)
            then show ?case using top by (auto simp: top_up_failed_def)
          qed
        next
          case False
          with 1 have d3: "R {} (durable V w) (durable V w3)" using rely_trans [OF R d2] by simp
          show ?thesis
            unfolding if_not_P [OF False] wp_if wp_bind
          proof (rule wp_mono [OF wp_rollback_fresh [OF law]], goal_cases)
            case (1 u w4)
            then have f: "snapshots_ok V w4" "view V w4 = durable V w4" "R {} (durable V w) (durable V w4)"
              using rely_trans [OF R d3] by (auto simp: fresh_session_def snapshots_ok_def)
            show ?case
            proof (cases "n = MAX_TOPUP_RETRIES")
              case True
              with f show ?thesis by (simp add: wp_raise top_up_failed_def)
            next
              case False
              with Cons.IH [OF f] show ?thesis by simp
            qed
          next
            case (2 e w4)
            then show ?case using top_up_failed_refused [OF R d3] by blast
          qed
        qed
      next
        case (2 e w3)
        then show ?case using top_up_failed_refused [OF R d2] by blast
      qed
    qed
  next
    case (2 e w2)
    then show ?case using top_up_failed_refused [OF R Cons.prems(3)] by blast
  qed
qed

section \<open>Balance reads\<close>

text \<open>
  What a read answers: the wallet of one row of the user, with the balance of the row or the one
  found in the cache; other clients of the server may have put any text there. Nothing is committed.
\<close>

definition balance_seen :: "'w kv \<Rightarrow> 'w \<Rightarrow> wallet \<Rightarrow> decimal \<Rightarrow> bool" where
  "balance_seen K w x b \<longleftrightarrow> b = w_balance x \<or> \<not> exclusive K \<or>
     (\<exists>s t. entries K w (key_balance (w_id x)) = Some (s, t) \<and> dec_parse s = Some b)"

definition own_row :: "'w absn \<Rightarrow> uuid \<Rightarrow> 'w \<Rightarrow> wallet \<Rightarrow> bool" where
  "own_row V user w x \<longleftrightarrow> wallets (durable V w) (w_id x) = Some x \<and> w_user_id x = user"

lemma wp_own_wallet:
  assumes law: "lawful_session db V R" and keep: "session_keeps_redis db K" and fresh: "fresh_session V w"
  shows "wp (wallet_get_by_user_id db user)
    (\<lambda>r w'. R {} (durable V w) (durable V w') \<and> kv_same K w w' \<and> \<not> dirty V w' \<and>
       (case r of None \<Rightarrow> \<forall>k x. wallets (durable V w) k = Some x \<longrightarrow> w_user_id x \<noteq> user
        | Some k \<Rightarrow> \<exists>x. own_row V user w x \<and> w_id x = k \<and> loaded_wallet V w' k = Some x))
    (\<lambda>e w'. failed V R e w w' \<and> kv_same K w w') w"
proof -
  have ok: "snapshots_ok V w" and same: "view V w = durable V w" and l: "loaded_wallet V w = Map.empty"
    using fresh snapshots_ok_fresh by (simp_all add: fresh_session_def)
  show ?thesis
    unfolding wallet_get_by_user_id_def
  proof (rule wp_mono [OF wp_keeps_redis [OF keeps_redis_session(2) [OF keep] wp_select_wallet [OF law ok]]], goal_cases)
    case (1 r w')
    then show ?case
      by (auto simp: same l own_row_def unchanged_def snapshots_ok_def split: option.splits)
  qed simp
qed

lemma wp_cached_balance:
  assumes law: "lawful_session db V R" and rd: "lawful_redis rd K" "redis_keeps_db rd V R"
    and kv: "kv_same K w w1" and l: "loaded_wallet V w1 (w_id x) = Some x"
  shows "wp (get_balance rd (w_id x))
    (\<lambda>r w'. db_quiet V R w1 w' \<and> kv_same K w w' \<and> loaded_wallet V w' (w_id x) = Some x \<and>
       (\<forall>b. r = Some b \<longrightarrow> balance_seen K w x b)) (\<lambda>_ _. False) w1"
proof (rule wp_mono [OF wp_get_balance_quiet [OF rd]], goal_cases)
  case (1 r w')
  then have q: "db_quiet V R w1 w'" and kv': "kv_same K w w'" using kv_same_trans [OF kv] by blast+
  have "balance_seen K w x b" if "r = Some b" for b
  proof -
    from 1 that obtain s where s: "fetched K w1 w' (key_balance (w_id x)) = Some s" "dec_parse s = Some b" by auto
    show ?thesis
    proof (cases "exclusive K")
      case True
      with kv have "entries K w1 = entries K w" by (simp add: kv_step_exclusive)
      with fetched_entry [OF s(1)] s(2) show ?thesis by (auto simp: balance_seen_def)
    qed (simp add: balance_seen_def)
  qed
  with q kv' l show ?case by (simp add: db_quietD(5) [OF q])
qed simp

text \<open>A read leaves the cache alone or fills in the balance of the row.\<close>

definition cache_filled :: "'w kv \<Rightarrow> wallet \<Rightarrow> 'w \<Rightarrow> 'w \<Rightarrow> bool" where
  "cache_filled K x w w' \<longleftrightarrow> kv_same K w w' \<or>
     kv_step K (set_key (key_balance (w_id x)) TTL_BALANCE (dec_str (w_balance x)) (entries K w)) w w'"

lemma cache_filled_after:
  "kv_same K w w1 \<Longrightarrow> kv_same K w1 w' \<or>
     kv_step K (set_key (key_balance (w_id x)) TTL_BALANCE (dec_str (w_balance x)) (entries K w1)) w1 w' \<Longrightarrow>
   cache_filled K x w w'"
  unfolding cache_filled_def
  by (elim disjE, rule disjI1, erule (1) kv_same_trans, rule disjI2, erule (1) kv_step_after [OF value_wise_set])

lemma wp_assign_balance:
  assumes law: "lawful_session db V R" and keep: "session_keeps_redis db K" and l: "loaded_wallet V w k = Some x"
  shows "wp (set_wallet_balance db k b)
    (\<lambda>_ w'. loaded_wallet V w' = (loaded_wallet V w)(k \<mapsto> x\<lparr>w_balance := b\<rparr>) \<and> durable V w' = durable V w \<and>
       kv_same K w w') (\<lambda>_ _. False) w"
proof -
  have kv: "kv_same K w (snd (set_wallet_balance db k b w))"
    using keeps_redis_session(13) [OF keep] unfolding keeps_redis_def by blast
  obtain w' where "set_wallet_balance db k b w = (Inr (), w')"
      "loaded_wallet V w' = (loaded_wallet V w)(k \<mapsto> x\<lparr>w_balance := b\<rparr>)" "durable V w' = durable V w"
    using lawful_laws(12) [OF law, unfolded law_set_balance_def, rule_format, OF l, of b] by auto
  with kv show ?thesis by (simp add: wp_def)
qed

text \<open>The part of \<open>get_wallet\<close> between the lookup and the answer.\<close>

lemma wp_balance_from_cache:
  assumes law: "lawful_session db V R" and cl: "client_ok rc K V R" and keep: "session_keeps_redis db K"
    and kv: "kv_same K w w1" and l: "loaded_wallet V w1 k = Some x" and k: "w_id x = k"
  shows "wp (case rc of None \<Rightarrow> py_return ()
      | Some rd \<Rightarrow> py_bind (wallet_attrs db k) (\<lambda>x. py_bind (get_balance rd (w_id x)) (\<lambda>cached_balance.
          case cached_balance of
            Some b \<Rightarrow> set_wallet_balance db k b
          | None \<Rightarrow> py_bind (wallet_attrs db k) (\<lambda>x. set_balance rd (w_id x) (w_balance x)))))
    (\<lambda>_ w'. R {} (durable V w1) (durable V w') \<and> cache_filled K x w w' \<and>
       (\<exists>b. balance_seen K w x b \<and> loaded_wallet V w' k = Some (x\<lparr>w_balance := b\<rparr>))) (\<lambda>_ _. False) w1"
proof -
  have R: "rely_ok R" using law by (rule lawful_rely)
  have self: "x\<lparr>w_balance := w_balance x\<rparr> = x" "balance_seen K w x (w_balance x)" by (simp_all add: balance_seen_def)
  show ?thesis
  proof (cases rc)
    case None
    with l self rely_refl [OF R] kv show ?thesis
      by (auto simp: wp_simps cache_filled_def intro!: exI [of _ "w_balance x"])
  next
    case (Some rd)
    with cl have rd: "lawful_redis rd K" "redis_keeps_db rd V R" by simp_all
    note attrs = wp_wallet_attrs [OF law]
    have l': "loaded_wallet V w1 (w_id x) = Some x" using l k by simp
    show ?thesis
      unfolding Some option.case k [symmetric]
    proof (simp only: wp_bind attrs l' option.case, rule wp_mono [OF wp_cached_balance [OF law rd kv l']], goal_cases)
      case (1 c w2)
      then have l2: "loaded_wallet V w2 (w_id x) = Some x" and kv2: "kv_same K w w2" by simp_all
      have q: "R {} (durable V w1) (durable V w2)" by (rule db_quietD(1)) (use 1 in simp)
      show ?case
      proof (cases c)
        case (Some b)
        then have seen: "balance_seen K w x b" using 1 by simp
        show ?thesis
          unfolding Some option.case
          by (rule wp_mono [OF wp_assign_balance [OF law keep l2]])
            (use seen q in \<open>auto intro: cache_filled_after [OF kv2]\<close>)
      next
        case None
        show ?thesis
          unfolding None option.case wp_bind attrs l2
          by (rule wp_mono [OF wp_set_balance_quiet [OF rd]])
            (use l2 self rely_trans [OF R q] in \<open>auto simp: db_quietD intro!: exI [of _ "w_balance x"]
              intro: cache_filled_after [OF kv2]\<close>)
      qed
    qed simp
  qed
qed

lemma wp_get_wallet:
  assumes law: "lawful_session db V R" and cl: "client_ok rc K V R" and keep: "session_keeps_redis db K"
    and fresh: "fresh_session V w"
  shows "wp (get_wallet db user rc)
    (\<lambda>resp w'. R {} (durable V w) (durable V w') \<and>
       (\<exists>x b. own_row V user w x \<and> balance_seen K w x b \<and> cache_filled K x w w' \<and>
          resp = wallet_response_of (x\<lparr>w_balance := b\<rparr>)))
    (\<lambda>e w'. R {} (durable V w) (durable V w') \<and> kv_same K w w' \<and> (db_error e \<or> e = Domain WalletNotFoundException \<and>
       (\<forall>k x. wallets (durable V w) k = Some x \<longrightarrow> w_user_id x \<noteq> user))) w"
  unfolding get_wallet_def
proof (subst wp_bind, rule wp_mono [OF wp_own_wallet [OF law keep fresh]], goal_cases)
  case (1 r w1)
  have R: "rely_ok R" using law by (rule lawful_rely)
  from 1 have d1: "R {} (durable V w) (durable V w1)" and kv: "kv_same K w w1" by simp_all
  show ?case
  proof (cases r)
    case None
    with 1 show ?thesis by (simp add: wp_simps)
  next
    case (Some k)
    with 1 obtain x where x: "own_row V user w x" "w_id x = k" and l: "loaded_wallet V w1 k = Some x" by auto
    show ?thesis
      unfolding Some option.case
    proof (subst wp_bind, rule wp_mono [OF wp_balance_from_cache [OF law cl keep kv l x(2)]], goal_cases)
      case (1 u w2)
      then obtain b where b: "balance_seen K w x b" "loaded_wallet V w2 k = Some (x\<lparr>w_balance := b\<rparr>)"
        and d2: "R {} (durable V w1) (durable V w2)" and f: "cache_filled K x w w2" by blast
      show ?case
        unfolding wp_bind wp_return wp_wallet_attrs [OF law] b(2) option.case
        using x(1) b(1) f rely_trans [OF R d1 d2] by blast
    qed simp
  qed
next
  case (2 e w1)
  then show ?case by (simp add: failed_def)
qed

lemma wp_get_balance_fast:
  assumes law: "lawful_session db V R" and cl: "client_ok rc K V R" and keep: "session_keeps_redis db K"
    and fresh: "fresh_session V w"
  shows "wp (get_balance_fast db user rc)
    (\<lambda>b w'. R {} (durable V w) (durable V w') \<and>
       (\<exists>x. own_row V user w x \<and> balance_seen K w x b \<and> cache_filled K x w w'))
    (\<lambda>e w'. R {} (durable V w) (durable V w') \<and> kv_same K w w' \<and> (db_error e \<or> e = Domain WalletNotFoundException \<and>
       (\<forall>k x. wallets (durable V w) k = Some x \<longrightarrow> w_user_id x \<noteq> user))) w"
proof -
  have R: "rely_ok R" using law by (rule lawful_rely)
  note own = wp_own_wallet [OF law keep fresh, of user]
  note attrs = wp_wallet_attrs [OF law]
  show ?thesis
  proof (cases rc)
    case None
    show ?thesis
      unfolding get_balance_fast_def None option.case
      by (subst wp_bind, rule wp_mono [OF own])
        (auto simp: wp_simps attrs failed_def balance_seen_def cache_filled_def split: option.splits)
  next
    case (Some rd)
    with cl have rd: "lawful_redis rd K" "redis_keeps_db rd V R" by simp_all
    show ?thesis
      unfolding get_balance_fast_def Some option.case
    proof (subst wp_bind, rule wp_mono [OF own], goal_cases)
      case (1 r w1)
      then have d1: "R {} (durable V w) (durable V w1)" and kv: "kv_same K w w1" by simp_all
      show ?case
      proof (cases r)
        case None
        with 1 show ?thesis by (simp add: wp_simps)
      next
        case (Some k)
        with 1 obtain x where x: "own_row V user w x" "w_id x = k" and l: "loaded_wallet V w1 (w_id x) = Some x" by auto
        show ?thesis
          unfolding Some option.case x(2) [symmetric]
        proof (simp only: wp_bind attrs l option.case, rule wp_mono [OF wp_cached_balance [OF law rd kv l]], goal_cases)
          case (1 c w2)
          then have l2: "loaded_wallet V w2 (w_id x) = Some x" and kv2: "kv_same K w w2" by simp_all
          have d2: "R {} (durable V w) (durable V w2)"
            by (rule rely_trans [OF R d1], rule db_quietD(1)) (use 1 in simp)
          show ?case
          proof (cases c)
            case (Some b)
            with 1 d2 kv2 x show ?thesis by (auto simp: wp_simps cache_filled_def)
          next
            case None
            have q: "R {} (durable V w) (durable V w')" if "db_quiet V R w2 w'" for w'
              by (rule rely_trans [OF R d2 db_quietD(1) [OF that]])
            show ?thesis
              unfolding None option.case wp_bind attrs l2 wp_return
            proof (rule wp_mono [OF wp_set_balance_quiet [OF rd]], goal_cases)
              case (1 u w3)
              then have "db_quiet V R w2 w3" by blast
              moreover have "cache_filled K x w w3" using 1 by (auto intro: cache_filled_after [OF kv2])
              moreover have "balance_seen K w x (w_balance x)" by (simp add: balance_seen_def)
              ultimately show ?case using x(1) l2 q db_quietD(5) by fastforce
            qed simp
          qed
        qed simp
      qed
    next
      case (2 e w1)
      then show ?case by (simp add: failed_def)
    qed
  qed
qed

section \<open>The whole top-up\<close>

lemma wp_top_up:
  assumes law: "lawful_session db V R" and cl: "client_ok rc K V R" and keep: "session_keeps_redis db K" and fresh: "fresh_session V w"
    and amt: "whole_cents amount"
  shows "wp (top_up db user amount rc)
    (\<lambda>resp w'. \<exists>z z'. topped_up V R user amount z w w' \<and> balance_dropped K rc (w_id z) w' \<and>
       later z z' \<and> resp = wallet_response_of z')
    (top_up_failed V R user amount w) w"
proof -
  have "snapshots_ok V w" "view V w = durable V w" "R {} (durable V w) (durable V w)"
    using snapshots_ok_fresh [OF fresh] fresh rely_refl [OF lawful_rely [OF law]] by (simp_all add: fresh_session_def)
  then show ?thesis unfolding top_up_def by (rule wp_top_up_loop [OF law cl keep amt])
qed

lemma topped_up_others:
  assumes "topped_up V others user amount z w w'" and "0 < cents amount"
  shows "others {} (durable V w) (durable V w')"
proof -
  obtain t x b ts where h: "others {} (durable V w) t" "wallets t (w_id x) = Some x" "numeric_column b"
      "cents b = cents (w_balance x) + cents amount" "z = rebalance b (w_version x + 1) ts x"
      "others {} (put_wallet z t) (durable V w')"
    using assms(1) unfolding topped_up_def by blast
  have "others {} t (put_wallet z t)"
    unfolding h(5) by (rule others_step, rule ledger_step.top_up) (use h assms(2) in auto)
  with h show ?thesis by (meson others_trans)
qed

end
