(* ===== verification/Endpoints.thy ===== *)
theory Endpoints
  imports Rate_Limit User_Service Wallet_Service Payment
begin

text \<open>
  The routes of \<open>app/api/v1\<close> and the health check of \<open>app/main.py\<close>: each handler with the
  dependencies FastAPI resolves before it, in their order, and what the history and the detail view
  show of the ledger.
\<close>

section \<open>Dependencies\<close>

text \<open>
  The rate limit of a route comes first, then the parameters in their order; a request that does not
  fit its schema is refused after them. \<open>body\<close> is what FastAPI makes of the body: the list of errors
  or the validated model (a body that is no JSON text at all is refused before any dependency runs,
  and is left out).
\<close>

definition current_user :: "'w security \<Rightarrow> settings \<Rightarrow> request \<Rightarrow> ('w, uuid) io" where
  "current_user sec settings request =
     (case rq_bearer request of
        Inl e \<Rightarrow> py_raise e
      | Inr credentials \<Rightarrow> get_current_user_id sec settings credentials)"

definition valid_body :: "(string list \<times> string) list + 'b \<Rightarrow> ('w, 'b) io" where
  "valid_body body = (case body of Inl errs \<Rightarrow> py_raise (RequestInvalid errs) | Inr b \<Rightarrow> py_return b)"

primrec py_map :: "('a \<Rightarrow> ('w, 'b) io) \<Rightarrow> 'a list \<Rightarrow> ('w, 'b list) io" where
  "py_map f [] = py_return []"
| "py_map f (a # as) = py_bind (f a) (\<lambda>b. py_bind (py_map f as) (\<lambda>bs. py_return (b # bs)))"

section \<open>Payments\<close>

definition post_payments_send ::
  "codec \<Rightarrow> 'w security \<Rightarrow> settings \<Rightarrow> 'w session \<Rightarrow> 'w redis \<Rightarrow> request \<Rightarrow>
     (string list \<times> string) list + payment_request \<Rightarrow> ('w, transaction_response) io" where
  "post_payments_send cdc sec settings db redis_client request body =
     py_bind (rate_limit payment_rate_limit request redis_client) (\<lambda>_.
     py_bind (current_user sec settings request) (\<lambda>user_id.
     py_bind (valid_body body) (\<lambda>payment. send_money cdc db user_id payment (Some redis_client))))"

definition get_transaction_history ::
  "'w session \<Rightarrow> uuid \<Rightarrow> int \<Rightarrow> int \<Rightarrow> string option \<Rightarrow> ('w, transaction_list_response) io" where
  "get_transaction_history db user_id page page_size status =
     py_bind (wallet_get_by_user_id db user_id) (\<lambda>wallet.
       case wallet of
         None \<Rightarrow> py_return \<lparr>tl_transactions = [], tl_total = 0, tl_page = page, tl_page_size = page_size\<rparr>
       | Some k \<Rightarrow>
           py_bind (wallet_attrs db k) (\<lambda>x.
           py_bind (txn_get_by_wallet_id db (w_id x) page page_size) (\<lambda>(transactions, total).
           py_bind (py_map (\<lambda>t. py_bind (txn_attrs db t) (\<lambda>y. py_return (transaction_response_of y))) transactions)
             (\<lambda>rs. py_return \<lparr>tl_transactions = rs, tl_total = total, tl_page = page, tl_page_size = page_size\<rparr>))))"

text \<open>The bounds that \<open>Query\<close> declares for the page number and its size.\<close>

definition page_query_valid :: "int \<Rightarrow> int \<Rightarrow> bool" where
  "page_query_valid page page_size \<longleftrightarrow> 1 \<le> page \<and> 1 \<le> page_size \<and> page_size \<le> 100"

definition get_transaction :: "'w session \<Rightarrow> uuid \<Rightarrow> uuid \<Rightarrow> ('w, transaction_response) io" where
  "get_transaction db transaction_id user_id =
     py_bind (wallet_get_by_user_id db user_id) (\<lambda>wallet.
       case wallet of
         None \<Rightarrow> py_raise (HTTPExc 404 ''Wallet not found'' [])
       | Some k \<Rightarrow>
           py_bind (select_txn db (Txn_id transaction_id)) (\<lambda>txn.
             case txn of
               None \<Rightarrow> py_raise (HTTPExc 404 ''Transaction not found'' [])
             | Some t \<Rightarrow>
                 py_bind (txn_attrs db t) (\<lambda>y. py_bind (wallet_attrs db k) (\<lambda>x.
                   if t_sender_wallet_id y \<noteq> w_id x \<and> t_receiver_wallet_id y \<noteq> w_id x
                   then py_raise (HTTPExc 403 ''Not authorized to view this transaction'' [])
                   else py_return (transaction_response_of y)))))"

section \<open>Users, wallets and health\<close>

definition post_users_register ::
  "'w security \<Rightarrow> 'w session \<Rightarrow> (string list \<times> string) list + user_create_data \<Rightarrow> ('w, user_response) io" where
  "post_users_register sec db body = py_bind (valid_body body) (register db sec)"

definition post_users_login ::
  "'w security \<Rightarrow> settings \<Rightarrow> 'w session \<Rightarrow> (string list \<times> string) list + user_login \<Rightarrow> ('w, token_response) io" where
  "post_users_login sec settings db body = py_bind (valid_body body) (login db sec settings)"

definition get_users_me :: "'w security \<Rightarrow> settings \<Rightarrow> 'w session \<Rightarrow> request \<Rightarrow> ('w, user_response) io" where
  "get_users_me sec settings db request = py_bind (current_user sec settings request) (get_user db)"

definition get_wallets_me ::
  "'w security \<Rightarrow> settings \<Rightarrow> 'w session \<Rightarrow> 'w redis \<Rightarrow> request \<Rightarrow> ('w, wallet_response) io" where
  "get_wallets_me sec settings db redis_client request =
     py_bind (current_user sec settings request) (\<lambda>user_id. get_wallet db user_id (Some redis_client))"

definition post_wallets_top_up ::
  "'w security \<Rightarrow> settings \<Rightarrow> 'w session \<Rightarrow> 'w redis \<Rightarrow> request \<Rightarrow>
     (string list \<times> string) list + wallet_top_up \<Rightarrow> ('w, wallet_response) io" where
  "post_wallets_top_up sec settings db redis_client request body =
     py_bind (current_user sec settings request) (\<lambda>user_id.
     py_bind (valid_body body) (\<lambda>data. top_up db user_id (tu_amount data) (Some redis_client)))"

definition health_check :: "settings \<Rightarrow> 'w redis \<Rightarrow> ('w, json) io" where
  "health_check settings redis_client =
     py_bind (is_healthy redis_client) (\<lambda>redis_ok. py_return (JObj
       [(''status'', JStr ''healthy''), (''service'', JStr (st_app_name settings)), (''version'', JStr ''1.0.0''),
        (''dependencies'', JObj [(''redis'', JStr (if redis_ok then ''connected'' else ''disconnected''))])]))"

section \<open>What the history shows\<close>

lemma wp_py_map:
  assumes "\<And>a. a \<in> set as \<Longrightarrow> f a w = (Inr (g a), w)"
  shows "py_map f as w = (Inr (map g as), w)"
  using assms by (induction as) (simp_all add: py_return_def py_bind_def)

lemma wp_count:
  assumes law: "lawful_session db V R" and ok: "snapshots_ok V w"
  shows "wp (count_txns db c) (\<lambda>n w'. n = card (matching_txns c (view V w)) \<and> unchanged V R w w' \<and> same_objects V w w')
    (\<lambda>e. failed V R e w) w"
proof -
  note L = lawful_laws(13) [OF law, unfolded law_history_def, THEN conjunct1, rule_format, OF snapshots_clean [OF ok]]
  show ?thesis
    by (rule wp_mono [OF L]) (auto simp: same_objects_def intro!: unchanged_step [OF lawful_rely [OF law] ok])
qed

text \<open>One page of the matching rows of some tables, latest first.\<close>

definition page_of :: "txn_cond \<Rightarrow> tables \<Rightarrow> int \<Rightarrow> int \<Rightarrow> uuid list \<Rightarrow> bool" where
  "page_of c t page page_size ks \<longleftrightarrow>
     (\<exists>all. distinct all \<and> set all = matching_txns c t \<and> latest_first t all \<and>
        ks = take (nat page_size) (drop (nat ((page - 1) * page_size)) all))"

lemma wp_page:
  assumes law: "lawful_session db V R" and ok: "snapshots_ok V w" and q: "1 \<le> page" "1 \<le> page_size"
  shows "wp (page_txns db c ((page - 1) * page_size) page_size)
    (\<lambda>ks w'. page_of c (view V w) page page_size ks \<and> unchanged V R w w' \<and>
       loaded_wallet V w' = loaded_wallet V w \<and>
       (\<forall>k \<in> set ks. loaded_txn V w' k = txns (view V w) k \<and> txns (view V w) k \<noteq> None))
    (\<lambda>e. failed V R e w) w"
proof -
  have off: "0 \<le> (page - 1) * page_size" "0 \<le> page_size" using q by simp_all
  note L = lawful_laws(13) [OF law, unfolded law_history_def, THEN conjunct2, rule_format,
      OF snapshots_clean [OF ok] off, of c]
  have old: "loaded_txn V w k = Some y \<Longrightarrow> txns (view V w) k = Some y" for k y
    using ok by (simp add: snapshots_ok_def)
  show ?thesis
  proof (rule wp_mono [OF L], goal_cases)
    case (1 ks w')
    then have lt: "loaded_txn V w' k = (if k \<in> set ks \<and> loaded_txn V w k = None
          then txns (view V w) k else loaded_txn V w k)" for k
      by blast
    have "unchanged V R w w'"
      by (rule unchanged_step [OF lawful_rely [OF law] ok]) (use 1 lt old in \<open>auto split: if_splits\<close>)
    moreover from 1 obtain all where all: "distinct all" "set all = matching_txns c (view V w)"
        "latest_first (view V w) all" "ks = take (nat page_size) (drop (nat ((page - 1) * page_size)) all)"
      by blast
    moreover have "txns (view V w) k \<noteq> None" if "k \<in> set ks" for k
      using that all(2,4) set_take_subset set_drop_subset by (fastforce simp: matching_txns_def)
    moreover have "loaded_txn V w' k = txns (view V w) k" if "k \<in> set ks" for k
      using that lt [of k] old [of k] by (auto split: if_splits option.splits)
    ultimately show ?case using 1 unfolding page_of_def by blast
  qed simp
qed

text \<open>
  The total counts the rows of one moment, the page shows those of a later one. Nothing is written.
\<close>

definition history_seen ::
  "'w absn \<Rightarrow> rely \<Rightarrow> uuid \<Rightarrow> int \<Rightarrow> int \<Rightarrow> 'w \<Rightarrow> transaction_list_response \<Rightarrow> 'w \<Rightarrow> bool" where
  "history_seen V R user page page_size w r w' \<longleftrightarrow>
     (\<exists>x t u ks. own_row V user w x \<and> R {} (durable V w) t \<and> R {} t u \<and> R {} u (durable V w') \<and>
        tl_total r = card (matching_txns (Txn_wallet_id (w_id x)) t) \<and>
        page_of (Txn_wallet_id (w_id x)) u page page_size ks \<and>
        tl_transactions r = map (\<lambda>k. transaction_response_of (the (txns u k))) ks)"

definition no_wallet :: "'w absn \<Rightarrow> uuid \<Rightarrow> 'w \<Rightarrow> bool" where
  "no_wallet V user w \<longleftrightarrow> (\<forall>k x. wallets (durable V w) k = Some x \<longrightarrow> w_user_id x \<noteq> user)"

lemma wp_history:
  assumes law: "lawful_session db V R" and ok: "snapshots_ok V w" and same: "view V w = durable V w"
    and q: "page_query_valid page page_size"
  shows "wp (get_transaction_history db user page page_size status)
    (\<lambda>r w'. unchanged V R w w' \<and> tl_page r = page \<and> tl_page_size r = page_size \<and>
       (if no_wallet V user w then tl_transactions r = [] \<and> tl_total r = 0
        else history_seen V R user page page_size w r w'))
    (\<lambda>e. failed V R e w) w"
  unfolding get_transaction_history_def wallet_get_by_user_id_def txn_get_by_wallet_id_def Let_def
proof (subst wp_bind, rule wp_mono [OF wp_select_wallet [OF law ok]], goal_cases)
  case (1 r w1)
  have R: "rely_ok R" using law by (rule lawful_rely)
  from 1 have u1: "unchanged V R w w1" by simp
  show ?case
  proof (cases r)
    case None
    with 1 u1 same show ?thesis by (auto simp: wp_simps no_wallet_def)
  next
    case (Some k)
    with 1 obtain x y where x: "wallets (view V w) k = Some x" "w_user_id x = user" "w_id x = k"
      and y: "loaded_wallet V w1 k = Some y" "later y x" by auto
    then have own: "own_row V user w x" and id: "w_id y = k"
      using same laterD(1) [OF y(2)] by (auto simp: own_row_def later_def)
    have ok1: "snapshots_ok V w1" and same1: "view V w1 = durable V w1" using u1 same by (simp_all add: unchanged_def)
    show ?thesis
      unfolding Some option.case
    proof (simp only: wp_bind wp_wallet_attrs [OF law] y option.case id, rule wp_mono [OF wp_count [OF law ok1]], goal_cases)
      case (1 n w2)
      then have u2: "unchanged V R w1 w2" and n: "n = card (matching_txns (Txn_wallet_id k) (view V w1))" by simp_all
      then have ok2: "snapshots_ok V w2" and same2: "view V w2 = durable V w2" using same1 by (simp_all add: unchanged_def)
      have q': "1 \<le> page" "1 \<le> page_size" using q by (simp_all add: page_query_valid_def)
      show ?case
        unfolding wp_bind wp_return prod.case
      proof (rule wp_mono [OF wp_page [OF law ok2 q']], goal_cases)
        case (1 ks w3)
        then have u3: "unchanged V R w2 w3" by simp
        have "py_map (\<lambda>t. py_bind (txn_attrs db t) (\<lambda>y. py_return (transaction_response_of y))) ks w3 =
            (Inr (map (\<lambda>k. transaction_response_of (the (txns (view V w2) k))) ks), w3)"
          by (rule wp_py_map)
            (use 1 lawful_laws(11) [OF law] in \<open>force simp: law_attrs_def py_bind_def py_return_def\<close>)
        moreover have "unchanged V R w w3"
          using unchanged_trans [OF R unchanged_trans [OF R u1 u2] u3] .
        moreover have "R {} (durable V w) (durable V w1)" "R {} (durable V w1) (durable V w2)" "R {} (durable V w2) (durable V w3)"
          using u1 u2 u3 by (simp_all add: unchanged_def)
        then have "history_seen V R user page page_size w
            \<lparr>tl_transactions = map (\<lambda>k. transaction_response_of (the (txns (view V w2) k))) ks, tl_total = n,
              tl_page = page, tl_page_size = page_size\<rparr> w3"
          unfolding history_seen_def using own n x(3) 1 same1 same2
          by (intro exI [of _ x] exI [of _ "durable V w1"] exI [of _ "durable V w2"] exI [of _ ks]) simp
        moreover have "\<not> no_wallet V user w"
          using own by (auto simp: own_row_def no_wallet_def)
        ultimately show ?case by (simp add: wp_def py_return_def)
      next
        case (2 e w3)
        then show ?case using failed_after [OF R unchanged_trans [OF R u1 u2]] by blast
      qed
    next
      case (2 e w2)
      then show ?case using failed_after [OF R u1] by blast
    qed
  qed
qed

text \<open>
  Where no two matching rows were made at the same instant the order is fixed: the place of a row is the
  number of newer ones, and that decides on which page it is.
\<close>

definition newer_txns :: "txn_cond \<Rightarrow> tables \<Rightarrow> uuid \<Rightarrow> uuid set" where
  "newer_txns c t k =
     {j \<in> matching_txns c t. t_created_at (the (txns t k)) < t_created_at (the (txns t j))}"

lemma newer_before:
  assumes all: "distinct all" "set all = matching_txns c t" "latest_first t all" and i: "i < length all"
    and inj: "inj_on (\<lambda>k. t_created_at (the (txns t k))) (matching_txns c t)"
  shows "newer_txns c t (all ! i) = set (take i all)"
proof -
  let ?f = "\<lambda>k. t_created_at (the (txns t k))"
  have down: "?f (all ! n) \<le> ?f (all ! m)" if "m < n" "n < length all" for m n
    using sorted_wrt_nth_less [OF all(3) [unfolded latest_first_def] that] .
  have strict: "?f (all ! n) < ?f (all ! m)" if "m < n" "n < length all" for m n
  proof -
    have "all ! m \<noteq> all ! n" using all(1) that by (simp add: nth_eq_iff_index_eq)
    moreover have "all ! m \<in> matching_txns c t" "all ! n \<in> matching_txns c t"
      unfolding all(2) [symmetric] using that by simp_all
    ultimately have "?f (all ! m) \<noteq> ?f (all ! n)" using inj_onD [OF inj] by blast
    with down [OF that] show ?thesis by simp
  qed
  have "?f (all ! i) < ?f (all ! m) \<longleftrightarrow> m < i" if "m < length all" for m
    using strict [of m i] down [of i m] i that by (cases m i rule: linorder_cases) auto
  then show ?thesis
    unfolding newer_txns_def all(2) [symmetric] by (force simp: in_set_conv_nth)
qed

lemma set_slice: "k \<in> set (take n (drop m xs)) \<longleftrightarrow> (\<exists>i. m \<le> i \<and> i < m + n \<and> i < length xs \<and> xs ! i = k)"
proof
  assume "k \<in> set (take n (drop m xs))"
  then obtain l where "l < n" "m + l < length xs" "xs ! (m + l) = k" by (auto simp: in_set_conv_nth)
  then show "\<exists>i. m \<le> i \<and> i < m + n \<and> i < length xs \<and> xs ! i = k" by (intro exI [of _ "m + l"]) simp
next
  assume "\<exists>i. m \<le> i \<and> i < m + n \<and> i < length xs \<and> xs ! i = k"
  then obtain i where "m \<le> i" "i < m + n" "i < length xs" "xs ! i = k" by blast
  then have "i - m < length (take n (drop m xs))" "take n (drop m xs) ! (i - m) = k" by auto
  then show "k \<in> set (take n (drop m xs))" by (metis nth_mem)
qed

lemma page_by_rank:
  assumes pg: "page_of c t page per ks" and q: "1 \<le> page" "1 \<le> per"
    and inj: "inj_on (\<lambda>k. t_created_at (the (txns t k))) (matching_txns c t)"
  shows "distinct ks" and "set ks = {k \<in> matching_txns c t.
      (page - 1) * per \<le> int (card (newer_txns c t k)) \<and> int (card (newer_txns c t k)) < page * per}"
proof -
  obtain all where all: "distinct all" "set all = matching_txns c t" "latest_first t all"
      "ks = take (nat per) (drop (nat ((page - 1) * per)) all)"
    using pg unfolding page_of_def by blast
  show "distinct ks" using all(1,4) by simp
  have rank: "card (newer_txns c t (all ! i)) = i" if "i < length all" for i
    using newer_before [OF all(1-3) that inj] distinct_card [OF distinct_take [OF all(1)], of i] that by simp
  have "0 \<le> (page - 1) * per" using q by simp
  then have bounds: "nat ((page - 1) * per) \<le> i \<longleftrightarrow> (page - 1) * per \<le> int i"
      "i < nat ((page - 1) * per) + nat per \<longleftrightarrow> int i < page * per" for i
    using q by (auto simp: nat_le_iff algebra_simps nat_add_distrib [symmetric] zless_nat_eq_int_zless)
  have at: "k \<in> matching_txns c t \<longleftrightarrow> (\<exists>i < length all. all ! i = k)" for k
    unfolding all(2) [symmetric] in_set_conv_nth by blast
  have "k \<in> set ks \<longleftrightarrow> k \<in> matching_txns c t \<and>
      (page - 1) * per \<le> int (card (newer_txns c t k)) \<and> int (card (newer_txns c t k)) < page * per" for k
    unfolding all(4) set_slice bounds at using rank by metis
  then show "set ks = {k \<in> matching_txns c t.
      (page - 1) * per \<le> int (card (newer_txns c t k)) \<and> int (card (newer_txns c t k)) < page * per}" by blast
qed

section \<open>Who may see a transaction\<close>

definition takes_part :: "wallet \<Rightarrow> transaction \<Rightarrow> bool" where
  "takes_part x y \<longleftrightarrow> t_sender_wallet_id y = w_id x \<or> t_receiver_wallet_id y = w_id x"

lemma wp_get_transaction:
  assumes law: "lawful_session db V R" and ok: "snapshots_ok V w" and same: "view V w = durable V w"
  shows "wp (get_transaction db k user)
    (\<lambda>r w'. unchanged V R w w' \<and>
       (\<exists>x y. own_row V user w x \<and> txns (durable V w') k = Some y \<and> takes_part x y \<and> r = transaction_response_of y))
    (\<lambda>e w'. failed V R e w w' \<or> unchanged V R w w' \<and>
       (e = HTTPExc 404 ''Wallet not found'' [] \<and> no_wallet V user w \<or>
        e = HTTPExc 404 ''Transaction not found'' [] \<and> (\<forall>y. txns (durable V w) k = Some y \<longrightarrow> t_id y \<noteq> k) \<or>
        e = HTTPExc 403 ''Not authorized to view this transaction'' [] \<and>
          (\<exists>x y. own_row V user w x \<and> txns (durable V w') k = Some y \<and> \<not> takes_part x y))) w"
  unfolding get_transaction_def wallet_get_by_user_id_def
proof (subst wp_bind, rule wp_mono [OF wp_select_wallet [OF law ok]], goal_cases)
  case (1 r w1)
  have R: "rely_ok R" using law by (rule lawful_rely)
  from 1 have u1: "unchanged V R w w1" by simp
  show ?case
  proof (cases r)
    case None
    with 1 u1 same show ?thesis by (auto simp: wp_simps no_wallet_def)
  next
    case (Some j)
    with 1 obtain x x' where x: "wallets (view V w) j = Some x" "w_user_id x = user" "w_id x = j"
      and x': "loaded_wallet V w1 j = Some x'" "later x' x" by auto
    then have own: "own_row V user w x" and id: "w_id x' = w_id x"
      using same laterD(1) [OF x'(2)] by (auto simp: own_row_def later_def)
    have ok1: "snapshots_ok V w1" and same1: "view V w1 = durable V w1" using u1 same by (simp_all add: unchanged_def)
    show ?thesis
      unfolding Some option.case
    proof (subst wp_bind, rule wp_mono [OF wp_select_txn [OF law ok1]], goal_cases)
      case (1 t w2)
      then have u2: "unchanged V R w1 w2" and l2: "loaded_wallet V w2 j = Some x'" using x' by simp_all
      have u: "unchanged V R w w2" by (rule unchanged_trans [OF R u1 u2])
      have d: "txns (durable V w2) i = Some y" if "txns (durable V w) i = Some y \<or> txns (durable V w1) i = Some y" for i y
        using that u1 u2 rely_txns [OF R, of "{}" "durable V w1" "durable V w2"] rely_txns [OF R, of "{}" "durable V w" "durable V w1"]
        by (auto simp: unchanged_def)
      show ?case
      proof (cases t)
        case None
        have "t_id y \<noteq> k" if y: "txns (durable V w) k = Some y" for y
        proof -
          have "txns (durable V w1) k = Some y"
            using y u1 rely_txns [OF R, of "{}" "durable V w" "durable V w1"] by (simp add: unchanged_def)
          with None 1 same1 show ?thesis by auto
        qed
        with None u show ?thesis by (simp add: wp_raise)
      next
        case (Some i)
        with 1 obtain y where y: "txns (durable V w1) k = Some y" "loaded_txn V w2 k = Some y" "i = k"
          using same1 by auto
        then have "txns (durable V w2) k = Some y" using d by blast
        moreover have "txn_attrs db k w2 = (Inr y, w2)"
          using y(2) lawful_laws(11) [OF law] by (simp add: law_attrs_def)
        then have "wp (txn_attrs db k) Q E w2 = Q y w2" for Q E by (simp add: wp_def)
        ultimately show ?thesis
          using own u y(3) id l2
          by (auto simp: Some wp_simps wp_wallet_attrs [OF law] takes_part_def x(3))
      qed
    next
      case (2 e w2)
      then show ?case using failed_after [OF R u1] by blast
    qed
  qed
qed simp

text \<open>On a valid database the rows of a page name their own keys.\<close>

lemma page_ids:
  assumes "valid_db t" and "page_of c t p per ks"
  shows "map tr_id (map (\<lambda>k. transaction_response_of (the (txns t k))) ks) = ks"
proof -
  have "t_id (the (txns t k)) = k" if "k \<in> set ks" for k
  proof -
    have "k \<in> matching_txns c t"
      using that assms(2) set_take_subset set_drop_subset unfolding page_of_def by fastforce
    then obtain y where "txns t k = Some y" by (auto simp: matching_txns_def)
    with valid_db_rows(3) [OF assms(1) this] show ?thesis by (simp add: txn_ok_def)
  qed
  then show ?thesis by (simp add: map_idI transaction_response_of_def)
qed

text \<open>So what the handler answers, with nothing committed meanwhile.\<close>

lemma wp_history_by_rank:
  assumes law: "lawful_session db V alone" and fresh: "fresh_session V w" and ok: "valid_db (durable V w)"
    and q: "page_query_valid page per" and x: "own_row V user w x"
    and inj: "inj_on (\<lambda>k. t_created_at (the (txns (durable V w) k))) (matching_txns (Txn_wallet_id (w_id x)) (durable V w))"
  shows "wp (get_transaction_history db user page per status)
    (\<lambda>r w'. distinct (map tr_id (tl_transactions r)) \<and>
       set (map tr_id (tl_transactions r)) = {k \<in> matching_txns (Txn_wallet_id (w_id x)) (durable V w).
         (page - 1) * per \<le> int (card (newer_txns (Txn_wallet_id (w_id x)) (durable V w) k)) \<and>
         int (card (newer_txns (Txn_wallet_id (w_id x)) (durable V w) k)) < page * per})
    (\<lambda>e w'. db_error e) w"
proof -
  have same: "view V w = durable V w" using fresh by (simp add: fresh_session_def)
  have own: "\<not> no_wallet V user w" using x by (auto simp: own_row_def no_wallet_def)
  show ?thesis
  proof (rule wp_mono [OF wp_history [OF law snapshots_ok_fresh [OF fresh] same q]], goal_cases)
    case (1 r w')
    with own have "history_seen V alone user page per w r w'" by simp
    then obtain y ks where y: "own_row V user w y" "page_of (Txn_wallet_id (w_id y)) (durable V w) page per ks"
        "tl_transactions r = map (\<lambda>k. transaction_response_of (the (txns (durable V w) k))) ks"
      by (auto simp: history_seen_def alone_def)
    have "w_id y = w_id x"
      using x y(1) unique_byD [OF valid_db_unique(2) [OF ok], of "w_id y" y "w_id x" x] by (simp add: own_row_def)
    with y(2) have pg: "page_of (Txn_wallet_id (w_id x)) (durable V w) page per ks" by simp
    have ids: "map tr_id (tl_transactions r) = ks" unfolding y(3) by (rule page_ids [OF ok pg])
    show ?case
      unfolding ids by (intro conjI page_by_rank [OF pg _ _ inj]) (use q in \<open>simp_all add: page_query_valid_def\<close>)
  qed (simp add: failed_def)
qed

end
