(* ===== verification/Payment_Guarantees.thy ===== *)
theory Payment_Guarantees
  imports Payment_Safety Ledger
begin

text \<open>
  The guarantee side: with every session of the deployed program around it, a payment is itself a
  run of ledger steps, so sessions may rely on one another; the invariants of the database
  follow for any interleaving. And a key that has been recorded is answered with its record.
\<close>

section \<open>A payment is a run of the ledger\<close>

lemma transferred_others:
  assumes tr: "transferred V others user req y w w'" and pos: "0 < cents (pr_amount req)"
  shows "others {} (durable V w) (durable V w')"
proof -
  obtain t T a b where t: "others {} (durable V w) t" and T: "others {} T (durable V w')"
    and m: "transfers a b (pr_amount req) (pr_currency req) (pr_idempotency_key req) (pr_description req) t y T"
    using tr unfolding transferred_def by blast
  have "others {} t T" by (rule others_step [OF ledger_step.transfer [OF m pos]]) simp_all
  with t T show ?thesis by (meson others_trans)
qed

lemma wp_send_money_run:
  assumes "lawful_session db V others" "client_ok rc K V others" "session_keeps_redis db K"
    and "lawful_codec cdc" "fresh_session V w" "cache_sound cdc K V w" and ok: "money_field (pr_amount req)"
  shows "wp (send_money cdc db user req rc)
    (\<lambda>_ w'. others {} (durable V w) (durable V w')) (\<lambda>_ w'. others {} (durable V w) (durable V w')) w"
proof -
  have amt: "whole_cents (pr_amount req)" "0 < cents (pr_amount req)"
    using money_field_cents [OF ok] by blast+
  show ?thesis
    by (rule wp_mono [OF wp_send_money [OF assms(1-6) amt(1)]])
      (auto simp: send_answered_def send_failed_def refused_def dest!: settled_transferred dest: transferred_others [OF _ amt(2)])
qed

section \<open>A recorded key\<close>

lemma same_key:
  assumes "valid_db t" and x: "txns t (t_id x) = Some x" and y: "txns t (t_id y) = Some y"
    and key: "t_idempotency_key x = t_idempotency_key y"
  shows "x = y"
proof -
  have "t_id x = t_id y"
    by (rule unique_byD [where f = t_idempotency_key, OF valid_db_unique(3) [OF assms(1)] x y key])
  then have "Some x = Some y" by (simp only: x [symmetric] y [symmetric])
  then show ?thesis by simp
qed

lemma wp_send_recorded:
  assumes law: "lawful_session db V R" and cl: "client_ok rc K V R" and keep: "session_keeps_redis db K"
    and cdc: "lawful_codec cdc" and fresh: "fresh_session V w" and cs: "cache_sound cdc K V w"
    and val: "keeps_valid R" and ok: "valid_db (durable V w)" and x: "txns (durable V w) (t_id x) = Some x"
    and key: "t_idempotency_key x = pr_idempotency_key req"
  shows "wp (send_money cdc db user req rc)
    (\<lambda>resp w'. resp = transaction_response_of x \<and> R {} (durable V w) (durable V w'))
    (\<lambda>e w'. db_error e \<and> R {} (durable V w) (durable V w')) w"
proof -
  have R: "rely_ok R" using law by (rule lawful_rely)
  have sn: "snapshots_ok V w" and same: "view V w = durable V w"
    using fresh snapshots_ok_fresh by (simp_all add: fresh_session_def)
  have later_same: "z = x"
    if "R {} (durable V w) u" "txns u (t_id z) = Some z" "t_idempotency_key z = pr_idempotency_key req" for u z
    using same_key [OF keeps_validD [OF val that(1) ok] that(2) rely_txns [OF R that(1) x]] that(3) key by simp
  show ?thesis
    unfolding send_money_def
  proof (subst wp_bind, rule wp_mono [OF wp_check_key [OF cl R cdc cs]], goal_cases)
    case (1 r w1)
    then have q: "db_quiet V R w w1" and kv: "kv_same K w w1" by simp_all
    note d = db_quietD(1) [OF q]
    have u: "unchanged V R w w1" by (rule quiet_unchanged [OF R sn q])
    then have ok1: "snapshots_ok V w1" and same1: "view V w1 = durable V w1"
      using same by (simp_all add: unchanged_def)
    have cs1: "cache_sound cdc K V w1" by (rule cache_sound_step [OF cs rows_kept_rely [OF R d] kv])
    have x1: "txns (durable V w1) (t_id x) = Some x" by (rule rely_txns [OF R d x])
    have uncached: "wp (send_uncached cdc db user req rc)
      (\<lambda>resp w'. resp = transaction_response_of x \<and> R {} (durable V w) (durable V w'))
      (\<lambda>e w'. db_error e \<and> R {} (durable V w) (durable V w')) w1"
      unfolding send_uncached_def
    proof (subst wp_bind, rule wp_mono [OF wp_existing [OF law keep ok1 same1 cs1]], goal_cases)
      case (1 r w2)
      then have "R {} (durable V w1) (durable V w2)" by (simp add: unchanged_def)
      with d have d2: "R {} (durable V w) (durable V w2)" by (rule rely_trans [OF R])
      from 1 x1 key show ?case
        by (auto simp: wp_simps wp_txn_attrs [OF law] d2 dest: later_same [OF d2] split: option.splits)
    next
      case (2 e w2)
      then show ?case using rely_trans [OF R d] by (auto simp: failed_def)
    qed
    from 1 show ?case
    proof (elim conjE disjE exE, goal_cases)
      case 1
      then show ?case using uncached by simp
    next
      case (2 z)
      then show ?case
        using cdc d later_same [OF d, of z]
        by (simp add: wp_simps stored_response_def replay_cached_def lawful_codec_def)
    qed
  qed simp
qed

section \<open>Money is conserved by a payment\<close>

lemma wp_send_money_total:
  assumes law: "lawful_session db V alone" and cl: "client_ok rc K V alone" and keep: "session_keeps_redis db K"
    and cdc: "lawful_codec cdc" and fresh: "fresh_session V w" and cs: "cache_sound cdc K V w"
    and amt: "whole_cents (pr_amount req)" and fin: "finite (dom (wallets (durable V w)))"
  shows "wp (send_money cdc db user req rc)
    (\<lambda>_ w'. total_cents (durable V w') = total_cents (durable V w))
    (\<lambda>_ w'. total_cents (durable V w') = total_cents (durable V w)) w"
proof -
  have t: "total_cents (durable V w') = total_cents (durable V w)" if "transferred V alone user req y w w'" for y w'
    using that transfers_conserve [OF _ fin] by (auto simp: transferred_def alone_def)
  show ?thesis
    by (rule wp_mono [OF wp_send_money [OF law cl keep cdc fresh cs amt]])
      (auto simp: send_answered_def send_failed_def refused_def alone_def [of _ "durable V w"] dest!: settled_transferred t)
qed

text \<open>Every answer is a recorded transaction with the key of the request, in a valid database.\<close>

lemma transferred_valid:
  assumes val: "keeps_valid R" and tr: "transferred V R user req y w w'" and pos: "0 < cents (pr_amount req)"
    and ok: "valid_db (durable V w)"
  shows "valid_db (durable V w')"
proof -
  obtain t T a b where t: "R {} (durable V w) t" and T: "R {} T (durable V w')"
    and m: "transfers a b (pr_amount req) (pr_currency req) (pr_idempotency_key req) (pr_description req) t y T"
    using tr unfolding transferred_def by blast
  have "valid_db T" by (rule transfers_valid [OF m keeps_validD [OF val t ok] pos])
  then show ?thesis by (rule keeps_validD [OF val T])
qed

lemma wp_send_money_recorded:
  assumes "lawful_session db V R" "client_ok rc K V R" "session_keeps_redis db K"
    and "lawful_codec cdc" "fresh_session V w" "cache_sound cdc K V w"
    and val: "keeps_valid R" and ok: "payment_request_valid req" and valid: "valid_db (durable V w)"
  shows "wp (send_money cdc db user req rc)
    (\<lambda>resp w'. valid_db (durable V w') \<and> (\<exists>y. resp = transaction_response_of y \<and>
       txns (durable V w') (t_id y) = Some y \<and> t_idempotency_key y = pr_idempotency_key req)) (\<lambda>_ _. True) w"
proof -
  have amt: "whole_cents (pr_amount req)" "0 < cents (pr_amount req)"
    using ok money_field_cents by (simp_all add: payment_request_valid_def)
  have "valid_db (durable V w')" if "R {} (durable V w) (durable V w') \<or> settled K rc V R user req y w w'" for y w'
    using that keeps_validD [OF val _ valid] transferred_valid [OF val settled_transferred amt(2) valid] by blast
  then show ?thesis
    by (intro wp_mono [OF wp_send_money [OF assms(1-6) amt(1)]]) (auto simp: send_answered_def)
qed

end
