(* ===== verification/Api_Guarantees.thy ===== *)
theory Api_Guarantees
  imports Endpoints Payment_Guarantees
begin

text \<open>
  The routes as a whole: the guarantees of the services, from the bearer token of the request on,
  through the rate limit and the validation.
\<close>

section \<open>The steps before the handler\<close>

lemma fresh_quiet: "db_quiet V R w w' \<Longrightarrow> fresh_session V w \<Longrightarrow> fresh_session V w'"
  by (auto simp: db_quiet_def tx_step_def same_objects_def fresh_session_def)

text \<open>The rate limit touches one Redis key, which is none of the idempotency keys.\<close>

definition spares_keys :: "'w kv \<Rightarrow> 'w \<Rightarrow> 'w \<Rightarrow> bool" where
  "spares_keys K w w' \<longleftrightarrow> (\<forall>k v. may_write K w k v \<longrightarrow> may_write K w' k v) \<and>
     (\<forall>key v t. entries K w' (key_idempotency key) = Some (v, t) \<longrightarrow>
        (\<exists>t'. entries K w (key_idempotency key) = Some (v, t')) \<or> may_write K w' (key_idempotency key) v)"

lemma spares_keys_refl: "spares_keys K w w"
  by (auto simp: spares_keys_def)

lemma spares_keys_trans: "spares_keys K w w1 \<Longrightarrow> spares_keys K w1 w2 \<Longrightarrow> spares_keys K w w2"
  unfolding spares_keys_def by metis

text \<open>A step that stores nothing under an idempotency key.\<close>

lemma spares_step:
  assumes step: "kv_step K m w w'"
    and own: "\<And>key v t. m (clock K w') (key_idempotency key) = Some (v, t) \<Longrightarrow>
      \<exists>t'. entries K w (key_idempotency key) = Some (v, t')"
  shows "spares_keys K w w'"
proof -
  have "(\<exists>t'. entries K w (key_idempotency key) = Some (v, t')) \<or> may_write K w' (key_idempotency key) v"
    if "entries K w' (key_idempotency key) = Some (v, t)" for key v t
    using step that by (rule kv_step_entry) (use own in blast)+
  then show ?thesis using step by (simp add: spares_keys_def kv_step_def)
qed

lemma spares_expire: "kv_step K (expire_key (key_rate_limit i ep) ttl (entries K w)) w w' \<Longrightarrow> spares_keys K w w'"
  by (erule spares_step) (simp add: expire_key_def split: option.splits)

lemma spares_same: "kv_same K w w' \<Longrightarrow> spares_keys K w w'"
  by (erule spares_step) blast

lemma wp_check_spares:
  assumes rd: "lawful_redis rd K" "redis_keeps_db rd V R" and R: "rely_ok R"
  shows "wp (check_rate_limit rd i ep mx) (\<lambda>_ w'. db_quiet V R w w' \<and> spares_keys K w w') (\<lambda>_ _. False) w"
proof -
  let ?k = "key_rate_limit i ep"
  let ?P = "\<lambda>w w'. db_quiet V R w w' \<and> spares_keys K w w'"
  have incr: "wp (redis_incr rd ?k) (\<lambda>_. ?P w) (\<lambda>_. ?P w) w"
    by (rule wp_mono [OF wp_conj [OF redis_laws(5) [OF rd(1)] wp_quiet [OF redis_quiet(5) [OF rd(2)]]]])
      (auto elim!: spares_step)
  have expire: "wp (redis_expire rd ?k ttl) (\<lambda>_. ?P w1) (\<lambda>_. ?P w1) w1" for w1 ttl
    by (rule wp_mono [OF wp_conj [OF redis_laws(6) [OF rd(1)] wp_quiet [OF redis_quiet(6) [OF rd(2)]]]])
      (auto simp: kv_failed_def spares_expire spares_same)
  have trans: "?P w w1 \<Longrightarrow> ?P w1 w2 \<Longrightarrow> ?P w w2" for w1 w2
    by (blast intro: spares_keys_trans db_quiet_trans [OF R])
  have next_: "wp (if r = 1 then redis_expire rd ?k TTL_RATE_LIMIT else py_return ()) (\<lambda>_. ?P w) (\<lambda>_. ?P w) w1"
    if "?P w w1" for r :: int and w1
  proof (cases "r = 1")
    case True
    have "wp (redis_expire rd ?k TTL_RATE_LIMIT) (\<lambda>_. ?P w) (\<lambda>_. ?P w) w1"
      by (rule wp_mono [OF expire]) (rule trans [OF that], assumption)+
    with True show ?thesis by simp
  qed (use that in \<open>simp add: wp_return\<close>)
  show ?thesis
    unfolding check_rate_limit_def Let_def wp_catch wp_bind wp_return
    by (rule wp_mono [OF incr], rule next_) assumption+
qed

lemma wp_rate_limit_spares:
  assumes rd: "lawful_redis rd K" "redis_keeps_db rd V R" and R: "rely_ok R"
  shows "wp (rate_limit rl request rd) (\<lambda>_ w'. db_quiet V R w w' \<and> spares_keys K w w')
    (\<lambda>e w'. e = limit_exceeded rl \<and> db_quiet V R w w' \<and> spares_keys K w w') w"
  by (rule wp_rate_limit, rule wp_mono [OF wp_check_spares [OF rd R]]) simp_all

lemma cache_sound_rows:
  assumes cs: "cache_sound cdc K V w" and rows: "txns (durable V w) \<subseteq>\<^sub>m txns (durable V w')"
    and sp: "spares_keys K w w'"
  shows "cache_sound cdc K V w'"
  unfolding cache_sound_def
proof (intro conjI allI impI)
  show honest: "clients_honest cdc K V" using cs by (simp add: cache_sound_def)
  fix k v t
  assume e: "entries K w' k = Some (v, t)"
  show "(k, v) \<in> published cdc V w'"
  proof (cases "\<exists>key. k = key_idempotency key")
    case True
    with sp e consider t' where "entries K w k = Some (v, t')" | "may_write K w' k v"
      unfolding spares_keys_def by blast
    then show ?thesis
    proof cases
      case 1
      with cs have "(k, v) \<in> published cdc V w" unfolding cache_sound_def by blast
      then show ?thesis by (rule published_kept [OF rows])
    qed (use honest in \<open>simp add: clients_honest_def\<close>)
  qed (simp add: published_def)
qed

lemma cache_sound_spares:
  assumes "rely_ok R" and "cache_sound cdc K V w" and "R {} (durable V w) (durable V w')" and "spares_keys K w w'"
  shows "cache_sound cdc K V w'"
  using rows_kept_rely [OF assms(1,3)] by (intro cache_sound_rows [OF assms(2) _ assms(4)]) (simp add: rows_kept_def)

text \<open>The token of a login, at the dependency: the user it was made for, or 401.\<close>

definition expired_token :: exn where
  "expired_token = HTTPExc 401 ''Invalid or expired token'' []"

lemma wp_current_user:
  assumes "lawful_security sec obs" and "rq_bearer request = Inr (login_token sec st issued u)"
  shows "wp (current_user sec st request) (\<lambda>r w'. r = u \<and> obs w' = obs w) (\<lambda>e w'. e = expired_token \<and> obs w' = obs w) w"
  using wp_authenticate [OF assms(1)] by (simp add: current_user_def assms(2) expired_token_def)

lemma wp_valid_body:
  "wp (valid_body body) Q E w = (case body of Inl errs \<Rightarrow> E (RequestInvalid errs) w | Inr b \<Rightarrow> Q b w)"
  by (simp add: valid_body_def wp_return wp_raise split: sum.split)

section \<open>Sending money over the API\<close>

text \<open>What other code may rely on: the two stores, seen together.\<close>

definition obs_stores :: "'w absn \<Rightarrow> 'w kv \<Rightarrow> 'w \<Rightarrow> _" where
  "obs_stores V K w = (obs_db V w, entries K w, may_write K w)"

lemma obs_storesD:
  assumes "obs_stores V K w' = obs_stores V K w"
  shows "obs_db V w' = obs_db V w" "entries K w' = entries K w" "may_write K w' = may_write K w"
  using assms by (simp_all add: obs_stores_def)

lemma fresh_obs: "obs_db V w' = obs_db V w \<Longrightarrow> fresh_session V w \<Longrightarrow> fresh_session V w'"
  by (simp add: obs_db_def fresh_session_def)

lemma send_outcome_after:
  assumes R: "rely_ok R" and d: "R {} (durable V w) (durable V w1)"
  shows "send_answered cdc K V R rc u b w1 resp w' \<Longrightarrow> send_answered cdc K V R rc u b w resp w'"
    and "send_failed cdc K V R u b w1 e w' \<Longrightarrow> send_failed cdc K V R u b w e w'"
proof -
  have t: "transferred V R u b y w1 w' \<Longrightarrow> transferred V R u b y w w'" for y
    unfolding transferred_def using rely_trans [OF R d] by blast
  have t': "settled K rc V R u b y w1 w' \<Longrightarrow> settled K rc V R u b y w w'" for y
    unfolding settled_def using rely_trans [OF R d] by blast
  show "send_answered cdc K V R rc u b w1 resp w' \<Longrightarrow> send_answered cdc K V R rc u b w resp w'"
    unfolding send_answered_def using t' rely_trans [OF R d] by blast
  show "send_failed cdc K V R u b w1 e w' \<Longrightarrow> send_failed cdc K V R u b w e w'"
    unfolding send_failed_def refused_def using t rely_trans [OF R d] by blast
qed

lemma wp_post_payments_send:
  assumes law: "lawful_session db V R" and rd: "lawful_redis rd K" "redis_keeps_db rd V R"
    and keep: "session_keeps_redis db K" and cdc: "lawful_codec cdc"
    and sec: "lawful_security sec (obs_stores V K)" and fresh: "fresh_session V w" and cs: "cache_sound cdc K V w"
    and tok: "rq_bearer request = Inr (login_token sec st issued u)"
    and body: "\<And>b. body = Inr b \<Longrightarrow> payment_request_valid b"
  shows "wp (post_payments_send cdc sec st db rd request body)
    (\<lambda>resp w'. \<exists>b. body = Inr b \<and> send_answered cdc K V R (Some rd) u b w resp w')
    (\<lambda>e w'. R {} (durable V w) (durable V w') \<and>
         (e = limit_exceeded payment_rate_limit \<or> e = expired_token \<or> (\<exists>errs. body = Inl errs \<and> e = RequestInvalid errs)) \<or>
       (\<exists>b. body = Inr b \<and> send_failed cdc K V R u b w e w')) w"
  unfolding post_payments_send_def
proof (subst wp_bind, rule wp_mono [OF wp_rate_limit_spares [OF rd lawful_rely [OF law]]], goal_cases)
  case (1 r w1)
  have R: "rely_ok R" using law by (rule lawful_rely)
  from 1 have q: "db_quiet V R w w1" and sp: "spares_keys K w w1" by simp_all
  note d1 = db_quietD(1) [OF q]
  have f1: "fresh_session V w1" by (rule fresh_quiet [OF q fresh])
  have cs1: "cache_sound cdc K V w1" by (rule cache_sound_spares [OF R cs d1 sp])
  show ?case
  proof (subst wp_bind, rule wp_mono [OF wp_current_user [OF sec tok]], goal_cases)
    case (1 v w2)
    then have v: "v = u" and o: "obs_db V w2 = obs_db V w1" and k: "entries K w2 = entries K w1"
      using obs_storesD [of V K w2 w1] by simp_all
    have f2: "fresh_session V w2" by (rule fresh_obs [OF o f1])
    have d12: "durable V w2 = durable V w1" by (rule obs_dbD(2) [OF o])
    then have d2: "R {} (durable V w) (durable V w2)" using d1 by simp
    have cs2: "cache_sound cdc K V w2" by (rule cache_sound_cong [OF d12 k, THEN iffD2], rule cs1)
    show ?case
    proof (cases body)
      case (Inl errs)
      with d2 show ?thesis by (simp add: wp_bind wp_valid_body)
    next
      case (Inr b)
      then have "whole_cents (pr_amount b)"
        using body money_field_cents by (auto simp: payment_request_valid_def)
      moreover have "client_ok (Some rd) K V R" using rd by simp
      ultimately have "wp (send_money cdc db u b (Some rd))
          (send_answered cdc K V R (Some rd) u b w2) (send_failed cdc K V R u b w2) w2"
        by (intro wp_send_money [OF law _ keep cdc f2 cs2])
      then show ?thesis
        unfolding Inr wp_bind wp_valid_body v sum.case
        by (rule wp_mono) (use send_outcome_after [OF R d2] in blast)+
    qed
  next
    case (2 e w2)
    then have "durable V w2 = durable V w1" using obs_dbD(2) [OF obs_storesD(1) [of V K w2 w1]] by simp
    with 2 d1 show ?case by simp
  qed
next
  case (2 e w1)
  then show ?case using db_quietD(1) [of V R w w1] by simp
qed

section \<open>The profile\<close>

lemma wp_get_users_me:
  assumes law: "lawful_session db V R" and sec: "lawful_security sec (obs_db V)" and fresh: "fresh_session V w"
    and tok: "rq_bearer request = Inr (login_token sec st issued u)"
  shows "wp (get_users_me sec st db request)
    (\<lambda>resp w'. R {} (durable V w) (durable V w') \<and> (\<exists>x. users (durable V w) u = Some x \<and> resp = user_response_of x))
    (\<lambda>e w'. R {} (durable V w) (durable V w') \<and>
       (e = expired_token \<or> db_error e \<or> e = Domain (UserNotFoundException (uuid_str u)) \<and>
          (\<forall>j x. users (durable V w) j = Some x \<longrightarrow> u_id x \<noteq> u))) w"
  unfolding get_users_me_def
proof (subst wp_bind, rule wp_mono [OF wp_current_user [OF sec tok]], goal_cases)
  case (1 v w1)
  then have v: "v = u" and d: "durable V w1 = durable V w" and f: "fresh_session V w1"
    using obs_dbD(2) [of V w1 w] fresh_obs [OF _ fresh, of w1] by simp_all
  show ?case
    unfolding v by (rule wp_mono [OF wp_get_user [OF law f]]) (simp_all only: d, auto)
next
  case (2 e w1)
  then have "durable V w1 = durable V w" using obs_dbD(2) [of V w1 w] by simp
  with 2 show ?case using rely_refl [OF lawful_rely [OF law]] by simp
qed

text \<open>With the password and the address of a row, a login gives the token of that user.\<close>

lemma wp_login_password:
  assumes law: "lawful_session db V R" and sec: "lawful_security sec (obs_db V)" and fresh: "fresh_session V w"
    and ok: "valid_db (durable V w)" and x: "users (durable V w) (u_id x) = Some x"
    and pw: "pwd_verify sec (ul_password data) (u_password_hash x) = Inr True" and email: "ul_email data = u_email x"
  shows "wp (login db sec st data)
    (\<lambda>resp w'. \<exists>issued. resp = token_response_of (login_token sec st issued (u_id x)))
    (\<lambda>e w'. db_error e) w"
proof -
  have same: "y = x" if "users (durable V w) (u_id y) = Some y" "u_email y = ul_email data" for y
  proof -
    have "u_id y = u_id x"
      by (rule unique_byD [where f = u_email, OF valid_db_unique(1) [OF ok] that(1) x]) (use that email in simp)
    then have "Some y = Some x" by (simp only: that(1) [symmetric] x [symmetric])
    then show ?thesis by simp
  qed
  show ?thesis
  proof (rule wp_mono [OF wp_login [OF law sec fresh]], goal_cases)
    case (1 resp w')
    then show ?case using same by blast
  next
    case (2 e w')
    have "\<exists>y. users (durable V w) (u_id y) = Some y \<and> u_email y = ul_email data \<and>
        pwd_verify sec (ul_password data) (u_password_hash y) = Inr False"
      if "\<forall>k x. users (durable V w) k = Some x \<longrightarrow> u_email x = ul_email data \<longrightarrow>
        (\<exists>y. users (durable V w) (u_id y) = Some y \<and> u_email y = ul_email data \<and>
          pwd_verify sec (ul_password data) (u_password_hash y) = Inr False)"
      using that x email by simp
    with 2 show ?case using same pw by fastforce
  qed
qed

section \<open>Health\<close>

text \<open>The health check answers in every state of Redis and says whether the ping was answered.\<close>

lemma wp_health_check:
  "wp (health_check settings rd)
    (\<lambda>j w'. \<exists>up. j = JObj [(''status'', JStr ''healthy''), (''service'', JStr (st_app_name settings)),
        (''version'', JStr ''1.0.0''),
        (''dependencies'', JObj [(''redis'', JStr (if up then ''connected'' else ''disconnected''))])] \<and>
      (up \<longleftrightarrow> redis_ping rd w = (Inr True, w')))
    (\<lambda>_ _. False) w"
  unfolding health_check_def is_healthy_def wp_simps
  by (cases "redis_ping rd w"; cases "fst (redis_ping rd w)") (auto simp: wp_def)

end
