(* ===== verification/Cache_Coherence.thy ===== *)
theory Cache_Coherence
  imports Wallet_Service
begin

text \<open>
  The cached balances against the database, for requests that run one after the other: every
  entry that may be served is the balance of the row. Reads keep it so, and a write that has answered
  has dropped the entries of the wallets it changed.
\<close>

section \<open>The invariant\<close>

definition coherent :: "'w kv \<Rightarrow> 'w absn \<Rightarrow> 'w \<Rightarrow> bool" where
  "coherent K V w \<longleftrightarrow>
     (\<forall>k x s t b. wallets (durable V w) k = Some x \<longrightarrow> entries K w (key_balance k) = Some (s, t) \<longrightarrow>
        dec_parse s = Some b \<longrightarrow> b = w_balance x)"

lemma coherentD:
  "coherent K V w \<Longrightarrow> wallets (durable V w) k = Some x \<Longrightarrow> entries K w (key_balance k) = Some (s, t) \<Longrightarrow>
     dec_parse s = Some b \<Longrightarrow> b = w_balance x"
  unfolding coherent_def by blast

lemma coherent_seen:
  assumes "coherent K V w" and "own_row V user w x" and "balance_seen K w x b" and "exclusive K"
  shows "b = w_balance x"
  using assms coherentD [OF assms(1), of "w_id x" x] unfolding own_row_def balance_seen_def by blast

lemma coherent_filled:
  assumes ex: "exclusive K" and c: "coherent K V w" and x: "own_row V user w x" and d: "durable V w' = durable V w"
    and f: "cache_filled K x w w'"
  shows "coherent K V w'"
  using f unfolding cache_filled_def
proof
  assume "kv_same K w w'"
  then show ?thesis using c d by (simp add: coherent_def kv_step_exclusive [OF ex])
next
  assume s: "kv_step K (set_key (key_balance (w_id x)) TTL_BALANCE (dec_str (w_balance x)) (entries K w)) w w'"
  show ?thesis
    unfolding coherent_def d
  proof (intro allI impI)
    fix k y v t b
    assume y: "wallets (durable V w) k = Some y" "entries K w' (key_balance k) = Some (v, t)" "dec_parse v = Some b"
    show "b = w_balance y"
    proof (cases "k = w_id x")
      case True
      with s y x have "v = dec_str (w_balance x)" "y = x" by (auto simp: kv_step_exclusive [OF ex] set_key_def own_row_def)
      with y(3) show ?thesis by (simp add: dec_parse_str)
    next
      case False
      with s y(2) have "entries K w (key_balance k) = Some (v, t)" by (simp add: kv_step_exclusive [OF ex] set_key_def)
      with c y show ?thesis by (blast dest: coherentD)
    qed
  qed
qed

section \<open>Computations that at most drop balances\<close>

definition drops_only :: "'w kv \<Rightarrow> 'w \<Rightarrow> 'w \<Rightarrow> bool" where
  "drops_only K w w' \<longleftrightarrow>
     (\<forall>k. entries K w' (key_balance k) = None \<or> entries K w' (key_balance k) = entries K w (key_balance k))"

abbreviation only_drops :: "'w kv \<Rightarrow> ('w, 'a) io \<Rightarrow> bool" where
  "only_drops K \<equiv> leaves (drops_only K)"

lemma drops_only_refl: "drops_only K w w"
  by (simp add: drops_only_def)

lemma drops_only_trans: "drops_only K w w1 \<Longrightarrow> drops_only K w1 w2 \<Longrightarrow> drops_only K w w2"
  unfolding drops_only_def by metis

lemma drops_only_same: "exclusive K \<Longrightarrow> kv_same K w w' \<Longrightarrow> drops_only K w w'"
  by (simp add: drops_only_def kv_step_exclusive)

interpretation drops_frame: py_frame "drops_only K" for K
  by unfold_locales (simp_all add: drops_only_refl drops_only_trans)

lemmas only_drops_rules = drops_frame.leaves_rules

lemma only_drops_keeps: "exclusive K \<Longrightarrow> keeps_redis K m \<Longrightarrow> only_drops K m"
  by (erule leaves_weaken) (rule drops_only_same)

lemmas only_drops_wp = wp_leaves [where S = "drops_only K" for K]

lemmas only_drops_wpI = leavesI [where S = "drops_only K" for K]

text \<open>The Redis commands the services send, other than storing a balance.\<close>

lemma only_drops_commands:
  assumes ex: "exclusive K" and law: "lawful_redis rd K"
  shows "only_drops K (redis_get rd s)" "only_drops K (redis_delete rd s)" "only_drops K (redis_pipeline_delete rd ss)"
    "only_drops K (redis_setex rd (key_idempotency key) ttl v)"
proof -
  show "only_drops K (redis_get rd s)"
    by (rule only_drops_wpI, rule wp_mono [OF redis_laws(1) [OF law]]) (auto simp: kv_failed_def drops_only_same [OF ex])
  show "only_drops K (redis_delete rd s)"
    by (rule only_drops_wpI, rule wp_mono [OF redis_laws(3) [OF law]])
      (auto simp: kv_failed_def kv_step_exclusive [OF ex] drops_only_def del_keys_def)
  show "only_drops K (redis_pipeline_delete rd ss)"
    by (rule only_drops_wpI, rule wp_mono [OF redis_laws(4) [OF law]])
      (auto simp: kv_failed_def kv_step_exclusive [OF ex] drops_only_def del_keys_def)
  show "only_drops K (redis_setex rd (key_idempotency key) ttl v)"
    by (rule only_drops_wpI, rule wp_mono [OF redis_laws(2) [OF law]])
      (auto simp: kv_failed_def kv_step_exclusive [OF ex] drops_only_def set_key_def)
qed

lemma only_drops_db:
  assumes ex: "exclusive K" and keep: "session_keeps_redis db K" and law: "law_attrs db V"
  shows "only_drops K (select_wallet db wc fu)" "only_drops K (select_txn db tc)"
    "only_drops K (update_wallet db k ev nb nv)" "only_drops K (commit_tx db)" "only_drops K (rollback_tx db)"
    "only_drops K (refresh_wallet db k)" "only_drops K (wallet_attrs db k)" "only_drops K (txn_attrs db k)"
    "only_drops K (execute_transfer db a b amount currency key description)"
  by (rule only_drops_keeps [OF ex], rule keeps_redis_session [OF keep] keeps_redis_attrs [OF law]
      keeps_redis_execute_transfer [OF keep law])+

lemma only_drops_finish:
  assumes "exclusive K" "session_keeps_redis db K" "law_attrs db V" "lawful_redis rd K"
  shows "only_drops K (finish_top_up db k (Some rd))"
  unfolding finish_top_up_def option.case invalidate_balance_def invalidate_wallet_info_def
  by (intro only_drops_rules only_drops_db [OF assms(1-3)] only_drops_commands [OF assms(1,4)])

lemma only_drops_top_up:
  assumes "exclusive K" "session_keeps_redis db K" "law_attrs db V" "lawful_redis rd K"
  shows "only_drops K (top_up db user amount (Some rd))"
proof -
  have "only_drops K (top_up_loop db user amount (Some rd) ns)" for ns
  proof (induction ns)
    case (Cons n ns)
    show ?case
      unfolding top_up_loop.simps wallet_get_by_user_id_def wallet_update_balance_def Let_def
      by (intro only_drops_rules only_drops_db [OF assms(1-3)] only_drops_finish [OF assms] Cons.IH)
  qed (simp add: only_drops_rules)
  then show ?thesis by (simp add: top_up_def)
qed

lemma only_drops_attempt:
  assumes "exclusive K" "session_keeps_redis db K" "law_attrs db V" "lawful_redis rd K"
  shows "only_drops K (attempt_payment cdc db a b req (Some rd))"
  unfolding attempt_payment_def post_commit_def store_key_def option.case Let_def key_idempotency_def [symmetric]
  by (intro only_drops_rules only_drops_db [OF assms(1-3)] only_drops_commands [OF assms(1,4)])

lemma only_drops_handler:
  assumes "exclusive K" "session_keeps_redis db K" "law_attrs db V" "only_drops K continue"
  shows "only_drops K (handle_payment_error db req n continue e)"
proof -
  note rules = only_drops_rules only_drops_db [OF assms(1-3)] assms(4)
  consider "e = Library IntegrityError" | "e = Domain OptimisticLockException"
    | "e \<noteq> Library IntegrityError" "e \<noteq> Domain OptimisticLockException" by blast
  then show ?thesis
  proof cases
    case 1
    show ?thesis
      unfolding 1 handle_payment_error_def exn.case library_exn.case txn_get_by_idempotency_key_def by (intro rules)
  next
    case 2
    show ?thesis
      unfolding 2 handle_payment_error_def exn.case domain_exn.case by (intro rules)
  next
    case 3
    show ?thesis unfolding handle_other [OF 3] by (intro rules)
  qed
qed

lemma only_drops_send_money:
  assumes "exclusive K" "session_keeps_redis db K" "law_attrs db V" "lawful_redis rd K"
  shows "only_drops K (send_money cdc db user req (Some rd))"
proof -
  have loop: "only_drops K (payment_loop cdc db a b req (Some rd) ns le)" for a b ns le
  proof (induction ns arbitrary: le)
    case (Cons n ns)
    show ?case
      unfolding payment_loop.simps
      by (intro only_drops_rules only_drops_attempt [OF assms] only_drops_handler [OF assms(1-3)] Cons.IH)
  qed (simp add: only_drops_rules)
  have "only_drops K (send_uncached cdc db user req (Some rd))"
    unfolding send_uncached_def txn_get_by_idempotency_key_def wallet_get_by_user_id_def
    by (intro only_drops_rules only_drops_db [OF assms(1-3)] loop)
  moreover have "only_drops K (check_key (pr_idempotency_key req) (Some rd))"
    unfolding check_key_def option.case by (intro only_drops_rules only_drops_commands [OF assms(1,4)])
  moreover have "only_drops K (replay_cached cdc j)" for j
    unfolding replay_cached_def by (cases j; simp only: json.case; intro only_drops_rules)
  ultimately show ?thesis
    unfolding send_money_def by (intro only_drops_rules)
qed

section \<open>Requests one after the other\<close>

lemma coherent_dropped:
  "coherent K V w \<Longrightarrow> durable V w' = durable V w \<Longrightarrow> drops_only K w w' \<Longrightarrow> coherent K V w'"
  unfolding coherent_def drops_only_def by (metis option.distinct(1))

text \<open>A changed wallet whose entry is gone, all others as they were.\<close>

lemma coherent_changed:
  assumes c: "coherent K V w" and dr: "drops_only K w w'"
    and rows: "\<And>k. k \<in> A \<Longrightarrow> entries K w' (key_balance k) = None"
      "\<And>k. k \<notin> A \<Longrightarrow> wallets (durable V w') k = wallets (durable V w) k"
  shows "coherent K V w'"
  unfolding coherent_def
proof (intro allI impI)
  fix k x s t b
  assume h: "wallets (durable V w') k = Some x" "entries K w' (key_balance k) = Some (s, t)" "dec_parse s = Some b"
  then have "k \<notin> A" using rows(1) by auto
  then have "wallets (durable V w) k = Some x" using rows(2) h(1) by simp
  moreover have "entries K w (key_balance k) = Some (s, t)"
    using dr h(2) unfolding drops_only_def by (metis option.distinct(1))
  ultimately show "b = w_balance x" using c h(3) by (blast dest: coherentD)
qed

text \<open>Reads answer with the balance of the row.\<close>

lemma wp_get_wallet_coherent:
  assumes ex: "exclusive K" and law: "lawful_session db V alone" and cl: "client_ok rc K V alone" and keep: "session_keeps_redis db K"
    and fresh: "fresh_session V w" and c: "coherent K V w"
  shows "wp (get_wallet db user rc)
    (\<lambda>resp w'. coherent K V w' \<and> (\<exists>x. own_row V user w x \<and> resp = wallet_response_of x))
    (\<lambda>_ w'. coherent K V w') w"
proof (rule wp_mono [OF wp_get_wallet [OF law cl keep fresh]], goal_cases)
  case (1 resp w')
  then obtain x b where x: "own_row V user w x" "balance_seen K w x b" "cache_filled K x w w'"
      "resp = wallet_response_of (x\<lparr>w_balance := b\<rparr>)" and d: "durable V w' = durable V w"
    by (auto simp: alone_def)
  have "b = w_balance x" by (rule coherent_seen [OF c x(1,2) ex])
  with x have "resp = wallet_response_of x" by simp
  with x(1) coherent_filled [OF ex c x(1) d x(3)] show ?case by blast
next
  case (2 e w')
  then have "durable V w' = durable V w" "drops_only K w w'" by (simp_all add: alone_def drops_only_same [OF ex])
  then show ?case by (rule coherent_dropped [OF c])
qed

lemma wp_get_balance_fast_coherent:
  assumes ex: "exclusive K" and law: "lawful_session db V alone" and cl: "client_ok rc K V alone" and keep: "session_keeps_redis db K"
    and fresh: "fresh_session V w" and c: "coherent K V w"
  shows "wp (get_balance_fast db user rc)
    (\<lambda>b w'. coherent K V w' \<and> (\<exists>x. own_row V user w x \<and> b = w_balance x)) (\<lambda>_ w'. coherent K V w') w"
proof (rule wp_mono [OF wp_get_balance_fast [OF law cl keep fresh]], goal_cases)
  case (1 b w')
  then obtain x where x: "own_row V user w x" "balance_seen K w x b" "cache_filled K x w w'"
    and d: "durable V w' = durable V w" by (auto simp: alone_def)
  with coherent_seen [OF c x(1,2) ex] coherent_filled [OF ex c x(1) d x(3)] show ?case by blast
next
  case (2 e w')
  then have "durable V w' = durable V w" "drops_only K w w'" by (simp_all add: alone_def drops_only_same [OF ex])
  then show ?case by (rule coherent_dropped [OF c])
qed

text \<open>
  Writes that answer leave no stale entry. After an exception of one of the two stores an entry can be
  stale: the commit may have happened, and the drop may not.
\<close>

lemma wp_top_up_coherent:
  assumes ex: "exclusive K" and law: "lawful_session db V alone" and rd: "lawful_redis rd K" "redis_keeps_db rd V alone" "redis_up rd"
    and keep: "session_keeps_redis db K" and fresh: "fresh_session V w" and amt: "whole_cents amount"
    and c: "coherent K V w"
  shows "wp (top_up db user amount (Some rd)) (\<lambda>_ w'. coherent K V w') (\<lambda>e w'. coherent K V w' \<or> db_error e) w"
proof -
  have cl: "client_ok (Some rd) K V alone" using rd by simp
  note drops = only_drops_top_up [OF ex keep lawful_laws(11) [OF law] rd(1)]
  show ?thesis
  proof (rule wp_mono [OF only_drops_wp [OF drops wp_top_up [OF law cl keep fresh amt]]], goal_cases)
    case (1 resp w')
    then obtain z where t: "topped_up V alone user amount z w w'" and b: "balance_dropped K (Some rd) (w_id z) w'"
      and dr: "drops_only K w w'" by blast
    from t have "durable V w' = put_wallet z (durable V w)" unfolding topped_up_def alone_def by (elim exE conjE) simp
    then have "wallets (durable V w') k = wallets (durable V w) k" if "k \<noteq> w_id z" for k
      using that by simp
    with b rd(3) ex show ?case
      by (intro coherent_changed [OF c dr, of "{w_id z}"]) (simp_all add: balance_dropped_def)
  next
    case (2 e w')
    then show ?case using coherent_dropped [OF c] by (auto simp: top_up_failed_def alone_def)
  qed
qed

lemma wp_send_money_coherent:
  assumes ex: "exclusive K" and law: "lawful_session db V alone" and rd: "lawful_redis rd K" "redis_keeps_db rd V alone"
    and keep: "session_keeps_redis db K" and cdc: "lawful_codec cdc" and fresh: "fresh_session V w"
    and cs: "cache_sound cdc K V w" and amt: "whole_cents (pr_amount req)" and c: "coherent K V w"
  shows "wp (send_money cdc db user req (Some rd)) (\<lambda>_ w'. coherent K V w') (\<lambda>e w'. coherent K V w' \<or> lost_answer e) w"
proof -
  have cl: "client_ok (Some rd) K V alone" using rd by simp
  note drops = only_drops_send_money [OF ex keep lawful_laws(11) [OF law] rd(1)]
  show ?thesis
  proof (rule wp_mono [OF only_drops_wp [OF drops wp_send_money [OF law cl keep cdc fresh cs amt]]], goal_cases)
    case (1 resp w')
    then obtain y where dr: "drops_only K w w'"
      and out: "alone {} (durable V w) (durable V w') \<or> settled K (Some rd) V alone user req y w w'"
      by (auto simp: send_answered_def)
    from out show ?case
    proof
      assume "alone {} (durable V w) (durable V w')"
      then show ?thesis using coherent_dropped [OF c _ dr] by (simp add: alone_def)
    next
      assume "settled K (Some rd) V alone user req y w w'"
      then obtain a b where tr: "transfers a b (pr_amount req) (pr_currency req) (pr_idempotency_key req)
          (pr_description req) (durable V w) y (durable V w')" and d: "dropped K (Some rd) a w'" "dropped K (Some rd) b w'"
        by (auto simp: settled_def alone_def)
      show ?thesis
        by (rule coherent_changed [OF c dr, of "{a, b}"])
          (use d ex transfers_rows(2) [OF tr] in \<open>auto simp: dropped_def\<close>)
    qed
  next
    case (2 e w')
    then show ?case using coherent_dropped [OF c, of w'] by (auto simp: send_failed_def refused_def alone_def)
  qed
qed

end
