(* ===== verification/Logging.thy ===== *)
theory Logging
  imports Http Security
begin

text \<open>
  \<open>app/core/logging_config.py\<close>: the two formatters, the configuration of the root logger, and what
  the handlers write for a record. The instants appear as the text that \<open>isoformat\<close> and \<open>strftime\<close>
  make of them.
\<close>

section \<open>Formatters\<close>

text \<open>
  The parts of a \<open>logging.LogRecord\<close> that are read: \<open>lr_message\<close> is \<open>getMessage()\<close>. Where \<open>lr_exc_info\<close> is there,
  \<open>exc_info[1]\<close> is the exception, with type name and text, or \<open>None\<close>, when a record was made with \<open>exc_info=True\<close>
  outside of a handler.
\<close>

record log_record =
  lr_levelname :: string
  lr_module :: string
  lr_funcName :: string
  lr_lineno :: int
  lr_message :: string
  lr_exc_info :: "(string \<times> string) option option"

definition log_entry :: "settings \<Rightarrow> string \<Rightarrow> context_vars \<Rightarrow> log_record \<Rightarrow> json" where
  "log_entry settings timestamp cv rec = JObj
     ([(''timestamp'', JStr timestamp), (''level'', JStr (lr_levelname rec)), (''service'', JStr (st_app_name settings)),
       (''module'', JStr (lr_module rec)), (''function'', JStr (lr_funcName rec)), (''line'', JInt (lr_lineno rec)),
       (''message'', JStr (lr_message rec)), (''request_id'', JStr (ctx_get (cv_request_id cv) ''-'')),
       (''user_id'', JStr (ctx_get (cv_user_id cv) ''anonymous''))] @
      (case lr_exc_info rec of
         Some (Some (ty, msg)) \<Rightarrow> [(''exception'', JObj [(''type'', JStr ty), (''message'', JStr msg)])]
       | _ \<Rightarrow> []))"

definition json_format :: "settings \<Rightarrow> string \<Rightarrow> context_vars \<Rightarrow> log_record \<Rightarrow> string" where
  "json_format settings timestamp cv rec = dumps (log_entry settings timestamp cv rec)"

text \<open>\<open>f"{s:<8}"\<close> fills up to eight characters, \<open>s[:8]\<close> cuts after them.\<close>

definition pad8 :: "string \<Rightarrow> string" where
  "pad8 s = s @ replicate (8 - length s) (CHR '' '')"

definition dev_format :: "string \<Rightarrow> context_vars \<Rightarrow> log_record \<Rightarrow> string" where
  "dev_format hms cv rec =
     (let rid = take 8 (ctx_get (cv_request_id cv) ''-''); uid = take 8 (ctx_get (cv_user_id cv) ''anon'')
      in hms @ '' | '' @ pad8 (lr_levelname rec) @ '' | rid='' @ rid @ '' uid='' @ uid @
         '' | '' @ lr_module rec @ ''.'' @ lr_funcName rec @ '' | '' @ lr_message rec)"

section \<open>Configuration\<close>

datatype formatter = DevFormatter | JSONFormatter

record loggers =
  root_level :: log_level
  root_handlers :: "formatter list"
  logger_levels :: "(string \<times> log_level) list"

definition setup_logging :: "settings \<Rightarrow> loggers \<Rightarrow> loggers" where
  "setup_logging settings ls =
     ls\<lparr>root_level := INFO,
        root_handlers := [if st_debug settings then DevFormatter else JSONFormatter],
        logger_levels := (''uvicorn.access'', WARNING) # (''sqlalchemy.engine'', WARNING) # logger_levels ls\<rparr>"

text \<open>
  What \<open>logging\<close> does with a record: the level of the nearest configured logger up the dotted name
  decides, the handlers of the root write it.
\<close>

fun severity :: "log_level \<Rightarrow> nat" where
  "severity INFO = 20"
| "severity WARNING = 30"
| "severity ERROR = 40"

definition parent_logger :: "string \<Rightarrow> string" where
  "parent_logger name = rev (tl (dropWhile (\<lambda>c. c \<noteq> CHR ''.'') (rev name)))"

lemma length_parent_logger: "CHR ''.'' \<in> set name \<Longrightarrow> length (parent_logger name) < length name"
proof -
  assume "CHR ''.'' \<in> set name"
  then have "dropWhile (\<lambda>c. c \<noteq> CHR ''.'') (rev name) \<noteq> []" by (auto simp: dropWhile_eq_Nil_conv)
  moreover have "length (dropWhile (\<lambda>c. c \<noteq> CHR ''.'') (rev name)) \<le> length name"
    using length_dropWhile_le [of _ "rev name"] by simp
  ultimately show ?thesis by (cases "dropWhile (\<lambda>c. c \<noteq> CHR ''.'') (rev name)") (auto simp: parent_logger_def)
qed

function effective_level :: "loggers \<Rightarrow> string \<Rightarrow> log_level" where
  "effective_level ls name =
     (case map_of (logger_levels ls) name of
        Some l \<Rightarrow> l
      | None \<Rightarrow> if CHR ''.'' \<in> set name then effective_level ls (parent_logger name) else root_level ls)"
  by pat_completeness auto
termination
  by (relation "measure (length \<circ> snd)") (auto simp: length_parent_logger)

declare effective_level.simps [simp del]

definition written :: "settings \<Rightarrow> loggers \<Rightarrow> string \<Rightarrow> log_level \<Rightarrow> string \<Rightarrow> string \<Rightarrow> context_vars \<Rightarrow> log_record \<Rightarrow> string list" where
  "written settings ls name lv utc hms cv rec =
     (if severity (effective_level ls name) \<le> severity lv
      then map (\<lambda>f. case f of JSONFormatter \<Rightarrow> json_format settings utc cv rec | DevFormatter \<Rightarrow> dev_format hms cv rec)
        (root_handlers ls)
      else [])"

section \<open>A JSON log line is one line\<close>

text \<open>Whatever the message contains, the text is printable ASCII: no line break can be injected.\<close>

definition printable :: "char \<Rightarrow> bool" where
  "printable c \<longleftrightarrow> 32 \<le> ord c \<and> ord c \<le> 126"

lemma printable_ascii [simp]:
  "printable quote" "printable backslash" "printable (CHR ''-'')" "printable (CHR ''['')" "printable (CHR '']'')"
  "printable (CHR ''{'')" "printable (CHR ''}'')" "printable (CHR '','')" "printable (CHR '' '')" "printable (CHR '':'')"
  "list_all printable ''null''" "list_all printable ''true''" "list_all printable ''false''"
  "list_all printable ''nrtfbu''"
  by (simp_all add: printable_def ord_def quote_def backslash_def)

lemma printable_digit: "is_digit c \<Longrightarrow> printable c"
  by (simp add: is_digit_ord printable_def)

lemma printable_nat_str: "list_all printable (nat_str n)"
  using nat_str_digits [of n] by (auto simp: list_all_iff printable_digit)

lemma printable_hex_char: "n < 16 \<Longrightarrow> printable (hex_char n)"
  by (auto simp: hex_char_def printable_digit is_digit_digit_char) (simp add: printable_def ord_def of_char_of)

lemma printable_hex_str: "list_all printable (hex_str k n)"
  by (induction k arbitrary: n) (simp_all add: printable_hex_char)

lemma printable_escape: "list_all printable (escape_char c)"
  using printable_ascii(14) printable_hex_str [of 4 "ord c"]
  by (auto simp: escape_char_def simp del: hex_str.simps) (auto simp: printable_def)

lemma printable_string: "list_all printable (dumps_string s)"
  using printable_escape by (auto simp: dumps_string_def list_all_iff)

lemma printable_join: "list_all (list_all printable) ss \<Longrightarrow> list_all printable (join_comma ss)"
  by (induction ss rule: join_comma.induct) simp_all

lemma printable_dumps: "plain_json j \<Longrightarrow> list_all printable (dumps j)"
proof (induction j)
  case (JInt n)
  then show ?case using printable_nat_str by (simp add: int_str_def)
next
  case (JArr js)
  then have "list_all printable (join_comma (map dumps js))"
    by (intro printable_join) (auto simp: list_all_iff)
  then show ?case by simp
next
  case (JObj ps)
  have "list_all printable (join_comma (map (\<lambda>(k, v). dumps_string k @ '': '' @ dumps v) ps))"
  proof (rule printable_join, unfold list_all_iff, intro ballI)
    fix s c
    assume "s \<in> set (map (\<lambda>(k, v). dumps_string k @ '': '' @ dumps v) ps)" "c \<in> set s"
    then obtain k v where kv: "(k, v) \<in> set ps" "c \<in> set (dumps_string k @ '': '' @ dumps v)" by auto
    then have "list_all printable (dumps v)"
      using JObj.IH [of "(k, v)" v] JObj.prems by (force simp: snds.simps)
    with kv printable_string [of k] show "printable c"
      by (auto simp: list_all_iff)
  qed
  then show ?case by simp
qed (simp_all add: printable_string, simp_all add: printable_def ord_def)

lemma plain_log_entry: "plain_json (log_entry settings timestamp cv rec)"
  by (simp add: log_entry_def split: option.split)

lemma json_line:
  "loads (json_format settings timestamp cv rec) = Some (log_entry settings timestamp cv rec) \<and>
     list_all printable (json_format settings timestamp cv rec)"
  unfolding json_format_def using plain_log_entry loads_dumps printable_dumps by blast

text \<open>The fields of the entry, read by name.\<close>

lemma log_entry_fields:
  "json_get ''timestamp'' (log_entry settings timestamp cv rec) = Some (JStr timestamp)"
  "json_get ''level'' (log_entry settings timestamp cv rec) = Some (JStr (lr_levelname rec))"
  "json_get ''service'' (log_entry settings timestamp cv rec) = Some (JStr (st_app_name settings))"
  "json_get ''module'' (log_entry settings timestamp cv rec) = Some (JStr (lr_module rec))"
  "json_get ''function'' (log_entry settings timestamp cv rec) = Some (JStr (lr_funcName rec))"
  "json_get ''line'' (log_entry settings timestamp cv rec) = Some (JInt (lr_lineno rec))"
  "json_get ''message'' (log_entry settings timestamp cv rec) = Some (JStr (lr_message rec))"
  "json_get ''request_id'' (log_entry settings timestamp cv rec) = Some (JStr (ctx_get (cv_request_id cv) ''-''))"
  "json_get ''user_id'' (log_entry settings timestamp cv rec) = Some (JStr (ctx_get (cv_user_id cv) ''anonymous''))"
  by (simp_all add: log_entry_def)

lemma log_entry_exception:
  "json_get ''exception'' (log_entry settings timestamp cv rec) =
     (case lr_exc_info rec of
        Some (Some (ty, msg)) \<Rightarrow> Some (JObj [(''type'', JStr ty), (''message'', JStr msg)]) | _ \<Rightarrow> None)"
  by (simp add: log_entry_def split: option.split prod.split)

section \<open>After the configuration\<close>

lemma effective_quiet:
  assumes "name = ''sqlalchemy.engine'' \<or> name = ''uvicorn.access''"
  shows "effective_level (setup_logging settings ls) name = WARNING"
  using assms by (auto simp: setup_logging_def effective_level.simps)

lemma setup_handlers:
  "root_handlers (setup_logging settings (setup_logging settings ls)) = root_handlers (setup_logging settings ls)"
  "length (root_handlers (setup_logging settings ls)) = 1"
  by (simp_all add: setup_logging_def)

lemma written_json:
  assumes "\<not> st_debug settings" and "severity (effective_level (setup_logging settings ls) name) \<le> severity lv"
  shows "written settings (setup_logging settings ls) name lv utc hms cv rec = [json_format settings utc cv rec]"
  using assms by (simp add: written_def) (simp add: setup_logging_def)

end
