(* ===== verification/Demo.thy ===== *)
theory Demo
  imports Memory Api_Guarantees Cache_Coherence Logging
begin

text \<open>
  The remaining parameters held in memory (a password scheme, tokens, the server around the
  requests), with the proofs that they satisfy their laws, and the example requests on which the
  properties are run.
\<close>

section \<open>Passwords and tokens\<close>

definition mem_jwt_decode :: "int \<Rightarrow> string \<Rightarrow> string \<Rightarrow> string list \<Rightarrow> exn + (string \<times> json) list" where
  "mem_jwt_decode now t key algs =
     (case loads t of
        Some (JArr [JObj pl, JStr k, JStr a]) \<Rightarrow>
          if k \<noteq> key \<or> a \<notin> set algs then Inl (Library JWTError)
          else (case map_of pl ''exp'' of
                  Some (JInt e) \<Rightarrow> if now \<le> e then Inr pl else Inl (Library JWTError)
                | _ \<Rightarrow> Inr pl)
      | _ \<Rightarrow> Inl (Library JWTError))"

definition mem_security :: "mem security" where
  "mem_security =
     \<lparr>pwd_hash = \<lambda>p. if password_refused p then py_raise (Library ValueError) else py_return (CHR ''#'' # p),
      pwd_verify = \<lambda>p h. if password_refused p then Inl (Library ValueError) else Inr (h = CHR ''#'' # p),
      jwt_encode = \<lambda>pl key alg. dumps (JArr [JObj pl, JStr key, JStr alg]),
      jwt_decode = mem_jwt_decode, utc_now = \<lambda>m. (Inr (m_now m), m)\<rparr>"

lemma mem_jwt_decode_encode:
  assumes "plain_json (JObj pl)" and "map_of pl ''exp'' = Some (JInt e)"
  shows "mem_jwt_decode now (dumps (JArr [JObj pl, JStr key, JStr alg])) key [alg] =
    (if now \<le> e then Inr pl else Inl (Library JWTError))"
proof -
  have "loads (dumps (JArr [JObj pl, JStr key, JStr alg])) = Some (JArr [JObj pl, JStr key, JStr alg])"
    by (rule loads_dumps) (use assms(1) in simp)
  then show ?thesis using assms(2) by (simp add: mem_jwt_decode_def del: dumps.simps)
qed

lemma mem_jwt_decode_error: "mem_jwt_decode now t key algs = Inl e \<Longrightarrow> e = Library JWTError"
  by (auto simp: mem_jwt_decode_def split: option.splits json.splits list.splits if_splits)

lemma lawful_mem_security: "lawful_security mem_security obs"
  unfolding lawful_security_def
  by (simp add: mem_security_def wp_def py_return_def py_raise_def mem_jwt_decode_encode del: dumps.simps)
    (blast dest: mem_jwt_decode_error)

definition mem_server :: "mem server" where
  "mem_server = \<lparr>new_uuid4 = py_return (UUID 7), perf_counter = py_return 0, emit_log = \<lambda>cv l s. py_return ()\<rparr>"

lemma lawful_mem_server: "lawful_server mem_server obs"
  by (simp add: lawful_server_def mem_server_def wp_def py_return_def)

section \<open>Requests\<close>

definition demo_http :: "(exn + string) \<Rightarrow> request" where
  "demo_http bearer =
     \<lparr>rq_method = ''POST'', rq_path = ''/api/v1/payments/send'', rq_header = \<lambda>h. None, rq_client_host = ''10.0.0.1'',
      rq_state_user_id = None, rq_bearer = bearer\<rparr>"

definition demo_token :: string where
  "demo_token = login_token mem_security default_settings 1000 alice"

lemma demo_bearer: "rq_bearer (demo_http (Inr demo_token)) = Inr (login_token mem_security default_settings 1000 alice)"
  by (simp add: demo_http_def demo_token_def)

definition demo_signup :: user_create_data where
  "demo_signup = \<lparr>uc_email = ''c@x.org'', uc_password = ''secret34'', uc_full_name = ''Carol''\<rparr>"

definition demo_login :: user_login where
  "demo_login = \<lparr>ul_email = ''a@x.org'', ul_password = ''secret12''\<rparr>"

lemma demo_coherent: "coherent mem_kv mem_absn demo"
  by (simp add: coherent_def demo_def)

lemma demo_durable: "durable mem_absn demo = tables_of demo_rows"
  by (simp add: demo_def)

lemma demo_finite: "finite (dom (wallets (durable mem_absn demo)))"
  by (simp add: demo_def finite_dom_map_of)

lemma demo_alice: "users (durable mem_absn demo) alice = Some (demo_user alice ''a@x.org'')"
  by (simp add: demo_defs)

lemma demo_recorded: "txns (durable mem_absn demo) (t_id demo_txn) = Some demo_txn"
  by (simp add: demo_defs)

end
