(* ===== verification/Lock_Order.thy ===== *)
theory Lock_Order
  imports Payment Wallet_Service
begin

text \<open>
  Why concurrent requests do not block each other for good. The locks that a transfer or a top-up
  takes are read off the code by running it on a session that only writes down what it is asked to
  lock; they come in one order that all requests share. A system of requests that take their locks in
  that order and give them back at the end of the transaction can always go on to the end.
\<close>

section \<open>What is locked\<close>

text \<open>
  Rows of wallets, and entries of the unique index on the idempotency key (an insert waits for
  an uncommitted insert of the same key). Rows come first, in the order of their ids.
\<close>

datatype resource = Row uuid | Key string

instantiation resource :: order
begin

fun less_resource :: "resource \<Rightarrow> resource \<Rightarrow> bool" where
  "less_resource (Row a) (Row b) = (a < b)"
| "less_resource (Row a) (Key k) = True"
| "less_resource (Key k) r = False"

definition less_eq_resource :: "resource \<Rightarrow> resource \<Rightarrow> bool" where
  "less_eq_resource r s \<longleftrightarrow> r = s \<or> r < s"

instance
proof
  have irrefl: "\<not> r < r" for r :: resource by (cases r) simp_all
  have trans: "r < s \<Longrightarrow> s < t \<Longrightarrow> r < t" for r s t :: resource
    by (cases r; cases s; cases t) auto
  show "r < s \<longleftrightarrow> r \<le> s \<and> \<not> s \<le> r" for r s :: resource
    using irrefl [of r] irrefl [of s] trans [of r s r] unfolding less_eq_resource_def by auto
  show "r \<le> r" for r :: resource by (simp add: less_eq_resource_def)
  show "r \<le> s \<Longrightarrow> s \<le> t \<Longrightarrow> r \<le> t" for r s t :: resource
    using trans [of r s t] unfolding less_eq_resource_def by auto
  show "r \<le> s \<Longrightarrow> s \<le> r \<Longrightarrow> r = s" for r s :: resource
    using irrefl [of r] trans [of r s r] unfolding less_eq_resource_def by auto
qed

end

section \<open>The locks of a request\<close>

text \<open>
  A session that finds the wallets \<open>ws\<close>, lets every statement succeed, and notes each lock when it is
  first taken.
\<close>

definition note_lock :: "resource \<Rightarrow> resource list \<Rightarrow> resource list" where
  "note_lock r held = (if r \<in> set held then held else held @ [r])"

definition taking :: "resource \<Rightarrow> 'a \<Rightarrow> (resource list, 'a) io" where
  "taking r a held = (Inr a, note_lock r held)"

definition lock_session :: "(uuid \<Rightarrow> wallet) \<Rightarrow> (uuid \<Rightarrow> uuid) \<Rightarrow> transaction \<Rightarrow> resource list session" where
  "lock_session ws own txn =
     \<lparr>select_user = \<lambda>c. py_return None,
      select_wallet = \<lambda>c fu. (case c of
         Wallet_id k \<Rightarrow> if fu then taking (Row k) (Some k) else py_return (Some k)
       | Wallet_user_id u \<Rightarrow> if fu then taking (Row (own u)) (Some (own u)) else py_return (Some (own u))),
      select_txn = \<lambda>c. py_return None,
      count_txns = \<lambda>c. py_return 0,
      page_txns = \<lambda>c off cnt. py_return [],
      update_wallet = \<lambda>k ev nb nv. taking (Row k) 1,
      insert_user = \<lambda>n. py_return (t_id txn),
      insert_wallet = \<lambda>u. py_return (own u),
      insert_txn = \<lambda>n. taking (Key (nt_idempotency_key n)) (t_id txn),
      commit_tx = py_return (),
      rollback_tx = py_return (),
      refresh_user = \<lambda>k. py_return (),
      refresh_wallet = \<lambda>k. py_return (),
      refresh_txn = \<lambda>k. py_return (),
      user_attrs = \<lambda>k. py_raise (Library MissingGreenlet),
      wallet_attrs = \<lambda>k. py_return (ws k),
      txn_attrs = \<lambda>k. py_return txn,
      set_wallet_balance = \<lambda>k b. py_return ()\<rparr>"

definition transfer_locks ::
  "(uuid \<Rightarrow> wallet) \<Rightarrow> (uuid \<Rightarrow> uuid) \<Rightarrow> transaction \<Rightarrow> uuid \<Rightarrow> uuid \<Rightarrow> decimal \<Rightarrow> string \<Rightarrow> resource list" where
  "transfer_locks ws own txn a b amount key =
     snd (execute_transfer (lock_session ws own txn) a b amount ''USD'' key None [])"

definition top_up_locks ::
  "(uuid \<Rightarrow> wallet) \<Rightarrow> (uuid \<Rightarrow> uuid) \<Rightarrow> transaction \<Rightarrow> uuid \<Rightarrow> decimal \<Rightarrow> resource list" where
  "top_up_locks ws own txn u amount = snd (top_up (lock_session ws own txn) u amount None [])"

text \<open>In either order of the two wallets, whether the balance is enough or not.\<close>

definition ordered :: "resource list \<Rightarrow> bool" where
  "ordered rs \<longleftrightarrow> sorted_wrt (<) rs"

lemmas run_simps = py_bind_def py_return_def py_raise_def taking_def note_lock_def lock_session_def
  wallet_get_by_id_for_update_def wallet_get_by_user_id_def wallet_update_balance_def txn_create_def

lemma run_lock_wallets:
  assumes "\<And>k. w_id (ws k) = k" and "a \<noteq> b"
  shows "lock_wallets (lock_session ws own txn) a b [] = (Inr (a, b), map Row (sort [a, b]))"
  using assms by (auto simp: lock_wallets_def run_simps)

lemma run_move_money:
  assumes "\<And>k. w_id (ws k) = k" and "Row a \<in> set held" "Row b \<in> set held"
  shows "\<exists>r. move_money (lock_session ws own txn) a b amount held = (r, held)"
  using assms by (auto simp: move_money_def run_simps)

lemma transfer_locks_prefix:
  assumes ws: "\<And>k. w_id (ws k) = k" and ab: "a \<noteq> b"
  shows "transfer_locks ws own txn a b amount key \<in>
    {map Row (sort [a, b]), map Row (sort [a, b]) @ [Key key]}"
proof -
  let ?held = "map Row (sort [a, b])"
  obtain r where r: "move_money (lock_session ws own txn) a b amount ?held = (r, ?held)"
    using run_move_money [OF ws, of a ?held b own txn amount] by auto
  have key: "Key key \<notin> set ?held" by auto
  show ?thesis
  proof (cases r)
    case (Inl e)
    with r show ?thesis
      by (simp add: transfer_locks_def execute_transfer_def py_bind_def run_lock_wallets [OF ws ab])
  next
    case (Inr u)
    have "snd (execute_transfer (lock_session ws own txn) a b amount ''USD'' key None []) = ?held @ [Key key]"
      unfolding execute_transfer_def
      using r Inr key
      by (simp add: py_bind_def [of "lock_wallets _ _ _"] run_lock_wallets [OF ws ab] py_bind_def [of "move_money _ _ _ _"]
          del: set_map set_sort) (simp add: run_simps del: set_map set_sort)
    then show ?thesis by (simp add: transfer_locks_def)
  qed
qed

lemma transfer_locks_ordered:
  assumes "\<And>k. w_id (ws k) = k" and "a \<noteq> b"
  shows "ordered (transfer_locks ws own txn a b amount key)"
proof -
  have "ordered (map Row (sort [a, b]))" using assms(2) by (auto simp: ordered_def)
  moreover have "ordered (map Row (sort [a, b]) @ [Key key])" using assms(2) by (auto simp: ordered_def)
  ultimately show ?thesis using transfer_locks_prefix [OF assms, of own txn amount key] by auto
qed

lemma top_up_locks_ordered:
  assumes "\<And>k. w_id (ws k) = k"
  shows "ordered (top_up_locks ws own txn u amount)"
proof -
  have "[1..<MAX_TOPUP_RETRIES + 1] = [1, 2, 3]" by (simp add: MAX_TOPUP_RETRIES_def upt_conv_Cons)
  then have "top_up_locks ws own txn u amount = [Row (own u)]"
    using assms by (simp add: top_up_locks_def top_up_def run_simps finish_top_up_def Let_def)
  then show ?thesis by (simp add: ordered_def)
qed

section \<open>Requests side by side\<close>

text \<open>
  A request holds the locks it has taken and has others still to take. It takes the next one when
  nobody else holds it, ends its transaction when none is left, and may fail at any time, which
  gives back what it holds.
\<close>

record agent =
  held :: "resource list"
  todo :: "resource list"

definition finished :: agent where
  "finished = \<lparr>held = [], todo = []\<rparr>"

definition free_for :: "agent list \<Rightarrow> nat \<Rightarrow> resource \<Rightarrow> bool" where
  "free_for s i r \<longleftrightarrow> (\<forall>j < length s. j \<noteq> i \<longrightarrow> r \<notin> set (held (s ! j)))"

inductive goes_on :: "agent list \<Rightarrow> agent list \<Rightarrow> bool" where
  acquire: "i < length s \<Longrightarrow> s ! i = \<lparr>held = h, todo = r # rs\<rparr> \<Longrightarrow> free_for s i r \<Longrightarrow>
     goes_on s (s[i := \<lparr>held = h @ [r], todo = rs\<rparr>])"
| finish: "i < length s \<Longrightarrow> s ! i = \<lparr>held = h, todo = []\<rparr> \<Longrightarrow> h \<noteq> [] \<Longrightarrow> goes_on s (s[i := finished])"

inductive lock_step :: "agent list \<Rightarrow> agent list \<Rightarrow> bool" where
  on: "goes_on s t \<Longrightarrow> lock_step s t"
| fail: "i < length s \<Longrightarrow> lock_step s (s[i := finished])"

inductive_cases goes_onE: "goes_on s t"
inductive_cases lock_stepE: "lock_step s t"

text \<open>The invariant: every request goes through its locks in the common order.\<close>

definition in_order :: "agent list \<Rightarrow> bool" where
  "in_order s \<longleftrightarrow> (\<forall>x \<in> set s. sorted_wrt (<) (held x @ todo x))"

definition starts_with :: "resource list list \<Rightarrow> agent list" where
  "starts_with plans = map (\<lambda>p. \<lparr>held = [], todo = p\<rparr>) plans"

lemma in_order_start: "\<forall>p \<in> set plans. ordered p \<Longrightarrow> in_order (starts_with plans)"
  by (simp add: in_order_def starts_with_def ordered_def)

lemma in_order_update:
  "in_order s \<Longrightarrow> sorted_wrt (<) (held x @ todo x) \<Longrightarrow> in_order (s[i := x])"
  unfolding in_order_def using set_update_subset_insert [of s i x] by blast

lemma in_order_nth: "in_order s \<Longrightarrow> i < length s \<Longrightarrow> sorted_wrt (<) (held (s ! i) @ todo (s ! i))"
  by (simp add: in_order_def)

lemma goes_on_in_order: "goes_on s t \<Longrightarrow> in_order s \<Longrightarrow> in_order t"
proof (induction rule: goes_on.induct)
  case (acquire i s h r rs)
  then have "sorted_wrt (<) (h @ r # rs)" using in_order_nth [of s i] by simp
  with acquire show ?case by (intro in_order_update) simp_all
next
  case (finish i s h)
  then show ?case by (intro in_order_update) (simp_all add: finished_def)
qed

lemma lock_step_in_order: "lock_step s t \<Longrightarrow> in_order s \<Longrightarrow> in_order t"
  by (induction rule: lock_step.induct)
    (auto simp: finished_def intro: goes_on_in_order in_order_update)

lemma run_in_order: "lock_step\<^sup>*\<^sup>* s t \<Longrightarrow> in_order s \<Longrightarrow> in_order t"
  by (induction rule: rtranclp_induct) (auto intro: lock_step_in_order)

text \<open>
  Among the requests that wait, one waits for the greatest lock: whoever holds that one does not
  wait. So while a request is unfinished, some request goes on.
\<close>

lemma somebody_goes_on:
  assumes ord: "in_order s" and i: "i < length s" "s ! i \<noteq> finished"
  shows "\<exists>t. goes_on s t"
proof (rule ccontr)
  assume stuck: "\<nexists>t. goes_on s t"
  have waits: "todo (s ! j) \<noteq> []" if j: "j < length s" "s ! j \<noteq> finished" for j
  proof
    assume "todo (s ! j) = []"
    with j have "s ! j = \<lparr>held = held (s ! j), todo = []\<rparr>" "held (s ! j) \<noteq> []"
      by (cases "s ! j"; simp add: finished_def)+
    then show False using goes_on.finish [OF j(1)] stuck by blast
  qed
  have blocked: "\<exists>k < length s. k \<noteq> j \<and> hd (todo (s ! j)) \<in> set (held (s ! k))" if j: "j < length s" "s ! j \<noteq> finished" for j
  proof -
    obtain r rs where "todo (s ! j) = r # rs" using waits [OF j] by (cases "todo (s ! j)") auto
    then have "s ! j = \<lparr>held = held (s ! j), todo = r # rs\<rparr>" and r: "hd (todo (s ! j)) = r"
      by (cases "s ! j"; simp)+
    then have "\<not> free_for s j r" using goes_on.acquire [OF j(1)] stuck by blast
    with r show ?thesis by (auto simp: free_for_def)
  qed
  let ?A = "{hd (todo (s ! j)) | j. j < length s \<and> s ! j \<noteq> finished}"
  have fin: "finite ?A" by simp
  have ne: "?A \<noteq> {}" using i by blast
  from finite_has_maximal [OF fin ne]
  obtain m where m: "m \<in> ?A" and greatest: "\<forall>r \<in> ?A. m \<le> r \<longrightarrow> m = r" by (elim bexE)
  from m obtain j where j: "j < length s" "s ! j \<noteq> finished" "m = hd (todo (s ! j))" by blast
  obtain k where k: "k < length s" "m \<in> set (held (s ! k))" using blocked [OF j(1,2)] j(3) by blast
  then have "s ! k \<noteq> finished" by (auto simp: finished_def)
  then have w: "todo (s ! k) \<noteq> []" and A: "hd (todo (s ! k)) \<in> ?A" using waits k(1) by blast+
  obtain r rs where t: "todo (s ! k) = r # rs" using w by (cases "todo (s ! k)") auto
  have "sorted_wrt (<) (held (s ! k) @ r # rs)" using in_order_nth [OF ord k(1)] by (simp add: t)
  then have "m < r" using k(2) by (simp add: sorted_wrt_append)
  moreover have "r \<in> ?A" using A by (simp add: t)
  ultimately show False using greatest less_imp_le [of m r] by blast
qed

text \<open>Every step uses up a lock to take or a transaction to end, so all of them get done.\<close>

definition work :: "agent \<Rightarrow> nat" where
  "work x = 2 * length (todo x) + length (held x)"

lemma sum_list_update_less:
  fixes f :: "'a \<Rightarrow> nat"
  shows "i < length s \<Longrightarrow> f x < f (s ! i) \<Longrightarrow> sum_list (map f (s[i := x])) < sum_list (map f s)"
proof (induction s arbitrary: i)
  case (Cons y s)
  then show ?case by (cases i) simp_all
qed simp

lemma goes_on_work: "goes_on s t \<Longrightarrow> sum_list (map work t) < sum_list (map work s)"
  by (erule goes_onE) (auto intro!: sum_list_update_less simp: work_def finished_def)

lemma all_done:
  assumes "in_order s"
  shows "\<exists>t. goes_on\<^sup>*\<^sup>* s t \<and> set t \<subseteq> {finished}"
  using assms
proof (induction "sum_list (map work s)" arbitrary: s rule: less_induct)
  case less
  show ?case
  proof (cases "set s \<subseteq> {finished}")
    case False
    then obtain x where "x \<in> set s" "x \<noteq> finished" by blast
    then obtain i where "i < length s" "s ! i \<noteq> finished" by (auto simp: in_set_conv_nth)
    then obtain u where u: "goes_on s u" using somebody_goes_on [OF less.prems] by blast
    then obtain t where "goes_on\<^sup>*\<^sup>* u t" "set t \<subseteq> {finished}"
      using less.hyps [OF goes_on_work [OF u] goes_on_in_order [OF u less.prems]] by blast
    with u show ?thesis by (meson converse_rtranclp_into_rtranclp)
  qed blast
qed

text \<open>The requests of the program.\<close>

inductive_set request_locks :: "resource list set" where
  payment: "(\<And>k. w_id (ws k) = k) \<Longrightarrow> a \<noteq> b \<Longrightarrow> transfer_locks ws own txn a b amount key \<in> request_locks"
| top_up: "(\<And>k. w_id (ws k) = k) \<Longrightarrow> top_up_locks ws own txn u amount \<in> request_locks"

lemma request_locks_ordered: "p \<in> request_locks \<Longrightarrow> ordered p"
  by (induction rule: request_locks.induct) (simp_all add: transfer_locks_ordered top_up_locks_ordered)

end
