(* ===== verification/Ledger_Services.thy ===== *)
theory Ledger_Services
  imports Payment_Guarantees Wallet_Service User_Service
begin

text \<open>
  The contract that the writing services share: whatever else runs and however the call ends, what it
  makes durable is a run of ledger steps. The locale \<open>ledger_operation\<close> draws the consequences once; it is
  interpreted on sending money, topping up and registering.
\<close>

section \<open>The contract and what follows from it\<close>

locale ledger_operation =
  fixes V :: "'w absn" and run :: "('w, 'a) io" and ready :: "'w \<Rightarrow> bool"
  assumes ledger_run: "ready w \<Longrightarrow>
    wp run (\<lambda>_ w'. others {} (durable V w) (durable V w')) (\<lambda>_ w'. others {} (durable V w) (durable V w')) w"
begin

lemma consequence:
  assumes "ready w" and "\<And>t. others {} (durable V w) t \<Longrightarrow> P t"
  shows "wp run (\<lambda>_ w'. P (durable V w')) (\<lambda>_ w'. P (durable V w')) w"
  by (rule wp_mono [OF ledger_run [OF assms(1)]]) (simp_all add: assms(2))

lemma keeps_valid:
  assumes "ready w" and "valid_db (durable V w)"
  shows "wp run (\<lambda>_ w'. others {} (durable V w) (durable V w') \<and> valid_db (durable V w'))
    (\<lambda>_ w'. others {} (durable V w) (durable V w') \<and> valid_db (durable V w')) w"
  by (rule consequence [OF assms(1)]) (simp add: others_valid [OF _ assms(2)])

lemma loses_nothing:
  assumes "ready w" and "finite (dom (wallets (durable V w)))"
  shows "wp run (\<lambda>_ w'. total_cents (durable V w) \<le> total_cents (durable V w'))
    (\<lambda>_ w'. total_cents (durable V w) \<le> total_cents (durable V w')) w"
  by (rule consequence [OF assms(1)]) (use others_total [OF _ assms(2)] in blast)

text \<open>The ledger is append-only: a recorded transaction stays as it was written.\<close>

lemma appends:
  assumes "ready w"
  shows "wp run (\<lambda>_ w'. txns (durable V w) \<subseteq>\<^sub>m txns (durable V w')) (\<lambda>_ w'. txns (durable V w) \<subseteq>\<^sub>m txns (durable V w')) w"
  by (rule consequence [OF assms]) (simp add: others_rows)

end

section \<open>The three services\<close>

interpretation payment_op: ledger_operation V "send_money cdc db user req rc"
    "\<lambda>w. lawful_session db V others \<and> client_ok rc K V others \<and> session_keeps_redis db K \<and> lawful_codec cdc \<and>
       fresh_session V w \<and> cache_sound cdc K V w \<and> payment_request_valid req"
  for V cdc db user req rc K
  by (unfold_locales, elim conjE, rule wp_send_money_run, assumption+) (simp add: payment_request_valid_def)

interpretation top_up_op: ledger_operation V "top_up db user amount rc"
    "\<lambda>w. lawful_session db V others \<and> client_ok rc K V others \<and> session_keeps_redis db K \<and> fresh_session V w \<and>
       money_field amount"
  for V db user amount rc K
proof (unfold_locales, elim conjE)
  fix w
  assume h: "lawful_session db V others" "client_ok rc K V others" "session_keeps_redis db K" "fresh_session V w"
    and m: "money_field amount"
  have a: "whole_cents amount" "0 < cents amount" using money_field_cents [OF m] by simp_all
  show "wp (top_up db user amount rc)
      (\<lambda>_ w'. others {} (durable V w) (durable V w')) (\<lambda>_ w'. others {} (durable V w) (durable V w')) w"
    by (rule wp_mono [OF wp_top_up [OF h a(1)]]) (auto simp: top_up_failed_def dest: topped_up_others [OF _ a(2)])
qed

interpretation registration_op: ledger_operation V "register db sec data"
    "\<lambda>w. lawful_session db V others \<and> lawful_security sec (obs_db V) \<and> fresh_session V w"
  for V db sec data
  by (unfold_locales, elim conjE, rule wp_mono [OF wp_register [OF _ moves_users_others]], assumption+) (auto dest: registered_others)

end
