(* ===== verification/Application.thy ===== *)
theory Application
  imports Rate_Limit Security
begin

text \<open>
  \<open>app/main.py\<close>, \<open>app/api/v1/__init__.py\<close> and \<open>get_db\<close> of \<open>app/core/database.py\<close>: the life of the
  process and of a request's session, and the table of routes.
\<close>

section \<open>The session of a request\<close>

text \<open>\<open>try: m finally: final\<close>; an exception of the last part replaces the outcome of the first.\<close>

definition py_finally :: "('w, 'e, 'a) py \<Rightarrow> ('w, 'e, unit) py \<Rightarrow> ('w, 'e, 'a) py" where
  "py_finally m final w =
     (case m w of (r, w1) \<Rightarrow> (case final w1 of (Inl e, w2) \<Rightarrow> (Inl e, w2) | (Inr _, w2) \<Rightarrow> (r, w2)))"

lemma wp_finally [wp_simps]:
  "wp (py_finally m final) Q E w = wp m (\<lambda>a. wp final (\<lambda>_. Q a) E) (\<lambda>e. wp final (\<lambda>_. E e) E) w"
  by (simp add: wp_def py_finally_def split: prod.splits sum.splits)

text \<open>
  The request runs where the generator yields; the \<open>finally\<close> closes the session, and so does the
  exit of \<open>async with\<close> after it.
\<close>

definition get_db :: "('w, 's) io \<Rightarrow> ('s \<Rightarrow> ('w, unit) io) \<Rightarrow> ('s \<Rightarrow> ('w, 'a) io) \<Rightarrow> ('w, 'a) io" where
  "get_db async_session_factory close_session handler =
     py_bind async_session_factory (\<lambda>session.
       py_finally (py_finally (handler session) (close_session session)) (close_session session))"

text \<open>However the handler ends, the last thing that happened to its session is that it was closed.\<close>

lemma wp_get_db:
  assumes "\<And>s w. wp (close_session s) (\<lambda>_ w'. released s w') (\<lambda>_ w'. released s w') w"
    and "wp factory (\<lambda>_ _. True) (\<lambda>_ _. False) w"
  shows "wp (get_db factory close_session handler) (\<lambda>_ w'. \<exists>s. released s w') (\<lambda>_ w'. \<exists>s. released s w') w"
proof -
  have close: "wp (close_session s) (\<lambda>_ w'. \<exists>s. released s w') (\<lambda>_ w'. \<exists>s. released s w') w'" for s w'
    by (rule wp_mono [OF assms(1)]) blast+
  have fin: "wp (py_finally m (close_session s)) (\<lambda>_ w'. \<exists>s. released s w') (\<lambda>_ w'. \<exists>s. released s w') w'" for m s w'
    unfolding wp_finally using close by (simp add: wpI)
  show ?thesis
    unfolding get_db_def wp_bind by (rule wp_mono [OF assms(2)]) (use fin in simp_all)
qed

section \<open>The life of the process\<close>

text \<open>
  \<open>lifespan\<close> up to its \<open>yield\<close> and from there on; outside of a request the context variables are unset. The
  em dash of the warning is written \<open>--\<close>.
\<close>

definition no_request :: context_vars where
  "no_request = \<lparr>cv_request_id = None, cv_user_id = None\<rparr>"

definition startup :: "'w server \<Rightarrow> settings \<Rightarrow> 'w redis \<Rightarrow> ('w, unit) io" where
  "startup srv settings redis_client =
     py_bind (emit_log srv no_request INFO (''Starting '' @ st_app_name settings @ ''...'')) (\<lambda>_.
     py_bind (is_healthy redis_client) (\<lambda>redis_ok.
       if redis_ok then emit_log srv no_request INFO ''Redis connected''
       else emit_log srv no_request WARNING ''Redis unavailable -- running without cache''))"

definition shutdown :: "'w server \<Rightarrow> ('w, unit) io \<Rightarrow> ('w, unit) io \<Rightarrow> ('w, unit) io" where
  "shutdown srv close_redis dispose_engine =
     py_bind (emit_log srv no_request INFO ''Shutting down...'') (\<lambda>_.
     py_bind close_redis (\<lambda>_.
     py_bind dispose_engine (\<lambda>_. emit_log srv no_request INFO ''Shutdown complete'')))"

definition lifespan ::
  "'w server \<Rightarrow> settings \<Rightarrow> 'w redis \<Rightarrow> ('w, unit) io \<Rightarrow> ('w, unit) io \<Rightarrow> ('w, unit) io \<Rightarrow> ('w, unit) io" where
  "lifespan srv settings redis_client close_redis dispose_engine run_app =
     py_bind (startup srv settings redis_client) (\<lambda>_.
     py_bind run_app (\<lambda>_. shutdown srv close_redis dispose_engine))"

text \<open>The process starts whether or not Redis is there.\<close>

lemma wp_startup:
  assumes "lawful_server srv obs"
  shows "wp (startup srv settings rd) (\<lambda>_ _. True) (\<lambda>_ _. False) w"
proof -
  have log: "wp (emit_log srv cv l s) (\<lambda>_ _. True) (\<lambda>_ _. False) w'" for cv l s w'
    by (rule wp_mono [OF server_laws(3) [OF assms]]) simp_all
  have "wp (redis_ping rd) (\<lambda>a. wp (if a then emit_log srv cv l s else emit_log srv cv l' s') (\<lambda>_ _. True) (\<lambda>_ _. False))
      (\<lambda>_. wp (if False then emit_log srv cv l s else emit_log srv cv l' s') (\<lambda>_ _. True) (\<lambda>_ _. False)) w'"
    for cv l s l' s' w'
    by (rule wpI) (simp_all add: log)
  then show ?thesis
    unfolding startup_def is_healthy_def wp_bind wp_catch wp_return
    by (intro wp_mono [OF log]) simp_all
qed

section \<open>The middleware\<close>

text \<open>
  \<open>add_middleware\<close> puts a middleware around those added before; the head of the stack is the outermost. So
  CORS is around the request context: what it answers itself, the preflight requests of browsers, gets no
  request id and no log line.
\<close>

datatype middleware = RequestContextMiddleware | CORSMiddleware

definition add_middleware :: "middleware \<Rightarrow> middleware list \<Rightarrow> middleware list" where
  "add_middleware m stack = m # stack"

definition user_middleware :: "middleware list" where
  "user_middleware = add_middleware CORSMiddleware (add_middleware RequestContextMiddleware [])"

lemma cors_is_outermost: "hd user_middleware = CORSMiddleware"
  by (simp add: user_middleware_def add_middleware_def)

section \<open>Routes\<close>

text \<open>What the decorators declare: method, path, status of success and the limiters among the dependencies.\<close>

record route =
  rt_method :: string
  rt_path :: string
  rt_status :: nat
  rt_limits :: "rate_limiter list"

definition include_router :: "string \<Rightarrow> route list \<Rightarrow> route list" where
  "include_router prefix routes = map (\<lambda>r. r\<lparr>rt_path := prefix @ rt_path r\<rparr>) routes"

definition users_router :: "route list" where
  "users_router = include_router ''/users''
     [\<lparr>rt_method = ''POST'', rt_path = ''/register'', rt_status = 201, rt_limits = []\<rparr>,
      \<lparr>rt_method = ''POST'', rt_path = ''/login'', rt_status = 200, rt_limits = []\<rparr>,
      \<lparr>rt_method = ''GET'', rt_path = ''/me'', rt_status = 200, rt_limits = []\<rparr>]"

definition wallets_router :: "route list" where
  "wallets_router = include_router ''/wallets''
     [\<lparr>rt_method = ''GET'', rt_path = ''/me'', rt_status = 200, rt_limits = []\<rparr>,
      \<lparr>rt_method = ''POST'', rt_path = ''/me/top-up'', rt_status = 200, rt_limits = []\<rparr>]"

definition payments_router :: "route list" where
  "payments_router = include_router ''/payments''
     [\<lparr>rt_method = ''POST'', rt_path = ''/send'', rt_status = 201, rt_limits = [payment_rate_limit]\<rparr>,
      \<lparr>rt_method = ''GET'', rt_path = ''/history'', rt_status = 200, rt_limits = []\<rparr>,
      \<lparr>rt_method = ''GET'', rt_path = ''/transactions/{transaction_id}'', rt_status = 200, rt_limits = []\<rparr>]"

definition api_router :: "route list" where
  "api_router = include_router ''/api/v1'' (users_router @ wallets_router @ payments_router)"

text \<open>No route shadows another, and only sending money is limited: login and registration are not.\<close>

lemma api_routes_distinct: "distinct (map (\<lambda>r. (rt_method r, rt_path r)) api_router)"
  by (simp add: api_router_def users_router_def wallets_router_def payments_router_def include_router_def)

lemma limited_routes: "map rt_path (filter (\<lambda>r. rt_limits r \<noteq> []) api_router) = [''/api/v1/payments/send'']"
  by (simp add: api_router_def users_router_def wallets_router_def payments_router_def include_router_def)

end
