(* ===== verification/Web_App.thy ===== *)
theory Web_App
  imports Api_Guarantees Application
begin

text \<open>
  The application as a whole (\<open>app/main.py\<close>, \<open>app/api/v1\<close>): every route with its dependencies, its
  status and the JSON form of its response, inside the middleware and the exception handlers; and what
  one HTTP exchange can do to the two stores.
\<close>

section \<open>What the process is wired together from\<close>

text \<open>
  \<open>render\<close> is pydantic's JSON form of the response models other than that of a transaction. CORS, which
  adds response headers and answers preflight requests, is left out.
\<close>

record renderer =
  dump_user :: "user_response \<Rightarrow> json"
  dump_token :: "token_response \<Rightarrow> json"
  dump_wallet :: "wallet_response \<Rightarrow> json"
  dump_page :: "transaction_list_response \<Rightarrow> json"

record 'w deps =
  dp_db :: "'w session"
  dp_redis :: "'w redis"
  dp_security :: "'w security"
  dp_server :: "'w server"
  dp_settings :: settings
  dp_codec :: codec
  dp_renderer :: renderer

section \<open>Requests\<close>

text \<open>
  A request of the API: the route, and what FastAPI makes of body, path and query, the validated values
  or the list of errors.
\<close>

type_synonym errors = "(string list \<times> string) list"

datatype call =
    Users_register "errors + user_create_data"
  | Users_login "errors + user_login"
  | Users_me
  | Wallets_me
  | Wallets_top_up "errors + wallet_top_up"
  | Payments_send "errors + payment_request"
  | Payments_history "errors + (int \<times> int \<times> string option)"
  | Payments_transaction "errors + uuid"
  | Health

text \<open>Validated values satisfy the declared constraints.\<close>

fun call_ok :: "call \<Rightarrow> bool" where
  "call_ok (Wallets_top_up (Inr data)) = wallet_top_up_valid data"
| "call_ok (Payments_send (Inr b)) = payment_request_valid b"
| "call_ok (Payments_history (Inr (page, page_size, status))) = page_query_valid page page_size"
| "call_ok _ = True"

section \<open>Endpoints\<close>

definition get_payments_history ::
  "'w security \<Rightarrow> settings \<Rightarrow> 'w session \<Rightarrow> request \<Rightarrow> errors + (int \<times> int \<times> string option) \<Rightarrow>
     ('w, transaction_list_response) io" where
  "get_payments_history sec settings db request query =
     py_bind (current_user sec settings request) (\<lambda>user_id.
     py_bind (valid_body query) (\<lambda>(page, page_size, status).
       get_transaction_history db user_id page page_size status))"

definition get_payments_transaction ::
  "'w security \<Rightarrow> settings \<Rightarrow> 'w session \<Rightarrow> request \<Rightarrow> errors + uuid \<Rightarrow> ('w, transaction_response) io" where
  "get_payments_transaction sec settings db request path =
     py_bind (current_user sec settings request) (\<lambda>user_id.
     py_bind (valid_body path) (\<lambda>transaction_id. get_transaction db transaction_id user_id))"

text \<open>\<open>response_model\<close> and \<open>status_code\<close> of the decorators.\<close>

definition respond :: "nat \<Rightarrow> ('a \<Rightarrow> json) \<Rightarrow> ('w, 'a) io \<Rightarrow> ('w, json response) io" where
  "respond status dump m = py_bind m (\<lambda>r. py_return \<lparr>rs_status = status, rs_body = dump r, rs_headers = []\<rparr>)"

fun endpoint :: "'w deps \<Rightarrow> request \<Rightarrow> call \<Rightarrow> ('w, json response) io" where
  "endpoint d request (Users_register body) =
     respond 201 (dump_user (dp_renderer d)) (post_users_register (dp_security d) (dp_db d) body)"
| "endpoint d request (Users_login body) =
     respond 200 (dump_token (dp_renderer d)) (post_users_login (dp_security d) (dp_settings d) (dp_db d) body)"
| "endpoint d request Users_me =
     respond 200 (dump_user (dp_renderer d)) (get_users_me (dp_security d) (dp_settings d) (dp_db d) request)"
| "endpoint d request Wallets_me =
     respond 200 (dump_wallet (dp_renderer d))
       (get_wallets_me (dp_security d) (dp_settings d) (dp_db d) (dp_redis d) request)"
| "endpoint d request (Wallets_top_up body) =
     respond 200 (dump_wallet (dp_renderer d))
       (post_wallets_top_up (dp_security d) (dp_settings d) (dp_db d) (dp_redis d) request body)"
| "endpoint d request (Payments_send body) =
     respond 201 (dump_txn (dp_codec d))
       (post_payments_send (dp_codec d) (dp_security d) (dp_settings d) (dp_db d) (dp_redis d) request body)"
| "endpoint d request (Payments_history query) =
     respond 200 (dump_page (dp_renderer d))
       (get_payments_history (dp_security d) (dp_settings d) (dp_db d) request query)"
| "endpoint d request (Payments_transaction path) =
     respond 200 (dump_txn (dp_codec d))
       (get_payments_transaction (dp_security d) (dp_settings d) (dp_db d) request path)"
| "endpoint d request Health = respond 200 (\<lambda>j. j) (health_check (dp_settings d) (dp_redis d))"

text \<open>The rows of the routing table that these are, and the status of success declared there.\<close>

definition app_routes :: "route list" where
  "app_routes = api_router @ [\<lparr>rt_method = ''GET'', rt_path = ''/health'', rt_status = 200, rt_limits = []\<rparr>]"

fun route_of :: "call \<Rightarrow> string \<times> string" where
  "route_of (Users_register _) = (''POST'', ''/api/v1/users/register'')"
| "route_of (Users_login _) = (''POST'', ''/api/v1/users/login'')"
| "route_of Users_me = (''GET'', ''/api/v1/users/me'')"
| "route_of Wallets_me = (''GET'', ''/api/v1/wallets/me'')"
| "route_of (Wallets_top_up _) = (''POST'', ''/api/v1/wallets/me/top-up'')"
| "route_of (Payments_send _) = (''POST'', ''/api/v1/payments/send'')"
| "route_of (Payments_history _) = (''GET'', ''/api/v1/payments/history'')"
| "route_of (Payments_transaction _) = (''GET'', ''/api/v1/payments/transactions/{transaction_id}'')"
| "route_of Health = (''GET'', ''/health'')"

definition declared_status :: "call \<Rightarrow> nat option" where
  "declared_status c = map_of (map (\<lambda>r. ((rt_method r, rt_path r), rt_status r)) app_routes) (route_of c)"

lemma declared_status_simps [simp]:
  "declared_status (Users_register body) = Some 201" "declared_status (Users_login up) = Some 200"
  "declared_status Users_me = Some 200" "declared_status Wallets_me = Some 200"
  "declared_status (Wallets_top_up data) = Some 200" "declared_status (Payments_send b) = Some 201"
  "declared_status (Payments_history q) = Some 200" "declared_status (Payments_transaction k) = Some 200"
  "declared_status Health = Some 200"
  by (simp_all add: declared_status_def app_routes_def api_router_def users_router_def wallets_router_def
      payments_router_def include_router_def)

text \<open>Every call is a row of the table, and every row is some call.\<close>

lemma routes_are_calls: "set (map (\<lambda>r. (rt_method r, rt_path r)) app_routes) = range route_of"
proof
  show "range route_of \<subseteq> set (map (\<lambda>r. (rt_method r, rt_path r)) app_routes)"
  proof
    fix x assume "x \<in> range route_of"
    then obtain c where x: "x = route_of c" by blast
    have "declared_status c \<noteq> None" by (cases c) simp_all
    then have "route_of c \<in> fst ` set (map (\<lambda>r. ((rt_method r, rt_path r), rt_status r)) app_routes)"
      unfolding declared_status_def by (simp only: map_of_eq_None_iff not_not)
    then show "x \<in> set (map (\<lambda>r. (rt_method r, rt_path r)) app_routes)" unfolding x by (auto simp: image_image)
  qed
  have "route_of c \<in> range route_of" for c by blast
  from this [of "Users_register undefined"] this [of "Users_login undefined"] this [of Users_me] this [of Wallets_me]
    this [of "Wallets_top_up undefined"] this [of "Payments_send undefined"] this [of "Payments_history undefined"]
    this [of "Payments_transaction undefined"] this [of Health]
  show "set (map (\<lambda>r. (rt_method r, rt_path r)) app_routes) \<subseteq> range route_of"
    by (simp add: app_routes_def api_router_def users_router_def wallets_router_def payments_router_def include_router_def)
qed

definition app :: "'w deps \<Rightarrow> request \<Rightarrow> call \<Rightarrow> ('w, json response) io" where
  "app d request c = serve (dp_server d) request (\<lambda>cv. endpoint d request c)"

section \<open>Redis keys of other components\<close>

text \<open>Everything but sending money stores nothing under the idempotency keys.\<close>

interpretation spares_frame: py_frame "spares_keys K" for K
  by unfold_locales (rule spares_keys_refl, rule spares_keys_trans)

lemmas spares_rules = spares_frame.leaves_rules

lemma spares_keeps: "keeps_redis K m \<Longrightarrow> leaves (spares_keys K) m"
  by (erule leaves_weaken) (rule spares_same)

lemma spares_commands:
  assumes law: "lawful_redis rd K"
  shows "leaves (spares_keys K) (redis_get rd s)" "leaves (spares_keys K) (redis_ping rd)"
    "leaves (spares_keys K) (redis_delete rd (key_balance k))"
    "leaves (spares_keys K) (redis_delete rd (key_wallet_info k))"
    "leaves (spares_keys K) (redis_setex rd (key_balance k) ttl v)"
proof -
  show "leaves (spares_keys K) (redis_get rd s)"
    by (rule leavesI, rule wp_mono [OF redis_laws(1) [OF law]]) (auto simp: kv_failed_def spares_same)
  show "leaves (spares_keys K) (redis_ping rd)"
    by (rule leavesI, rule wp_mono [OF redis_laws(7) [OF law]]) (auto simp: kv_failed_def spares_same)
  show "leaves (spares_keys K) (redis_delete rd (key_balance k))"
    by (rule leavesI, rule wp_mono [OF redis_laws(3) [OF law]])
      (auto simp: kv_failed_def spares_same del_keys_def elim!: spares_step split: if_splits)
  show "leaves (spares_keys K) (redis_delete rd (key_wallet_info k))"
    by (rule leavesI, rule wp_mono [OF redis_laws(3) [OF law]])
      (auto simp: kv_failed_def spares_same del_keys_def elim!: spares_step split: if_splits)
  show "leaves (spares_keys K) (redis_setex rd (key_balance k) ttl v)"
    by (rule leavesI, rule wp_mono [OF redis_laws(2) [OF law]])
      (auto simp: kv_failed_def spares_same set_key_def elim!: spares_step)
qed

lemma spares_db:
  assumes keep: "session_keeps_redis db K" and law: "law_attrs db V"
  shows "leaves (spares_keys K) (select_user db uc)" "leaves (spares_keys K) (select_wallet db wc fu)"
    "leaves (spares_keys K) (select_txn db tc)" "leaves (spares_keys K) (update_wallet db k ev nb nv)"
    "leaves (spares_keys K) (insert_user db un)" "leaves (spares_keys K) (insert_wallet db u)"
    "leaves (spares_keys K) (commit_tx db)" "leaves (spares_keys K) (rollback_tx db)"
    "leaves (spares_keys K) (refresh_user db k)" "leaves (spares_keys K) (refresh_wallet db k)"
    "leaves (spares_keys K) (set_wallet_balance db k b)" "leaves (spares_keys K) (count_txns db tc)"
    "leaves (spares_keys K) (page_txns db tc off cnt)"
    "leaves (spares_keys K) (user_attrs db k)" "leaves (spares_keys K) (wallet_attrs db k)"
    "leaves (spares_keys K) (txn_attrs db k)"
  by (rule spares_keeps, rule keeps_redis_session [OF keep] keeps_redis_attrs [OF law])+

lemma leaves_subject:
  assumes "\<And>s. leaves S (f s)" and "leaves S a" and "leaves S b"
  shows "leaves S (case v of JNull \<Rightarrow> a | JStr s \<Rightarrow> f s | _ \<Rightarrow> b)"
  using assms by (cases v) simp_all

lemma spares_py_map: "(\<And>a. leaves (spares_keys K) (f a)) \<Longrightarrow> leaves (spares_keys K) (py_map f as)"
  by (induction as) (simp_all add: spares_rules)

lemma spares_security:
  assumes sec: "lawful_security sec (obs_stores V K)"
  shows "leaves (spares_keys K) (hash_password sec p)" "leaves (spares_keys K) (create_access_token sec st pl d)"
    "leaves (spares_keys K) (current_user sec st request)" "leaves (spares_keys K) (verify_password sec p h)"
proof -
  have o: "obs_stores V K w' = obs_stores V K w \<Longrightarrow> spares_keys K w w'" for w w'
    by (auto simp: obs_stores_def spares_keys_def)
  have now: "leaves (spares_keys K) (utc_now sec)"
    by (rule leavesI, rule wp_mono [OF security_laws(2) [OF sec]]) (simp_all add: o)
  show "leaves (spares_keys K) (hash_password sec p)"
    unfolding hash_password_def by (rule leavesI, rule wp_mono [OF security_laws(1) [OF sec]]) (simp_all add: o)
  show "leaves (spares_keys K) (create_access_token sec st pl d)"
    unfolding create_access_token_def Let_def by (intro spares_rules now)
  show "leaves (spares_keys K) (current_user sec st request)"
    unfolding current_user_def get_current_user_id_def by (intro spares_rules leaves_subject now)
  show "leaves (spares_keys K) (verify_password sec p h)"
    unfolding verify_password_def by (intro spares_rules)
qed

lemma spares_services:
  assumes keep: "session_keeps_redis db K" and law: "law_attrs db V" and sec: "lawful_security sec (obs_stores V K)"
    and rd: "lawful_redis rd K"
  shows "leaves (spares_keys K) (register db sec data)" "leaves (spares_keys K) (login db sec st ul)"
    "leaves (spares_keys K) (get_user db user)" "leaves (spares_keys K) (get_wallet db user (Some rd))"
    "leaves (spares_keys K) (top_up db user amount (Some rd))"
    "leaves (spares_keys K) (get_transaction_history db user page per status)"
    "leaves (spares_keys K) (get_transaction db k user)" "leaves (spares_keys K) (health_check st rd)"
proof -
  note R = spares_rules spares_db [OF keep law] spares_security [OF sec] spares_commands [OF rd]
  show "leaves (spares_keys K) (register db sec data)"
    unfolding register_def user_get_by_email_def user_create_def wallet_create_def by (intro R)
  show "leaves (spares_keys K) (login db sec st ul)"
    unfolding login_def user_get_by_email_def by (intro R)
  show "leaves (spares_keys K) (get_user db user)"
    unfolding get_user_def user_get_by_id_def by (intro R)
  show "leaves (spares_keys K) (get_wallet db user (Some rd))"
    unfolding get_wallet_def wallet_get_by_user_id_def get_balance_def set_balance_def option.case by (intro R)
  have "leaves (spares_keys K) (top_up_loop db user amount (Some rd) ns)" for ns
  proof (induction ns)
    case (Cons n ns)
    show ?case
      unfolding top_up_loop.simps wallet_get_by_user_id_def wallet_update_balance_def Let_def finish_top_up_def
        invalidate_balance_def invalidate_wallet_info_def option.case
      by (intro R Cons.IH)
  qed (simp add: R)
  then show "leaves (spares_keys K) (top_up db user amount (Some rd))" by (simp add: top_up_def)
  show "leaves (spares_keys K) (get_transaction_history db user page per status)"
    unfolding get_transaction_history_def wallet_get_by_user_id_def txn_get_by_wallet_id_def Let_def by (intro R spares_py_map)
  show "leaves (spares_keys K) (get_transaction db k user)"
    unfolding get_transaction_def wallet_get_by_user_id_def by (intro R)
  show "leaves (spares_keys K) (health_check st rd)"
    unfolding health_check_def is_healthy_def by (intro R)
qed

section \<open>What one exchange can do\<close>

text \<open>
  Abstractly: nothing but the steps of the others, or one step of the kind the request asks for, around
  which the others may take theirs.
\<close>

definition took_effect :: "'w absn \<Rightarrow> rely \<Rightarrow> call \<Rightarrow> 'w \<Rightarrow> 'w \<Rightarrow> bool" where
  "took_effect V R c w w' \<longleftrightarrow>
     R {} (durable V w) (durable V w') \<or>
     (\<exists>b u y. c = Payments_send (Inr b) \<and> transferred V R u b y w w') \<or>
     (\<exists>data u z. c = Wallets_top_up (Inr data) \<and> topped_up V R u (tu_amount data) z w w') \<or>
     (\<exists>data y. c = Users_register (Inr data) \<and> registered V R y w w')"

lemma took_effectI:
  "R {} (durable V w) (durable V w') \<Longrightarrow> took_effect V R c w w'"
  "transferred V R u b y w w' \<Longrightarrow> took_effect V R (Payments_send (Inr b)) w w'"
  "topped_up V R u (tu_amount data) z w w' \<Longrightarrow> took_effect V R (Wallets_top_up (Inr data)) w w'"
  "registered V R x w w' \<Longrightarrow> took_effect V R (Users_register (Inr info)) w w'"
  unfolding took_effect_def by blast+

text \<open>An exception that is rendered as a client's error has committed nothing.\<close>

definition raised_with :: "'w absn \<Rightarrow> rely \<Rightarrow> call \<Rightarrow> 'w \<Rightarrow> exn \<Rightarrow> 'w \<Rightarrow> bool" where
  "raised_with V R c w e w' \<longleftrightarrow> took_effect V R c w w' \<and>
     ((\<forall>l. e \<noteq> Library l) \<longrightarrow> R {} (durable V w) (durable V w'))"

lemma raised_withI:
  "R {} (durable V w) (durable V w') \<Longrightarrow> raised_with V R c w e w'"
  "took_effect V R c w w' \<Longrightarrow> raised_with V R c w (Library l) w'"
  by (simp_all add: raised_with_def took_effectI(1))

lemma db_error_library: "db_error e \<Longrightarrow> \<exists>l. e = Library l"
  by (auto simp: db_error_def)

lemma took_effect_after:
  assumes R: "rely_ok R" and d: "R {} (durable V w) (durable V w1)" and t: "took_effect V R c w1 w'"
  shows "took_effect V R c w w'"
proof -
  note tr = rely_trans [OF R d]
  from t consider "R {} (durable V w1) (durable V w')"
    | b u y where "c = Payments_send (Inr b)" "transferred V R u b y w1 w'"
    | data u z where "c = Wallets_top_up (Inr data)" "topped_up V R u (tu_amount data) z w1 w'"
    | data y where "c = Users_register (Inr data)" "registered V R y w1 w'"
    unfolding took_effect_def by blast
  then show ?thesis
  proof cases
    case 1
    then show ?thesis by (intro took_effectI(1) tr)
  next
    case 2
    then have "transferred V R u b y w w'" unfolding transferred_def using tr by blast
    with 2 show ?thesis by (simp add: took_effectI)
  next
    case 3
    then have "topped_up V R u (tu_amount data) z w w'" unfolding topped_up_def using tr by blast
    with 3 show ?thesis by (simp add: took_effectI)
  next
    case 4
    then have "registered V R y w w'" unfolding registered_def using tr by blast
    with 4 show ?thesis by (simp add: took_effectI)
  qed
qed

text \<open>Recorded transactions stay, through any effect.\<close>

lemma transfers_txns:
  assumes "transfers s r a currency key description t y T"
  shows "txns t \<subseteq>\<^sub>m txns T"
proof -
  have "txns t (t_id y) = None" using assms by (rule transfersE)
  then show ?thesis unfolding transfers_rows(3) [OF assms] by (simp add: map_le_def dom_def)
qed

lemma took_effect_txns:
  assumes R: "rely_ok R" and t: "took_effect V R c w w'"
  shows "txns (durable V w) \<subseteq>\<^sub>m txns (durable V w')"
proof -
  note rows = rely_rows [OF R, THEN conjunct1]
  from t consider "R {} (durable V w) (durable V w')"
    | b u y where "transferred V R u b y w w'"
    | a u z where "topped_up V R u a z w w'"
    | x where "registered V R x w w'"
    unfolding took_effect_def by blast
  then show ?thesis
  proof cases
    case 1
    then show ?thesis by (rule rows)
  next
    case 2
    then obtain t T where t: "R {} (durable V w) t" "R {} T (durable V w')" and "txns t \<subseteq>\<^sub>m txns T"
      unfolding transferred_def using transfers_txns by blast
    then show ?thesis using rows [OF t(1)] rows [OF t(2)] by (blast intro: map_le_trans)
  next
    case 3
    then obtain t where t: "R {} (durable V w) t" "R {} (put_wallet z t) (durable V w')"
      unfolding topped_up_def by blast
    show ?thesis using map_le_trans [OF rows [OF t(1)]] rows [OF t(2)] by simp
  next
    case 4
    then obtain t k c d where t: "R {} (durable V w) t"
        "R {} (put_wallet (wallet_row k c d (u_id x)) (put_user x t)) (durable V w')"
      unfolding registered_def by blast
    show ?thesis using map_le_trans [OF rows [OF t(1)]] rows [OF t(2)] by simp
  qed
qed

section \<open>Every endpoint does at most that\<close>

lemma obs_db_stores:
  assumes "lawful_security sec (obs_stores V K)"
  shows "lawful_security sec (obs_db V)"
  unfolding lawful_security_def
proof (intro conjI allI impI)
  show "wp (pwd_hash sec p) (\<lambda>h w'. pwd_verify sec p h = Inr True \<and> obs_db V w' = obs_db V w)
      (\<lambda>e w'. e = Library ValueError \<and> password_refused p \<and> obs_db V w' = obs_db V w) w" for p w
    by (rule wp_mono [OF security_laws(1) [OF assms]]) (simp_all add: obs_stores_def)
  show "wp (utc_now sec) (\<lambda>_ w'. obs_db V w' = obs_db V w) (\<lambda>_ _. False) w" for w
    by (rule wp_mono [OF security_laws(2) [OF assms]]) (simp_all add: obs_stores_def)
qed (use security_laws(3-5) [OF assms] in simp_all)

lemma wp_valid_body_then: "wp (py_bind (valid_body body) f) Q E w =
    (case body of Inl errs \<Rightarrow> E (RequestInvalid errs) w | Inr b \<Rightarrow> wp (f b) Q E w)"
  by (simp add: wp_bind wp_valid_body)

lemma wp_respond: "wp (respond status dump m) Q E w =
    wp m (\<lambda>r. Q \<lparr>rs_status = status, rs_body = dump r, rs_headers = []\<rparr>) E w"
  by (simp add: respond_def wp_def py_bind_def py_return_def split: prod.splits sum.splits)

text \<open>Whatever the bearer token is: the dependency touches neither store.\<close>

interpretation obs_frame: py_frame "\<lambda>w w'. obs w' = obs w" for obs
  by unfold_locales simp_all

lemma leaves_current_user:
  assumes "lawful_security sec obs"
  shows "leaves (\<lambda>w w'. obs w' = obs w) (current_user sec st request)"
proof -
  have now: "leaves (\<lambda>w w'. obs w' = obs w) (utc_now sec)"
    by (rule leavesI, rule wp_mono [OF security_laws(2) [OF assms]]) simp_all
  then show ?thesis
    unfolding current_user_def get_current_user_id_def by (intro obs_frame.leaves_rules leaves_subject)
qed

lemma wp_as_user:
  assumes "lawful_security sec (obs_stores V K)" and "fresh_session V w"
    and "\<And>u w1. fresh_session V w1 \<Longrightarrow> durable V w1 = durable V w \<Longrightarrow> entries K w1 = entries K w \<Longrightarrow> wp (f u) Q E w1"
    and "\<And>e w1. durable V w1 = durable V w \<Longrightarrow> E e w1"
  shows "wp (py_bind (current_user sec st request) f) Q E w"
proof -
  have "wp (current_user sec st request) (\<lambda>_ w1. obs_stores V K w1 = obs_stores V K w)
      (\<lambda>_ w1. obs_stores V K w1 = obs_stores V K w) w"
    using leaves_current_user [OF assms(1)] by (simp add: wp_snd leaves_def)
  then show ?thesis
    unfolding wp_bind
  proof (rule wp_mono, goal_cases)
    case (1 u w1)
    note o = obs_storesD [OF 1(2)]
    show ?case by (rule assms(3) [OF fresh_obs [OF o(1) assms(2)] obs_dbD(2) [OF o(1)] o(2)])
  next
    case (2 e w1)
    show ?case by (rule assms(4)) (rule obs_dbD(2) [OF obs_storesD(1) [OF 2(2)]])
  qed
qed

text \<open>The database side, for everything but sending money.\<close>

lemma wp_quiet_read:
  assumes "wp m (\<lambda>_ w'. R {} (durable V w) (durable V w')) (\<lambda>_ w'. R {} (durable V w) (durable V w')) w"
  shows "wp m (\<lambda>_ w'. took_effect V R c w w') (raised_with V R c w) w"
  by (rule wp_mono [OF assms]) (simp_all add: took_effectI(1) raised_withI(1))

lemma took_effect_same:
  "durable V w1 = durable V w \<Longrightarrow> took_effect V R c w1 = took_effect V R c w"
  "durable V w1 = durable V w \<Longrightarrow> raised_with V R c w1 = raised_with V R c w"
  by (simp_all add: fun_eq_iff raised_with_def took_effect_def transferred_def topped_up_def registered_def)

lemma wp_endpoint_effect:
  assumes law: "lawful_session (dp_db d) V R" and mv: "moves_users R" and rd: "lawful_redis (dp_redis d) K"
    "redis_keeps_db (dp_redis d) V R" and keep: "session_keeps_redis (dp_db d) K"
    and sec: "lawful_security (dp_security d) (obs_stores V K)" and fresh: "fresh_session V w"
    and ok: "call_ok c" and other: "\<And>b. c \<noteq> Payments_send b"
  shows "wp (endpoint d request c) (\<lambda>_ w'. took_effect V R c w w') (raised_with V R c w) w"
proof -
  have R: "rely_ok R" using law by (rule lawful_rely)
  note sec' = obs_db_stores [OF sec]
  have refl: "raised_with V R c w e w" for c e by (rule raised_withI(1)) (rule rely_refl [OF R])
  have same: "raised_with V R c w e w1" if "durable V w1 = durable V w" for w1 c e
    by (rule raised_withI(1)) (simp add: that rely_refl [OF R])
  have cl: "client_ok (Some (dp_redis d)) K V R" using rd by simp
  show ?thesis
  proof (cases c)
    case (Users_register body)
    show ?thesis
    proof (cases body)
      case (Inr data)
      show ?thesis
        unfolding Users_register Inr endpoint.simps wp_respond post_users_register_def wp_valid_body_then sum.case
        by (rule wp_mono [OF wp_register [OF law mv sec' fresh]]) (auto dest!: db_error_library intro: took_effectI raised_withI)
    qed (simp add: Users_register wp_respond post_users_register_def wp_valid_body_then refl)
  next
    case (Users_login body)
    show ?thesis
    proof (cases body)
      case (Inr data)
      show ?thesis
        unfolding Users_login Inr endpoint.simps wp_respond post_users_login_def wp_valid_body_then sum.case
        by (rule wp_quiet_read, rule wp_mono [OF wp_login [OF law sec' fresh]]) blast+
    qed (simp add: Users_login wp_respond post_users_login_def wp_valid_body_then refl)
  next
    case Users_me
    show ?thesis
      unfolding Users_me endpoint.simps wp_respond get_users_me_def
    proof (rule wp_as_user [OF sec fresh _ same], goal_cases)
      case (1 u w1)
      show ?case
        unfolding took_effect_same [OF 1(2), symmetric]
        by (rule wp_quiet_read, rule wp_mono [OF wp_get_user [OF law 1(1)]]) blast+
    qed
  next
    case Wallets_me
    show ?thesis
      unfolding Wallets_me endpoint.simps wp_respond get_wallets_me_def
    proof (rule wp_as_user [OF sec fresh _ same], goal_cases)
      case (1 u w1)
      show ?case
        unfolding took_effect_same [OF 1(2), symmetric]
        by (rule wp_quiet_read, rule wp_mono [OF wp_get_wallet [OF law cl keep 1(1)]]) blast+
    qed
  next
    case (Wallets_top_up body)
    show ?thesis
      unfolding Wallets_top_up endpoint.simps wp_respond post_wallets_top_up_def
    proof (rule wp_as_user [OF sec fresh _ same], goal_cases)
      case (1 u w1)
      show ?case
      proof (cases body)
        case (Inr data)
        have "whole_cents (tu_amount data)"
          using ok money_field_cents by (simp add: Wallets_top_up Inr wallet_top_up_valid_def)
        from wp_top_up [OF law cl keep 1(1) this, of u] show ?thesis
          unfolding Inr wp_valid_body_then sum.case took_effect_same [OF 1(2), symmetric]
          by (rule wp_mono) (auto simp: top_up_failed_def dest!: db_error_library intro: took_effectI raised_withI)
      next
        case (Inl errs)
        show ?thesis unfolding Inl wp_valid_body_then sum.case by (rule same [OF 1(2)])
      qed
    qed
  next
    case (Payments_history query)
    show ?thesis
      unfolding Payments_history endpoint.simps wp_respond get_payments_history_def
    proof (rule wp_as_user [OF sec fresh _ same], goal_cases)
      case (1 u w1)
      have view: "view V w1 = durable V w1" using 1(1) by (simp add: fresh_session_def)
      show ?case
      proof (cases query)
        case (Inr q)
        obtain page per status where q: "q = (page, per, status)" by (cases q)
        have v: "page_query_valid page per" using ok by (simp add: Payments_history Inr q)
        show ?thesis
          unfolding Inr q wp_valid_body_then sum.case prod.case took_effect_same [OF 1(2), symmetric]
          by (rule wp_quiet_read, rule wp_mono [OF wp_history [OF law snapshots_ok_fresh [OF 1(1)] view v]])
            (simp_all add: unchanged_def failed_def)
      next
        case (Inl errs)
        show ?thesis unfolding Inl wp_valid_body_then sum.case by (rule same [OF 1(2)])
      qed
    qed
  next
    case (Payments_transaction path)
    show ?thesis
      unfolding Payments_transaction endpoint.simps wp_respond get_payments_transaction_def
    proof (rule wp_as_user [OF sec fresh _ same], goal_cases)
      case (1 u w1)
      have view: "view V w1 = durable V w1" using 1(1) by (simp add: fresh_session_def)
      show ?case
      proof (cases path)
        case (Inr k)
        show ?thesis
          unfolding Inr wp_valid_body_then sum.case took_effect_same [OF 1(2), symmetric]
          by (rule wp_quiet_read, rule wp_mono [OF wp_get_transaction [OF law snapshots_ok_fresh [OF 1(1)] view]])
            (auto simp: unchanged_def failed_def)
      next
        case (Inl errs)
        show ?thesis unfolding Inl wp_valid_body_then sum.case by (rule same [OF 1(2)])
      qed
    qed
  next
    case Health
    have "db_quiet V R w (snd (redis_ping (dp_redis d) w))" by (rule redis_quiet(7) [OF rd(2)])
    then have "wp (redis_ping (dp_redis d)) (\<lambda>_ w'. R {} (durable V w) (durable V w'))
        (\<lambda>_ w'. R {} (durable V w) (durable V w')) w"
      by (simp add: wp_snd db_quietD(1))
    then show ?thesis
      unfolding Health endpoint.simps wp_respond health_check_def is_healthy_def wp_simps
      by (rule wp_mono) (simp_all add: took_effectI(1))
  qed (use other in simp)
qed

section \<open>Sending money, with any token\<close>

lemma send_outcome:
  "send_answered cdc K V R rc u b w resp w' \<Longrightarrow> R {} (durable V w) (durable V w') \<or> (\<exists>y. transferred V R u b y w w')"
  "send_failed cdc K V R u b w e w' \<Longrightarrow> R {} (durable V w) (durable V w') \<or> (\<exists>y. transferred V R u b y w w')"
  by (auto simp: send_answered_def send_failed_def refused_def dest: settled_transferred)

lemma wp_send_effect:
  assumes law: "lawful_session (dp_db d) V R" and rd: "lawful_redis (dp_redis d) K" "redis_keeps_db (dp_redis d) V R"
    and keep: "session_keeps_redis (dp_db d) K" and cdc: "lawful_codec (dp_codec d)"
    and sec: "lawful_security (dp_security d) (obs_stores V K)" and fresh: "fresh_session V w"
    and cs: "cache_sound (dp_codec d) K V w" and ok: "call_ok (Payments_send body)"
  shows "wp (endpoint d request (Payments_send body))
    (\<lambda>_ w'. took_effect V R (Payments_send body) w w' \<and> cache_sound (dp_codec d) K V w')
    (\<lambda>e w'. raised_with V R (Payments_send body) w e w' \<and> cache_sound (dp_codec d) K V w') w"
proof -
  have R: "rely_ok R" using law by (rule lawful_rely)
  have cl: "client_ok (Some (dp_redis d)) K V R" using rd by simp
  note P = took_effect_after [OF R]
  show ?thesis
    unfolding endpoint.simps wp_respond post_payments_send_def
  proof (subst wp_bind, rule wp_mono [OF wp_rate_limit_spares [OF rd R]], goal_cases)
    case (1 r w1)
    then have q: "db_quiet V R w w1" and sp: "spares_keys K w w1" by simp_all
    note d1 = db_quietD(1) [OF q]
    have f1: "fresh_session V w1" by (rule fresh_quiet [OF q fresh])
    have cs1: "cache_sound (dp_codec d) K V w1" by (rule cache_sound_spares [OF R cs d1 sp])
    have idle: "raised_with V R c w e w2" if "durable V w2 = durable V w1" for c e w2
      by (rule raised_withI(1)) (simp add: that d1)
    have cs2: "cache_sound (dp_codec d) K V w2" if "durable V w2 = durable V w1" "entries K w2 = entries K w1" for w2
      by (rule cache_sound_cong [OF that, THEN iffD2], rule cs1)
    have user: "wp (current_user (dp_security d) (dp_settings d) request)
        (\<lambda>_ w2. obs_stores V K w2 = obs_stores V K w1) (\<lambda>_ w2. obs_stores V K w2 = obs_stores V K w1) w1"
      using leaves_current_user [OF sec] by (simp add: wp_snd leaves_def)
    show ?case
    proof (subst wp_bind, rule wp_mono [OF user], goal_cases)
      case (1 u w2)
      note o = obs_storesD [OF 1(2)]
      note d2 = obs_dbD(2) [OF o(1)]
      note f2 = fresh_obs [OF o(1) f1] and c2 = cs2 [OF d2 o(2)]
      show ?case
      proof (cases body)
        case (Inl errs)
        show ?thesis unfolding Inl wp_valid_body_then sum.case by (intro conjI idle d2 c2)
      next
        case (Inr b)
        have "whole_cents (pr_amount b)" using ok money_field_cents by (simp add: Inr payment_request_valid_def)
        note S = wp_send_money [OF law cl keep cdc f2 c2 this, of u]
        have d: "R {} (durable V w) (durable V w2)" using d1 by (simp add: d2)
        have eff: "took_effect V R (Payments_send (Inr b)) w w'"
          if "R {} (durable V w2) (durable V w') \<or> (\<exists>y. transferred V R u b y w2 w')" for w'
          using that by (intro P [OF d]) (auto intro: took_effectI)
        show ?thesis
          unfolding Inr wp_valid_body_then sum.case
        proof (rule wp_mono [OF S], goal_cases)
          case (1 resp w')
          with eff [OF send_outcome(1) [OF 1(2)]] show ?case by (simp add: send_answered_def)
        next
          case (2 e w')
          then have "R {} (durable V w2) (durable V w') \<or> lost_answer e" by (auto simp: send_failed_def refused_def)
          then have "(\<forall>l. e \<noteq> Library l) \<longrightarrow> R {} (durable V w) (durable V w')"
            using rely_trans [OF R d] by (auto simp: lost_answer_def)
          with 2 eff [OF send_outcome(2) [OF 2(2)]] show ?case by (simp add: send_failed_def raised_with_def)
        qed
      qed
    next
      case (2 e w2)
      note o = obs_storesD [OF 2(2)]
      show ?case by (intro conjI idle cs2 obs_dbD(2) [OF o(1)] o(2))
    qed
  next
    case (2 e w1)
    then have "db_quiet V R w w1" "spares_keys K w w1" by simp_all
    note q = this
    show ?case by (intro conjI raised_withI(1) cache_sound_spares [OF R cs _ q(2)] db_quietD(1) [OF q(1)])
  qed
qed

section \<open>One exchange\<close>

lemma spares_endpoint:
  assumes "session_keeps_redis (dp_db d) K" and "law_attrs (dp_db d) V" and "lawful_redis (dp_redis d) K"
    and "lawful_security (dp_security d) (obs_stores V K)" and "\<And>b. c \<noteq> Payments_send b"
  shows "leaves (spares_keys K) (endpoint d request c)"
proof -
  note R = spares_rules spares_services [OF assms(1,2,4,3)] spares_security [OF assms(4)]
  note D = respond_def valid_body_def endpoint.simps
  show ?thesis
  proof (cases c)
    case (Users_register body)
    show ?thesis unfolding Users_register D post_users_register_def by (intro R)
  next
    case (Users_login body)
    show ?thesis unfolding Users_login D post_users_login_def by (intro R)
  next
    case Users_me
    show ?thesis unfolding Users_me D get_users_me_def by (intro R)
  next
    case Wallets_me
    show ?thesis unfolding Wallets_me D get_wallets_me_def by (intro R)
  next
    case (Wallets_top_up body)
    show ?thesis unfolding Wallets_top_up D post_wallets_top_up_def by (intro R)
  next
    case (Payments_history query)
    show ?thesis unfolding Payments_history D get_payments_history_def by (intro R)
  next
    case (Payments_transaction path)
    show ?thesis unfolding Payments_transaction D get_payments_transaction_def by (intro R)
  next
    case Health
    show ?thesis unfolding Health D by (intro R)
  qed (use assms(5) in simp)
qed

text \<open>The libraries, with the laws assumed of them.\<close>

definition lawful_deps :: "'w deps \<Rightarrow> 'w absn \<Rightarrow> 'w kv \<Rightarrow> rely \<Rightarrow> bool" where
  "lawful_deps d V K R \<longleftrightarrow>
     lawful_session (dp_db d) V R \<and> lawful_redis (dp_redis d) K \<and> redis_keeps_db (dp_redis d) V R \<and>
     session_keeps_redis (dp_db d) K \<and> lawful_codec (dp_codec d) \<and>
     lawful_security (dp_security d) (obs_stores V K) \<and> lawful_server (dp_server d) (obs_stores V K)"

lemma lawful_depsD:
  assumes "lawful_deps d V K R"
  shows "lawful_session (dp_db d) V R" "lawful_redis (dp_redis d) K" "redis_keeps_db (dp_redis d) V R"
    "session_keeps_redis (dp_db d) K" "lawful_codec (dp_codec d)"
    "lawful_security (dp_security d) (obs_stores V K)" "lawful_server (dp_server d) (obs_stores V K)"
  using assms by (simp_all add: lawful_deps_def)

lemma endpoint_status: "wp (endpoint d request c) (\<lambda>r _. declared_status c = Some (rs_status r)) (\<lambda>_ _. True) w"
  by (cases c) (simp_all add: wp_respond wpI)

lemma declared_success: "declared_status c = Some n \<Longrightarrow> n < 400"
  by (cases c) auto

lemma wp_endpoint_sound:
  assumes d: "lawful_deps d V K R" and mv: "moves_users R" and fresh: "fresh_session V w"
    and cs: "cache_sound (dp_codec d) K V w" and ok: "call_ok c"
  shows "wp (endpoint d request c)
    (\<lambda>r w'. took_effect V R c w w' \<and> rs_status r < 400 \<and> cache_sound (dp_codec d) K V w')
    (\<lambda>e w'. raised_with V R c w e w' \<and> cache_sound (dp_codec d) K V w') w"
proof -
  note L = lawful_depsD [OF d]
  have R: "rely_ok R" using L(1) by (rule lawful_rely)
  have "wp (endpoint d request c)
    (\<lambda>_ w'. took_effect V R c w w' \<and> cache_sound (dp_codec d) K V w')
    (\<lambda>e w'. raised_with V R c w e w' \<and> cache_sound (dp_codec d) K V w') w"
  proof (cases "\<exists>b. c = Payments_send b")
    case True
    then show ?thesis using wp_send_effect [OF L(1-6) fresh cs] ok by blast
  next
    case False
    then have other: "\<And>b. c \<noteq> Payments_send b" by blast
    have sp: "leaves (spares_keys K) (endpoint d request c)"
      by (rule spares_endpoint [OF L(4) lawful_laws(11) [OF L(1)] L(2,6) other])
    show ?thesis
      by (rule wp_mono [OF wp_leaves [OF sp wp_endpoint_effect [OF L(1) mv L(2,3,4,6) fresh ok other]]])
        (use cache_sound_rows [OF cs took_effect_txns [OF R]] in \<open>auto simp: raised_with_def\<close>)
  qed
  from wp_conj [OF this endpoint_status] show ?thesis by (rule wp_mono) (auto dest: declared_success)
qed

text \<open>
  What the client may conclude: a status of the 4xx class says that the request has changed nothing.
\<close>

definition exchanged :: "'w absn \<Rightarrow> rely \<Rightarrow> call \<Rightarrow> 'w \<Rightarrow> json response \<Rightarrow> 'w \<Rightarrow> bool" where
  "exchanged V R c w resp w' \<longleftrightarrow> took_effect V R c w w' \<and>
     (400 \<le> rs_status resp \<longrightarrow> rs_status resp < 500 \<longrightarrow> R {} (durable V w) (durable V w'))"

lemma wp_app_sound:
  assumes d: "lawful_deps d V K R" and mv: "moves_users R" and fresh: "fresh_session V w"
    and cs: "cache_sound (dp_codec d) K V w" and ok: "call_ok c"
  shows "wp (app d request c)
    (\<lambda>resp w'. exchanged V R c w resp w' \<and> cache_sound (dp_codec d) K V w') (\<lambda>_ _. False) w"
proof -
  let ?Q = "\<lambda>r w'. took_effect V R c w w' \<and> rs_status r < 400 \<and> cache_sound (dp_codec d) K V w'"
  let ?E = "\<lambda>e w'. raised_with V R c w e w' \<and> cache_sound (dp_codec d) K V w'"
  have ep: "wp (endpoint d request c) ?Q ?E w1" if o: "obs_stores V K w1 = obs_stores V K w" for w1
  proof -
    note o' = obs_storesD [OF o]
    have "cache_sound (dp_codec d) K V w1" by (rule cache_sound_cong [OF obs_dbD(2) [OF o'(1)] o'(2), THEN iffD2], rule cs)
    from wp_endpoint_sound [OF d mv fresh_obs [OF o'(1) fresh] this ok] show ?thesis
      by (simp only: took_effect_same [OF obs_dbD(2) [OF o'(1)]])
  qed
  have stable: "took_effect V R c w w2 = took_effect V R c w w1" "raised_with V R c w e w2 = raised_with V R c w e w1"
      "cache_sound cdc K V w2 = cache_sound cdc K V w1"
    if "obs_stores V K w2 = obs_stores V K w1" for w1 w2 e cdc
    using obs_dbD(2) [OF obs_storesD(1) [OF that]] cache_sound_cong [OF _ obs_storesD(2) [OF that]]
    by (simp_all add: took_effect_def transferred_def topped_up_def registered_def raised_with_def)
  show ?thesis
    unfolding app_def
  proof (rule wp_mono [OF wp_serve_world [OF lawful_depsD(7) [OF d] ep]], goal_cases)
    case (4 resp w')
    then show ?case
      unfolding answers_def
      by (elim exE conjE disjE) (simp_all add: exchanged_def raised_with_def json_response_def unhandled_exception_handler_def)
  next
    case (2 r w1 w2)
    then show ?case unfolding stable [OF 2(1)] by simp
  next
    case (3 e w1 w2)
    then show ?case unfolding stable [OF 3(1)] by simp
  qed simp
qed

end
