(* ===== verification/Bounded_Work.thy ===== *)
theory Bounded_Work
  imports Web_App
begin

text \<open>
  How much a request can ask of the database and of Redis. The libraries of the application are wrapped
  so that every statement and every Redis command is counted; the wrapped application does what the
  plain one does, and its count is bounded by a number that depends on nothing: not on the request,
  not on the data and not on how often a conditional update fails.
\<close>

section \<open>Counting calls\<close>

definition tick :: "('w, 'a) io \<Rightarrow> (nat \<times> 'w, 'a) io" where
  "tick m = (\<lambda>(n, w). case m w of (r, w') \<Rightarrow> (r, n + 1, w'))"

definition quietly :: "('w, 'a) io \<Rightarrow> (nat \<times> 'w, 'a) io" where
  "quietly m = (\<lambda>(n, w). case m w of (r, w') \<Rightarrow> (r, n, w'))"

text \<open>Attributes of loaded objects are read and set in memory.\<close>

definition metered_session :: "'w session \<Rightarrow> (nat \<times> 'w) session" where
  "metered_session db =
     \<lparr>select_user = \<lambda>c. tick (select_user db c), select_wallet = \<lambda>c fu. tick (select_wallet db c fu),
      select_txn = \<lambda>c. tick (select_txn db c), count_txns = \<lambda>c. tick (count_txns db c),
      page_txns = \<lambda>c off cnt. tick (page_txns db c off cnt),
      update_wallet = \<lambda>k ev b nv. tick (update_wallet db k ev b nv), insert_user = \<lambda>u. tick (insert_user db u),
      insert_wallet = \<lambda>u. tick (insert_wallet db u), insert_txn = \<lambda>t. tick (insert_txn db t),
      commit_tx = tick (commit_tx db), rollback_tx = tick (rollback_tx db),
      refresh_user = \<lambda>k. tick (refresh_user db k), refresh_wallet = \<lambda>k. tick (refresh_wallet db k),
      refresh_txn = \<lambda>k. tick (refresh_txn db k), user_attrs = \<lambda>k. quietly (user_attrs db k),
      wallet_attrs = \<lambda>k. quietly (wallet_attrs db k), txn_attrs = \<lambda>k. quietly (txn_attrs db k),
      set_wallet_balance = \<lambda>k b. quietly (set_wallet_balance db k b)\<rparr>"

definition metered_redis :: "'w redis \<Rightarrow> (nat \<times> 'w) redis" where
  "metered_redis rd =
     \<lparr>redis_get = \<lambda>k. tick (redis_get rd k), redis_setex = \<lambda>k ttl v. tick (redis_setex rd k ttl v),
      redis_delete = \<lambda>k. tick (redis_delete rd k), redis_incr = \<lambda>k. tick (redis_incr rd k),
      redis_expire = \<lambda>k ttl. tick (redis_expire rd k ttl),
      redis_pipeline_delete = \<lambda>ks. tick (redis_pipeline_delete rd ks), redis_ping = tick (redis_ping rd)\<rparr>"

definition metered :: "'w deps \<Rightarrow> (nat \<times> 'w) deps" where
  "metered d =
     \<lparr>dp_db = metered_session (dp_db d), dp_redis = metered_redis (dp_redis d),
      dp_security = (let s = dp_security d in
        \<lparr>pwd_hash = \<lambda>p. quietly (pwd_hash s p), pwd_verify = pwd_verify s, jwt_encode = jwt_encode s,
         jwt_decode = jwt_decode s, utc_now = quietly (utc_now s)\<rparr>),
      dp_server = (let s = dp_server d in
        \<lparr>new_uuid4 = quietly (new_uuid4 s), perf_counter = quietly (perf_counter s),
         emit_log = \<lambda>cv l m. quietly (emit_log s cv l m)\<rparr>),
      dp_settings = dp_settings d, dp_codec = dp_codec d, dp_renderer = dp_renderer d\<rparr>"

section \<open>What a metered computation costs at most\<close>

definition meters :: "nat \<Rightarrow> ('w, 'a) io \<Rightarrow> (nat \<times> 'w, 'a) io \<Rightarrow> bool" where
  "meters k m m' \<longleftrightarrow> (\<forall>n w. \<exists>j. j \<le> k \<and> m' (n, w) = (fst (m w), n + j, snd (m w)))"

lemma meters_tick: "meters 1 m (tick m)"
  by (simp add: meters_def tick_def split: prod.split)

lemma meters_quietly: "meters 0 m (quietly m)"
  by (simp add: meters_def quietly_def split: prod.split)

lemma meters_return: "meters 0 (py_return a) (py_return a)"
  by (simp add: meters_def py_return_def)

lemma meters_raise: "meters 0 (py_raise e) (py_raise e)"
  by (simp add: meters_def py_raise_def)

lemma meters_bind:
  assumes m: "meters j m m'" and f: "\<And>a. meters k (f a) (f' a)"
  shows "meters (j + k) (py_bind m f) (py_bind m' f')"
  unfolding meters_def
proof (intro allI)
  fix n w
  obtain r w1 where r: "m w = (r, w1)" by force
  then obtain i where i: "i \<le> j" "m' (n, w) = (r, n + i, w1)"
    using m unfolding meters_def by (metis fst_conv snd_conv)
  show "\<exists>l. l \<le> j + k \<and> py_bind m' f' (n, w) = (fst (py_bind m f w), n + l, snd (py_bind m f w))"
  proof (cases r)
    case (Inl e)
    with i r show ?thesis by (intro exI [of _ i]) (simp add: py_bind_def)
  next
    case (Inr a)
    obtain l where "l \<le> k" "f' a (n + i, w1) = (fst (f a w1), n + i + l, snd (f a w1))"
      using f [of a] unfolding meters_def by blast
    with Inr i r show ?thesis by (intro exI [of _ "i + l"]) (simp add: py_bind_def)
  qed
qed

lemma meters_catch:
  assumes m: "meters j m m'" and h: "\<And>e. meters k (h e) (h' e)"
  shows "meters (j + k) (py_catch m h) (py_catch m' h')"
  unfolding meters_def
proof (intro allI)
  fix n w
  obtain r w1 where r: "m w = (r, w1)" by force
  then obtain i where i: "i \<le> j" "m' (n, w) = (r, n + i, w1)"
    using m unfolding meters_def by (metis fst_conv snd_conv)
  show "\<exists>l. l \<le> j + k \<and> py_catch m' h' (n, w) = (fst (py_catch m h w), n + l, snd (py_catch m h w))"
  proof (cases r)
    case (Inr a)
    with i r show ?thesis by (intro exI [of _ i]) (simp add: py_catch_def)
  next
    case (Inl e)
    obtain l where "l \<le> k" "h' e (n + i, w1) = (fst (h e w1), n + i + l, snd (h e w1))"
      using h [of e] unfolding meters_def by blast
    with Inl i r show ?thesis by (intro exI [of _ "i + l"]) (simp add: py_catch_def)
  qed
qed

lemma meters_weaken: "meters j m m' \<Longrightarrow> j \<le> k \<Longrightarrow> meters k m m'"
  unfolding meters_def by (meson le_trans)

lemma meters_max: "meters j m m' \<Longrightarrow> meters (max j k) m m'" "meters k m m' \<Longrightarrow> meters (max j k) m m'"
  by (erule meters_weaken, simp)+

lemma meters_if: "meters j m m' \<Longrightarrow> meters k n n' \<Longrightarrow> meters (max j k) (if b then m else n) (if b then m' else n')"
  by (simp add: meters_max)

lemma meters_option:
  "meters j m m' \<Longrightarrow> (\<And>a. meters k (f a) (f' a)) \<Longrightarrow>
     meters (max j k) (case x of None \<Rightarrow> m | Some a \<Rightarrow> f a) (case x of None \<Rightarrow> m' | Some a \<Rightarrow> f' a)"
  by (cases x) (simp_all add: meters_max)

lemma meters_sum:
  "(\<And>a. meters j (f a) (f' a)) \<Longrightarrow> (\<And>b. meters k (g b) (g' b)) \<Longrightarrow>
     meters (max j k) (case x of Inl a \<Rightarrow> f a | Inr b \<Rightarrow> g b) (case x of Inl a \<Rightarrow> f' a | Inr b \<Rightarrow> g' b)"
  by (cases x) (simp_all add: meters_max)

lemma meters_pair:
  "(\<And>a b. meters k (f a b) (f' a b)) \<Longrightarrow> meters k (case p of (a, b) \<Rightarrow> f a b) (case p of (a, b) \<Rightarrow> f' a b)"
  by (cases p) simp

lemma meters_subject:
  "(\<And>s. meters k (f s) (f' s)) \<Longrightarrow> meters j a a' \<Longrightarrow> meters i b b' \<Longrightarrow>
     meters (max k (max j i)) (case v of JNull \<Rightarrow> a | JStr s \<Rightarrow> f s | _ \<Rightarrow> b) (case v of JNull \<Rightarrow> a' | JStr s \<Rightarrow> f' s | _ \<Rightarrow> b')"
  by (cases v) (simp_all add: meters_max)

lemma meters_map: "(\<And>a. meters 0 (f a) (f' a)) \<Longrightarrow> meters 0 (py_map f as) (py_map f' as)"
proof (induction as)
  case (Cons a as)
  then have "meters (0 + (0 + 0)) (py_map f (a # as)) (py_map f' (a # as))"
    unfolding py_map.simps by (intro meters_bind meters_return) simp_all
  then show ?case by simp
qed (simp add: meters_return)

lemmas meters_rules = meters_return meters_raise meters_bind meters_catch meters_if meters_option meters_sum meters_pair

section \<open>The wrapped libraries\<close>

lemma meters_session:
  "meters 1 (select_user db uc) (select_user (metered_session db) uc)"
  "meters 1 (select_wallet db wc fu) (select_wallet (metered_session db) wc fu)"
  "meters 1 (select_txn db tc) (select_txn (metered_session db) tc)"
  "meters 1 (count_txns db tc) (count_txns (metered_session db) tc)"
  "meters 1 (page_txns db tc off cnt) (page_txns (metered_session db) tc off cnt)"
  "meters 1 (update_wallet db k ev b nv) (update_wallet (metered_session db) k ev b nv)"
  "meters 1 (insert_user db un) (insert_user (metered_session db) un)"
  "meters 1 (insert_wallet db u) (insert_wallet (metered_session db) u)"
  "meters 1 (insert_txn db tn) (insert_txn (metered_session db) tn)"
  "meters 1 (commit_tx db) (commit_tx (metered_session db))"
  "meters 1 (rollback_tx db) (rollback_tx (metered_session db))"
  "meters 1 (refresh_user db k) (refresh_user (metered_session db) k)"
  "meters 1 (refresh_wallet db k) (refresh_wallet (metered_session db) k)"
  "meters 1 (refresh_txn db k) (refresh_txn (metered_session db) k)"
  "meters 0 (user_attrs db k) (user_attrs (metered_session db) k)"
  "meters 0 (wallet_attrs db k) (wallet_attrs (metered_session db) k)"
  "meters 0 (txn_attrs db k) (txn_attrs (metered_session db) k)"
  "meters 0 (set_wallet_balance db k b) (set_wallet_balance (metered_session db) k b)"
  unfolding metered_session_def session.simps by (rule meters_tick meters_quietly)+

lemma meters_redis:
  "meters 1 (redis_get rd key) (redis_get (metered_redis rd) key)"
  "meters 1 (redis_setex rd key ttl s) (redis_setex (metered_redis rd) key ttl s)"
  "meters 1 (redis_delete rd key) (redis_delete (metered_redis rd) key)"
  "meters 1 (redis_incr rd key) (redis_incr (metered_redis rd) key)"
  "meters 1 (redis_expire rd key ttl) (redis_expire (metered_redis rd) key ttl)"
  "meters 1 (redis_pipeline_delete rd keys) (redis_pipeline_delete (metered_redis rd) keys)"
  "meters 1 (redis_ping rd) (redis_ping (metered_redis rd))"
  unfolding metered_redis_def redis.simps by (rule meters_tick)+

lemma metered_parts [simp]:
  "dp_db (metered d) = metered_session (dp_db d)" "dp_redis (metered d) = metered_redis (dp_redis d)"
  "dp_settings (metered d) = dp_settings d" "dp_codec (metered d) = dp_codec d" "dp_renderer (metered d) = dp_renderer d"
  "pwd_verify (dp_security (metered d)) = pwd_verify (dp_security d)"
  "jwt_encode (dp_security (metered d)) = jwt_encode (dp_security d)"
  "jwt_decode (dp_security (metered d)) = jwt_decode (dp_security d)"
  by (simp_all add: metered_def Let_def)

lemma meters_security:
  "meters 0 (pwd_hash (dp_security d) p) (pwd_hash (dp_security (metered d)) p)"
  "meters 0 (utc_now (dp_security d)) (utc_now (dp_security (metered d)))"
  "meters 0 (new_uuid4 (dp_server d)) (new_uuid4 (dp_server (metered d)))"
  "meters 0 (perf_counter (dp_server d)) (perf_counter (dp_server (metered d)))"
  "meters 0 (emit_log (dp_server d) cv l s) (emit_log (dp_server (metered d)) cv l s)"
  by (simp_all add: metered_def Let_def meters_quietly)

section \<open>The services\<close>

text \<open>A retry loop costs a fixed amount for each attempt it may make.\<close>

lemma meters_finish_top_up:
  "meters 4 (finish_top_up db k (Some rd)) (finish_top_up (metered_session db) k (Some (metered_redis rd)))"
  unfolding finish_top_up_def invalidate_balance_def invalidate_wallet_info_def option.case
  by (rule meters_weaken, (rule meters_rules meters_session meters_redis)+) simp

lemma meters_top_up_loop:
  "meters (3 * length ns + 3) (top_up_loop db user amount (Some rd) ns)
     (top_up_loop (metered_session db) user amount (Some (metered_redis rd)) ns)"
proof (induction ns)
  case (Cons n ns)
  show ?case
    unfolding top_up_loop.simps wallet_get_by_user_id_def wallet_update_balance_def Let_def
    by (rule meters_weaken, (rule meters_rules meters_session meters_redis meters_finish_top_up Cons.IH)+) simp
qed (simp add: meters_weaken [OF meters_raise])

lemma meters_top_up:
  "meters 12 (top_up db user amount (Some rd)) (top_up (metered_session db) user amount (Some (metered_redis rd)))"
  unfolding top_up_def by (rule meters_weaken [OF meters_top_up_loop]) (simp add: MAX_TOPUP_RETRIES_def)

lemma meters_attempt:
  "meters 9 (attempt_payment cdc db sw rw b (Some rd))
     (attempt_payment cdc (metered_session db) sw rw b (Some (metered_redis rd)))"
  unfolding attempt_payment_def execute_transfer_def lock_wallets_def move_money_def wallet_update_balance_def
    wallet_get_by_id_for_update_def txn_create_def post_commit_def store_key_def Let_def option.case
  by (rule meters_weaken, (rule meters_rules meters_session meters_redis)+) simp

lemma meters_handler:
  assumes "meters k m m'"
  shows "meters (max 2 (k + 1)) (handle_payment_error db b n m e) (handle_payment_error (metered_session db) b n m' e)"
proof -
  have other: "meters (max 2 (k + 1)) (py_bind (rollback_tx db) (\<lambda>_. py_raise e'))
      (py_bind (rollback_tx (metered_session db)) (\<lambda>_. py_raise e'))" for e' :: exn
    by (rule meters_weaken, (rule meters_rules meters_session)+) simp
  have integrity: "meters (max 2 (k + 1))
      (handle_payment_error db b n m (Library IntegrityError))
      (handle_payment_error (metered_session db) b n m' (Library IntegrityError))"
    unfolding handle_payment_error_def exn.case library_exn.case txn_get_by_idempotency_key_def
    by (rule meters_weaken, (rule meters_rules meters_session)+) simp
  have conflict: "meters (max 2 (k + 1))
      (handle_payment_error db b n m (Domain OptimisticLockException))
      (handle_payment_error (metered_session db) b n m' (Domain OptimisticLockException))"
    unfolding handle_payment_error_def exn.case domain_exn.case
    by (rule meters_weaken, (rule meters_rules meters_session assms)+) simp
  show ?thesis
  proof (cases e)
    case (Domain x)
    show ?thesis
      using conflict other by (cases x) (simp_all add: Domain handle_payment_error_def)
  next
    case (Library x)
    show ?thesis
      using integrity other by (cases x) (simp_all add: Library handle_payment_error_def)
  qed (use other in \<open>simp_all add: handle_payment_error_def\<close>)
qed

lemma meters_payment_loop:
  "meters (10 * length ns + 1) (payment_loop cdc db sw rw b (Some rd) ns le)
     (payment_loop cdc (metered_session db) sw rw b (Some (metered_redis rd)) ns le)"
proof (induction ns arbitrary: le)
  case (Cons n ns)
  show ?case
    unfolding payment_loop.simps
    by (rule meters_weaken, (rule meters_catch meters_attempt meters_handler Cons.IH)+) simp
qed (simp add: meters_weaken [OF meters_raise])

lemma meters_send_uncached:
  "meters 34 (send_uncached cdc db user b (Some rd)) (send_uncached cdc (metered_session db) user b (Some (metered_redis rd)))"
  unfolding send_uncached_def txn_get_by_idempotency_key_def wallet_get_by_user_id_def
  by (rule meters_weaken, (rule meters_rules meters_session meters_payment_loop)+) (simp add: MAX_RETRY_ATTEMPTS_def)

lemma meters_send_money:
  "meters 35 (send_money cdc db user b (Some rd)) (send_money cdc (metered_session db) user b (Some (metered_redis rd)))"
proof -
  have check: "meters 1 (check_key key (Some rd)) (check_key key (Some (metered_redis rd)))" for key
    unfolding check_key_def option.case by (rule meters_weaken, (rule meters_rules meters_redis)+) simp
  have replay: "meters 0 (replay_cached cdc j) (replay_cached cdc j)" for j
    unfolding replay_cached_def by (cases j; simp only: json.case; rule meters_weaken, (rule meters_rules)+, simp)
  show ?thesis
    unfolding send_money_def
    by (rule meters_weaken, (rule meters_bind meters_option meters_if check replay meters_send_uncached)+) simp
qed

lemma meters_current_user:
  "meters 0 (current_user (dp_security d) st request) (current_user (dp_security (metered d)) st request)"
  unfolding current_user_def get_current_user_id_def metered_parts
  by (rule meters_weaken, (rule meters_rules meters_subject meters_security)+) simp

lemma meters_register:
  "meters 5 (register db (dp_security d) data) (register (metered_session db) (dp_security (metered d)) data)"
  unfolding register_def user_get_by_email_def user_create_def wallet_create_def hash_password_def
  by (rule meters_weaken, (rule meters_rules meters_session meters_security)+) simp

lemma meters_login:
  "meters 1 (login db (dp_security d) st data) (login (metered_session db) (dp_security (metered d)) st data)"
  unfolding login_def user_get_by_email_def create_access_token_def verify_password_def Let_def metered_parts
  by (rule meters_weaken, (rule meters_rules meters_session meters_security)+) simp

lemma meters_get_user: "meters 1 (get_user db user) (get_user (metered_session db) user)"
  unfolding get_user_def user_get_by_id_def by (rule meters_weaken, (rule meters_rules meters_session)+) simp

lemma meters_get_wallet:
  "meters 3 (get_wallet db user (Some rd)) (get_wallet (metered_session db) user (Some (metered_redis rd)))"
  unfolding get_wallet_def wallet_get_by_user_id_def get_balance_def set_balance_def option.case
  by (rule meters_weaken, (rule meters_rules meters_session meters_redis)+) simp

lemma meters_history:
  "meters 3 (get_transaction_history db user page per status) (get_transaction_history (metered_session db) user page per status)"
proof -
  have row: "meters 0 (py_bind (txn_attrs db t) (\<lambda>y. py_return (transaction_response_of y)))
      (py_bind (txn_attrs (metered_session db) t) (\<lambda>y. py_return (transaction_response_of y)))" for t
    by (rule meters_weaken, (rule meters_rules meters_session)+) simp
  show ?thesis
    unfolding get_transaction_history_def wallet_get_by_user_id_def txn_get_by_wallet_id_def Let_def
    by (rule meters_weaken, (rule meters_rules meters_session meters_map [OF row])+) simp
qed

lemma meters_get_transaction:
  "meters 2 (get_transaction db k user) (get_transaction (metered_session db) k user)"
  unfolding get_transaction_def wallet_get_by_user_id_def
  by (rule meters_weaken, (rule meters_rules meters_session)+) simp

lemma meters_health: "meters 1 (health_check st rd) (health_check st (metered_redis rd))"
  unfolding health_check_def is_healthy_def by (rule meters_weaken, (rule meters_rules meters_redis)+) simp

lemma meters_rate_limit: "meters 2 (rate_limit rl request rd) (rate_limit rl request (metered_redis rd))"
  unfolding rate_limit_def check_rate_limit_def Let_def
  by (rule meters_weaken, (rule meters_rules meters_redis)+) simp

section \<open>The application\<close>

lemma meters_endpoint: "meters 37 (endpoint d request c) (endpoint (metered d) request c)"
proof -
  note R = meters_rules meters_current_user meters_register meters_login meters_get_user meters_get_wallet
    meters_top_up meters_send_money meters_rate_limit meters_history meters_get_transaction meters_health
  note D = endpoint.simps respond_def valid_body_def metered_parts
  show ?thesis
  proof (cases c)
    case (Users_register body)
    show ?thesis unfolding Users_register D post_users_register_def by (rule meters_weaken, (rule R)+) simp
  next
    case (Users_login body)
    show ?thesis unfolding Users_login D post_users_login_def by (rule meters_weaken, (rule R)+) simp
  next
    case Users_me
    show ?thesis unfolding Users_me D get_users_me_def by (rule meters_weaken, (rule R)+) simp
  next
    case Wallets_me
    show ?thesis unfolding Wallets_me D get_wallets_me_def by (rule meters_weaken, (rule R)+) simp
  next
    case (Wallets_top_up body)
    show ?thesis unfolding Wallets_top_up D post_wallets_top_up_def by (rule meters_weaken, (rule R)+) simp
  next
    case (Payments_send body)
    show ?thesis unfolding Payments_send D post_payments_send_def by (rule meters_weaken, (rule R)+) simp
  next
    case (Payments_history query)
    show ?thesis unfolding Payments_history D get_payments_history_def by (rule meters_weaken, (rule R)+) simp
  next
    case (Payments_transaction path)
    show ?thesis unfolding Payments_transaction D get_payments_transaction_def by (rule meters_weaken, (rule R)+) simp
  next
    case Health
    show ?thesis unfolding Health D by (rule meters_weaken, (rule R)+) simp
  qed
qed

lemma meters_app: "meters 37 (app d request c) (app (metered d) request c)"
proof -
  have render: "meters 0 (case e of Library l \<Rightarrow> py_raise e | _ \<Rightarrow> py_return r)
      (case e of Library l \<Rightarrow> py_raise e | _ \<Rightarrow> py_return r)" for e and r :: "json response"
    by (cases e) (simp_all add: meters_return meters_raise)
  show ?thesis
    unfolding app_def serve_def dispatch_as_def request_id_def Let_def
    by (rule meters_weaken, (rule meters_rules meters_security meters_endpoint render)+) simp
qed

end
