(* ===== verification/Deployment.thy ===== *)
theory Deployment
  imports Web_App Demo Ledger_Services "HOL-Library.Sublist"
begin

text \<open>
  The service in operation: exchanges one after another, each in a session of its own, and what holds
  in every state they reach: of the database and the cached responses, and of the money of every wallet.
\<close>

section \<open>One exchange after another\<close>

text \<open>
  A request finds a new session. Since the last one the others may have taken steps, and the other clients of Redis
  too; entries may have been lost or have got another lifetime.
\<close>

definition opens :: "'w absn \<Rightarrow> 'w kv \<Rightarrow> rely \<Rightarrow> 'w \<Rightarrow> 'w \<Rightarrow> bool" where
  "opens V K R w w1 \<longleftrightarrow> R {} (durable V w) (durable V w1) \<and> fresh_session V w1 \<and>
     spares_keys K w w1"

inductive served :: "'w deps \<Rightarrow> 'w absn \<Rightarrow> 'w kv \<Rightarrow> rely \<Rightarrow> 'w \<Rightarrow> call list \<Rightarrow> 'w \<Rightarrow> bool"
  for d V K R w0 where
  start: "served d V K R w0 [] w0"
| exchange: "served d V K R w0 cs w \<Longrightarrow> opens V K R w w1 \<Longrightarrow> call_ok c \<Longrightarrow>
     served d V K R w0 (cs @ [c]) (snd (app d request c w1))"

inductive_cases servedE: "served d V K R w0 cs w"

lemma cache_sound_opens:
  assumes "rely_ok R" and "cache_sound cdc K V w" and "opens V K R w w1"
  shows "cache_sound cdc K V w1"
  using assms(3) by (intro cache_sound_spares [OF assms(1,2)]) (simp_all add: opens_def)

text \<open>What the exchanges do to the database is a sequence of their effects.\<close>

lemma served_induct_effects:
  assumes d: "lawful_deps d V K R" and mv: "moves_users R" and run: "served d V K R w0 cs w"
    and cs: "cache_sound (dp_codec d) K V w0" and start: "P [] w0"
    and step: "\<And>cs c w w'. P cs w \<Longrightarrow> call_ok c \<Longrightarrow> took_effect V R c w w' \<Longrightarrow> P (cs @ [c]) w'"
  shows "P cs w \<and> cache_sound (dp_codec d) K V w"
  using run
proof induction
  case (exchange cs w w1 c request)
  have R: "rely_ok R" using lawful_depsD(1) [OF d] by (rule lawful_rely)
  have f: "fresh_session V w1" and o: "R {} (durable V w) (durable V w1)" using exchange.hyps(2) by (simp_all add: opens_def)
  have "cache_sound (dp_codec d) K V w1"
    using exchange.IH exchange.hyps(2) by (blast intro: cache_sound_opens [OF R])
  from wp_app_sound [OF d mv f this exchange.hyps(3)]
  have "wp (app d request c) (\<lambda>_ w'. took_effect V R c w1 w' \<and> cache_sound (dp_codec d) K V w')
      (\<lambda>_ w'. took_effect V R c w1 w' \<and> cache_sound (dp_codec d) K V w') w1"
    by (rule wp_mono) (simp_all add: exchanged_def)
  then have "took_effect V R c w1 (snd (app d request c w1))" "cache_sound (dp_codec d) K V (snd (app d request c w1))"
    by (simp_all add: wp_snd)
  then show ?case using took_effect_after [OF R o] step exchange.IH exchange.hyps(3) by blast
qed (use cs start in simp)

lemma call_ok_cents:
  "call_ok (Payments_send (Inr b)) \<Longrightarrow> 0 < cents (pr_amount b)"
  "call_ok (Wallets_top_up (Inr data)) \<Longrightarrow> 0 < cents (tu_amount data)"
  using money_field_cents by (simp_all add: payment_request_valid_def wallet_top_up_valid_def)

lemma took_effect_others:
  assumes "call_ok c" and "took_effect V others c w w'"
  shows "others {} (durable V w) (durable V w')"
  using assms(2) unfolding took_effect_def
proof (elim disjE exE conjE)
  fix b u y assume c: "c = Payments_send (Inr b)" and t: "transferred V others u b y w w'"
  show ?thesis by (rule transferred_others [OF t call_ok_cents(1) [OF assms(1) [unfolded c]]])
next
  fix data u z assume c: "c = Wallets_top_up (Inr data)" and t: "topped_up V others u (tu_amount data) z w w'"
  show ?thesis by (rule topped_up_others [OF t call_ok_cents(2) [OF assms(1) [unfolded c]]])
next
  fix data y assume "registered V others y w w'"
  then show ?thesis by (rule registered_others)
qed

section \<open>The books\<close>

text \<open>
  What the recorded transactions say of a wallet, and what its balance has beyond that: money that did
  not come from another wallet.
\<close>

definition entry :: "uuid \<Rightarrow> transaction \<Rightarrow> int" where
  "entry k y = (if t_receiver_wallet_id y = k then cents (t_amount y) else 0)
     - (if t_sender_wallet_id y = k then cents (t_amount y) else 0)"

definition posted :: "tables \<Rightarrow> uuid \<Rightarrow> int" where
  "posted t k = (\<Sum>j \<in> dom (txns t). entry k (the (txns t j)))"

definition balance_of :: "tables \<Rightarrow> uuid \<Rightarrow> int" where
  "balance_of t k = (case wallets t k of None \<Rightarrow> 0 | Some x \<Rightarrow> cents (w_balance x))"

definition paid_in :: "tables \<Rightarrow> uuid \<Rightarrow> int" where
  "paid_in t k = balance_of t k - posted t k"

lemma posted_put [simp]: "posted (put_wallet x t) k = posted t k" "posted (put_user u t) k = posted t k"
  by (simp_all add: posted_def)

lemma posted_put_txn:
  assumes "finite (dom (txns t))" and "txns t (t_id y) = None"
  shows "posted (put_txn y t) k = posted t k + entry k y"
proof -
  have "t_id y \<notin> dom (txns t)" using assms(2) by auto
  then have "(\<Sum>j \<in> dom (txns t). entry k (the (txns (put_txn y t) j))) = posted t k"
    unfolding posted_def by (intro sum.cong) auto
  then show ?thesis using assms by (simp add: posted_def domIff)
qed

lemma balance_of_put [simp]:
  "balance_of (put_wallet x t) k = (if k = w_id x then cents (w_balance x) else balance_of t k)"
  "balance_of (put_user u t) k = balance_of t k" "balance_of (put_txn y t) k = balance_of t k"
  by (simp_all add: balance_of_def)

text \<open>A transfer enters nothing into the books but what it records.\<close>

lemma transfers_paid_in:
  assumes tr: "transfers s r a currency key description t y T" and fin: "finite (dom (txns t))"
  shows "paid_in T k = paid_in t k"
proof -
  from tr obtain xs xr bs br ts us where
    x: "s \<noteq> r" "wallets t s = Some xs" "wallets t r = Some xr" "w_id xs = s" "w_id xr = r"
      "cents bs = cents (w_balance xs) - cents a" "cents br = cents (w_balance xr) + cents a" "txns t (t_id y) = None"
      "t_sender_wallet_id y = s" "t_receiver_wallet_id y = r" "cents (t_amount y) = cents a"
    and T: "T = put_txn y (put_wallet (rebalance br (w_version xr + 1) us xr)
              (put_wallet (rebalance bs (w_version xs + 1) ts xs) t))"
    unfolding transfers_def by blast
  have "posted T k = posted t k + entry k y"
    unfolding T by (subst posted_put_txn) (use x fin in simp_all)
  moreover have "balance_of T k = balance_of t k + entry k y"
    unfolding T using x by (auto simp: entry_def balance_of_def)
  ultimately show ?thesis by (simp add: paid_in_def)
qed

text \<open>The amounts of the top-ups asked for, and of a list of payments in, what goes to a wallet.\<close>

fun deposit :: "call \<Rightarrow> int list" where
  "deposit (Wallets_top_up (Inr data)) = [cents (tu_amount data)]"
| "deposit _ = []"

definition deposits :: "call list \<Rightarrow> int list" where
  "deposits cs = concat (map deposit cs)"

lemma deposits_simps [simp]: "deposits [] = []" "deposits (cs @ [c]) = deposits cs @ deposit c"
  by (simp_all add: deposits_def)

definition paid_to :: "uuid \<Rightarrow> (uuid \<times> int) list \<Rightarrow> int" where
  "paid_to k ps = sum_list (map snd (filter (\<lambda>p. fst p = k) ps))"

lemma paid_to_simps [simp]: "paid_to k [] = 0" "paid_to k (ps @ qs) = paid_to k ps + paid_to k qs"
  "paid_to k [(j, n)] = (if j = k then n else 0)"
  by (simp_all add: paid_to_def)

text \<open>From one state of the books to another, with the payments in between.\<close>

definition books :: "tables \<Rightarrow> (uuid \<times> int) list \<Rightarrow> tables \<Rightarrow> bool" where
  "books t ps u \<longleftrightarrow> finite (dom (txns u)) \<and> finite (dom (wallets u)) \<and>
     (\<forall>k. paid_in u k = paid_in t k + paid_to k ps) \<and> total_cents u = total_cents t + sum_list (map snd ps)"

lemma books_trans: "books t ps u \<Longrightarrow> books u qs v \<Longrightarrow> books t (ps @ qs) v"
  by (simp add: books_def)

lemma books_refl: "finite (dom (txns t)) \<Longrightarrow> finite (dom (wallets t)) \<Longrightarrow> books t [] t"
  by (simp add: books_def)

lemma books_transfer:
  assumes tr: "transfers s r a currency key description t y T"
    and "finite (dom (txns t))" and fin: "finite (dom (wallets t))"
  shows "books t [] T"
proof -
  have "finite (dom (txns T))" "finite (dom (wallets T))"
    using tr assms(2) fin unfolding transfers_def by auto
  then show ?thesis
    using transfers_conserve [OF tr fin] transfers_paid_in [OF tr assms(2)] by (simp add: books_def)
qed

lemma books_top_up:
  assumes "finite (dom (txns t))" "finite (dom (wallets t))" "wallets t (w_id x) = Some x"
    and "cents b = cents (w_balance x) + n"
  shows "books t [(w_id x, n)] (put_wallet (rebalance b v ts x) t)"
  unfolding books_def
  using assms total_cents_put_wallet [of t "rebalance b v ts x" x] by (auto simp: paid_in_def balance_of_def)

lemma books_register:
  assumes "finite (dom (txns t))" "finite (dom (wallets t))" "wallets t k = None"
  shows "books t [] (put_wallet (wallet_row k c e (u_id y)) (put_user y t))"
proof -
  let ?x = "wallet_row k c e (u_id y)"
  have "k \<notin> dom (wallets t)" using assms(3) by auto
  then have "(\<Sum>j \<in> dom (wallets t). cents (w_balance (the (((wallets t)(k \<mapsto> ?x)) j)))) = total_cents t"
    unfolding total_cents_def by (intro sum.cong) auto
  then have "total_cents (put_wallet ?x (put_user y t)) = total_cents t"
    using assms by (simp add: total_cents_def domIff cents_def)
  with assms show ?thesis by (simp add: books_def paid_in_def balance_of_def cents_def)
qed

lemma took_effect_books:
  assumes t: "took_effect V alone c w w'" and fin: "finite (dom (txns (durable V w)))" "finite (dom (wallets (durable V w)))"
  shows "\<exists>ps. subseq (map snd ps) (deposit c) \<and> books (durable V w) ps (durable V w')"
  using t unfolding took_effect_def
proof (elim disjE exE conjE)
  assume "alone {} (durable V w) (durable V w')"
  then show ?thesis using books_refl [OF fin] by (intro exI [of _ "[]"]) (simp add: alone_def)
next
  fix b u y assume "transferred V alone u b y w w'"
  then show ?thesis using books_transfer [OF _ fin] by (intro exI [of _ "[]"]) (auto simp: transferred_def alone_def)
next
  fix data u z assume c: "c = Wallets_top_up (Inr data)" and "topped_up V alone u (tu_amount data) z w w'"
  then obtain x b ts where "wallets (durable V w) (w_id x) = Some x" "cents b = cents (w_balance x) + cents (tu_amount data)"
      "put_wallet (rebalance b (w_version x + 1) ts x) (durable V w) = durable V w'"
    by (auto simp: topped_up_def alone_def)
  with books_top_up [OF fin, of x b "cents (tu_amount data)" "w_version x + 1" ts] c show ?thesis
    by (intro exI [of _ "[(w_id x, cents (tu_amount data))]"]) simp
next
  fix data y assume "registered V alone y w w'"
  then obtain k ca e where "wallets (durable V w) k = None"
      "put_wallet (wallet_row k ca e (u_id y)) (put_user y (durable V w)) = durable V w'"
    by (auto simp: registered_def alone_def)
  with books_register [OF fin, of k ca e y] show ?thesis by (intro exI [of _ "[]"]) simp
qed

lemma served_books:
  assumes d: "lawful_deps d V K alone" and run: "served d V K alone w0 cs w" and cs: "cache_sound (dp_codec d) K V w0"
    and fin: "finite (dom (txns (durable V w0)))" "finite (dom (wallets (durable V w0)))"
  shows "\<exists>ps. subseq (map snd ps) (deposits cs) \<and> books (durable V w0) ps (durable V w)"
proof -
  let ?P = "\<lambda>cs w. \<exists>ps. subseq (map snd ps) (deposits cs) \<and> books (durable V w0) ps (durable V w)"
  have "?P cs w \<and> cache_sound (dp_codec d) K V w"
  proof (rule served_induct_effects [OF d moves_users_alone run cs])
    show "?P [] w0" using books_refl [OF fin] by (intro exI [of _ "[]"]) simp
  next
    fix cs c w w'
    assume "?P cs w" and t: "took_effect V alone c w w'"
    then obtain ps where ps: "subseq (map snd ps) (deposits cs)" "books (durable V w0) ps (durable V w)" by blast
    then have "finite (dom (txns (durable V w)))" "finite (dom (wallets (durable V w)))" by (simp_all add: books_def)
    from took_effect_books [OF t this] obtain qs
      where "subseq (map snd qs) (deposit c)" "books (durable V w) qs (durable V w')" by blast
    with ps show "?P (cs @ [c]) w'"
      by (intro exI [of _ "ps @ qs"]) (auto intro: books_trans list_emb_append_mono)
  qed
  then show ?thesis by blast
qed

section \<open>The application held in memory\<close>

definition mem_renderer :: renderer where
  "mem_renderer =
     \<lparr>dump_user = \<lambda>r. JObj [(''id'', JStr (uuid_str (ur_id r))), (''email'', JStr (ur_email r)),
         (''full_name'', JStr (ur_full_name r)), (''is_active'', JBool (ur_is_active r))],
      dump_token = \<lambda>r. JObj [(''access_token'', JStr (tk_access_token r)), (''token_type'', JStr (tk_token_type r))],
      dump_wallet = \<lambda>r. JObj [(''id'', JStr (uuid_str (wr_id r))), (''balance'', JStr (dec_str (wr_balance r)))],
      dump_page = \<lambda>r. JObj [(''transactions'', JArr (map mem_dump (tl_transactions r))), (''total'', JInt (int (tl_total r)))]\<rparr>"

definition demo_deps :: "mem deps" where
  "demo_deps = \<lparr>dp_db = mem_session, dp_redis = mem_redis True, dp_security = mem_security, dp_server = mem_server,
     dp_settings = default_settings, dp_codec = mem_codec, dp_renderer = mem_renderer\<rparr>"

lemma lawful_demo_deps:
  "lawful_deps demo_deps mem_absn mem_kv others" "lawful_deps demo_deps mem_absn mem_kv alone"
  "lawful_deps demo_deps mem_absn mem_shared others" "lawful_deps demo_deps mem_absn mem_shared alone"
  using mem_client_ok(1,3) [of True] mem_shared_client_ok [of True] lawful_mem_session mem_keeps_redis
    mem_keeps_redis_shared lawful_mem_codec
  by (simp_all add: lawful_deps_def demo_deps_def lawful_mem_security lawful_mem_server)

text \<open>Alice tops up 12.50 and sends Bob 25.50.\<close>

definition demo_calls :: "call list" where
  "demo_calls = [Wallets_top_up (Inr \<lparr>tu_amount = Dec 1250 (- 2)\<rparr>), Payments_send (Inr (demo_request ''k1'' 2550))]"

lemma demo_calls_ok: "c \<in> set demo_calls \<Longrightarrow> call_ok c"
  by (auto simp: demo_calls_def demo_request_def wallet_top_up_valid_def payment_request_valid_def money_field_def
      whole_cents_def currency_pattern_def ord_def)

definition mem_reopen :: "mem \<Rightarrow> mem" where
  "mem_reopen m = m\<lparr>m_pend := [], m_locks := [], m_users := [], m_wallets := [], m_txns := [], m_dirty := False\<rparr>"

lemma opens_reopen:
  assumes R: "rely_ok R"
  shows "opens mem_absn mem_kv R m (mem_reopen m)" "opens mem_absn mem_shared R m (mem_reopen m)"
proof -
  have base: "durable mem_absn (mem_reopen m) = durable mem_absn m" "fresh_session mem_absn (mem_reopen m)"
    "entries mem_kv (mem_reopen m) = entries mem_kv m"
    by (simp_all add: mem_reopen_def fresh_session_def seen_def mem_kv_def)
  have writes: "may_write mem_kv m k v = may_write mem_kv (mem_reopen m) k v"
    "may_write mem_shared m k v = may_write mem_shared (mem_reopen m) k v" for k v
    by (simp_all only: may_write_def mem_kv_def mem_shared_def among_clients_def published_def base kv.simps
        kv.update_convs option.case mem_Collect_eq)
  have "spares_keys mem_kv m (mem_reopen m)" "spares_keys mem_shared m (mem_reopen m)"
    unfolding spares_keys_def writes using base(3) by (auto simp: mem_shared_def)
  with base rely_refl [OF R] show "opens mem_absn mem_kv R m (mem_reopen m)"
    "opens mem_absn mem_shared R m (mem_reopen m)"
    by (simp_all add: opens_def)
qed

definition demo_run :: mem where
  "demo_run = foldl (\<lambda>m c. snd (app demo_deps (demo_http (Inr demo_token)) c (mem_reopen m))) demo demo_calls"

lemma demo_served:
  assumes reopen: "\<And>m. opens mem_absn K R m (mem_reopen m)"
  shows "served demo_deps mem_absn K R demo demo_calls demo_run"
proof -
  have "served demo_deps mem_absn K R demo (cs @ ds)
      (foldl (\<lambda>m c. snd (app demo_deps (demo_http (Inr demo_token)) c (mem_reopen m))) m ds)"
    if "served demo_deps mem_absn K R demo cs m" "set ds \<subseteq> set demo_calls" for cs ds m
    using that
  proof (induction ds arbitrary: cs m)
    case (Cons c ds)
    have "served demo_deps mem_absn K R demo (cs @ [c])
        (snd (app demo_deps (demo_http (Inr demo_token)) c (mem_reopen m)))"
      by (rule exchange [OF Cons.prems(1) reopen]) (use Cons.prems(2) demo_calls_ok in simp)
    from Cons.IH [OF this] Cons.prems(2) show ?case by simp
  qed simp
  from this [OF served.start, of demo_calls] show ?thesis by (simp add: demo_run_def)
qed

end
