(* ===== verification/Progress.thy ===== *)
theory Progress
  imports Payment_Guarantees Wallet_Service Memory Web_App
begin

text \<open>
  The requests that have to succeed do. The laws of the two stores allow every call to fail; here a
  database is assumed that accepts what it can accept, and a session that nobody interferes with, and the
  services are shown to return; and a payment that the tables do not allow is refused with the exception of
  the first reason that holds (\<open>refusal\<close>).
\<close>

section \<open>A database that answers\<close>

definition returns :: "('w, 'a) io \<Rightarrow> 'w \<Rightarrow> bool" where
  "returns m w \<longleftrightarrow> \<not> isl (fst (m w))"

lemma wp_returns: "returns m w \<Longrightarrow> wp m Q E w \<Longrightarrow> wp m Q (\<lambda>_ _. False) w"
  unfolding returns_def by (rule wp_never_raises)

lemma returnsI: "wp m Q (\<lambda>_ _. False) w \<Longrightarrow> returns m w"
  by (auto simp: returns_def wp_def split: prod.splits sum.splits)

text \<open>
  A row that violates no constraint is inserted, when an id is left; a balance that fits the column is
  written; a commit that takes nothing away goes through; and reading succeeds on valid tables.
\<close>

definition insertable :: "new_transaction \<Rightarrow> tables \<Rightarrow> bool" where
  "insertable n t \<longleftrightarrow> whole_cents (nt_amount n) \<and> 0 < cents (nt_amount n) \<and> cents (nt_amount n) < 10 ^ 18 \<and>
     nt_sender_wallet_id n \<noteq> nt_receiver_wallet_id n \<and>
     {nt_sender_wallet_id n, nt_receiver_wallet_id n} \<subseteq> dom (wallets t) \<and>
     (\<forall>j x. txns t j = Some x \<longrightarrow> t_idempotency_key x \<noteq> nt_idempotency_key n) \<and>
     length (nt_currency n) \<le> 3 \<and> length (nt_idempotency_key n) \<le> 255 \<and> (\<exists>k. txns t k = None)"

definition session_up :: "'w session \<Rightarrow> 'w absn \<Rightarrow> bool" where
  "session_up db V \<longleftrightarrow>
     (\<forall>w c fu. \<not> dirty V w \<longrightarrow> valid_db (view V w) \<longrightarrow> returns (select_wallet db c fu) w) \<and>
     (\<forall>w c. \<not> dirty V w \<longrightarrow> valid_db (view V w) \<longrightarrow> returns (select_txn db c) w) \<and>
     (\<forall>w k ev nb nv. \<not> dirty V w \<longrightarrow> whole_cents nb \<longrightarrow> 0 \<le> cents nb \<longrightarrow> cents nb < 10 ^ 18 \<longrightarrow>
        (\<forall>x. wallets (view V w) k = Some x \<longrightarrow> w_id x = k) \<longrightarrow> returns (update_wallet db k ev nb nv) w) \<and>
     (\<forall>w n. \<not> dirty V w \<longrightarrow> insertable n (view V w) \<longrightarrow> returns (insert_txn db n) w) \<and>
     (\<forall>w. \<not> dirty V w \<longrightarrow> users (durable V w) \<subseteq>\<^sub>m users (view V w) \<longrightarrow> txns (durable V w) \<subseteq>\<^sub>m txns (view V w) \<longrightarrow>
        returns (commit_tx db) w) \<and>
     (\<forall>w k. \<not> dirty V w \<longrightarrow> k \<in> dom (txns (view V w)) \<longrightarrow> returns (refresh_txn db k) w) \<and>
     (\<forall>w k. \<not> dirty V w \<longrightarrow> k \<in> dom (wallets (view V w)) \<longrightarrow> returns (refresh_wallet db k) w)"

lemma session_upD:
  assumes "session_up db V" and "\<not> dirty V w"
  shows "valid_db (view V w) \<Longrightarrow> returns (select_wallet db c fu) w"
    and "valid_db (view V w) \<Longrightarrow> returns (select_txn db tc) w"
    and "whole_cents nb \<Longrightarrow> 0 \<le> cents nb \<Longrightarrow> cents nb < 10 ^ 18 \<Longrightarrow>
        (\<And>x. wallets (view V w) k = Some x \<Longrightarrow> w_id x = k) \<Longrightarrow> returns (update_wallet db k ev nb nv) w"
    and "insertable n (view V w) \<Longrightarrow> returns (insert_txn db n) w"
    and "users (durable V w) \<subseteq>\<^sub>m users (view V w) \<Longrightarrow> txns (durable V w) \<subseteq>\<^sub>m txns (view V w) \<Longrightarrow> returns (commit_tx db) w"
    and "k \<in> dom (txns (view V w)) \<Longrightarrow> returns (refresh_txn db k) w"
    and "k \<in> dom (wallets (view V w)) \<Longrightarrow> returns (refresh_wallet db k) w"
  using assms unfolding session_up_def by blast+

text \<open>The session in memory is one.\<close>

lemma next_id_unused:
  assumes "k \<notin> set used"
  shows "next_id used m \<notin> set used"
proof -
  let ?f = "\<lambda>n. UUID (of_nat n)"
  let ?ns = "[m_seed m ..< m_seed m + length used + 1]"
  have "\<exists>n \<in> set ?ns. ?f n \<notin> set used"
  proof (rule ccontr)
    assume no: "\<not> ?thesis"
    show False
    proof (cases "length used < 2 ^ 128")
      case True
      have "inj_on ?f (set ?ns)"
      proof (rule inj_onI)
        fix i j
        assume ij: "i \<in> set ?ns" "j \<in> set ?ns" "?f i = ?f j"
        then have "i mod 2 ^ 128 = j mod 2 ^ 128" by (simp add: of_nat_eq_iff take_bit_eq_mod word_of_nat_eq_iff)
        moreover have "i < j + 2 ^ 128" "j < i + 2 ^ 128" using ij(1,2) True by auto
        ultimately show "i = j"
        proof (cases "i \<le> j")
          case True
          with \<open>i mod 2 ^ 128 = j mod 2 ^ 128\<close> obtain s where "j = i + 2 ^ 128 * s" by (rule mod_eq_nat2E)
          with \<open>j < i + 2 ^ 128\<close> show ?thesis by simp
        next
          case False
          with \<open>i mod 2 ^ 128 = j mod 2 ^ 128\<close> obtain s where "i = j + 2 ^ 128 * s" by (metis mod_eq_nat1E nat_le_linear)
          with \<open>i < j + 2 ^ 128\<close> show ?thesis by simp
        qed
      qed
      then have "card (?f ` set ?ns) = length used + 1" by (simp add: card_image)
      moreover have "?f ` set ?ns \<subseteq> set used" using no by blast
      then have "card (?f ` set ?ns) \<le> length used" by (meson List.finite_set card_length card_mono le_trans)
      ultimately show False by simp
    next
      case False
      define d where "d = unat (uuid_int k - of_nat (m_seed m))"
      have "d < 2 ^ 128" using unsigned_less [of "uuid_int k - of_nat (m_seed m)"] by (simp add: d_def)
      then have "m_seed m + d \<in> set ?ns" using False by auto
      moreover have "?f (m_seed m + d) = k" by (cases k) (simp add: d_def)
      ultimately show False using no assms by metis
    qed
  qed
  then have "\<exists>x \<in> set (map ?f ?ns). x \<notin> set used" unfolding set_map by blast
  then obtain i where i: "find (\<lambda>k. k \<notin> set used) (map ?f ?ns) = Some i" using find_None_iff by (metis option.exhaust)
  then have "i \<notin> set used" by (auto simp: find_Some_iff)
  with i show ?thesis by (simp add: next_id_def del: upt_Suc)
qed

lemma map_of_unused: "map_of al k = None \<Longrightarrow> k \<notin> set (map fst al)"
  by (simp add: map_of_eq_None_iff)

lemma mem_session_up: "session_up mem_session mem_absn"
proof -
  have row: "w_id x = k \<and> numeric_column (w_balance x)" if "valid_db (tables_of r)" "map_of (r_wallets r) k = Some x" for r k x
    using valid_db_rows(2) [OF that(1), of k x] that(2) by (simp add: wallet_ok_def)
  have trow: "t_id x = k" if "valid_db (tables_of r)" "map_of (r_txns r) k = Some x" for r k x
    using valid_db_rows(3) [OF that(1), of k x] that(2) by (simp add: txn_ok_def)
  have ins: "returns (mem_insert_txn n) m" if n: "insertable n (tables_of (seen m))" for n m
  proof -
    obtain k where "map_of (r_txns (seen m)) k = None" using n by (auto simp: insertable_def)
    from next_id_unused [OF map_of_unused [OF this], of m]
    have "map_of (r_txns (seen m)) (next_id (map fst (r_txns (seen m))) m) = None"
      by (simp add: map_of_eq_None_iff)
    moreover have "rows_where (\<lambda>x. t_idempotency_key x = nt_idempotency_key n) (r_txns (seen m)) = []"
    proof (rule ccontr)
      assume "\<not> ?thesis"
      then obtain k x rs where "rows_where (\<lambda>x. t_idempotency_key x = nt_idempotency_key n) (r_txns (seen m)) = (k, x) # rs"
        by (metis neq_Nil_conv surj_pair)
      from rows_where_Cons [OF this] n show False by (auto simp: insertable_def)
    qed
    ultimately show ?thesis
      using n by (auto simp: returns_def mem_insert_txn_def Let_def insertable_def transaction_row_def
          chk_amount_positive_def chk_different_wallets_def)
  qed
  show ?thesis
    unfolding session_up_def
    by (intro conjI allI impI)
      (auto simp: mem_session_def returns_def ins [unfolded returns_def] mem_update_wallet_def mem_commit_def keeps_rows_iff
        mem_refresh_txn_def mem_refresh_wallet_def Let_def dest!: rows_where_Cons dest: row trow split: list.splits option.splits)
qed

section \<open>Nobody interferes\<close>

text \<open>The objects of the session are the rows it sees.\<close>

definition synced :: "'w absn \<Rightarrow> 'w \<Rightarrow> bool" where
  "synced V w \<longleftrightarrow> snapshots_ok V w \<and> (\<forall>k y. loaded_wallet V w k = Some y \<longrightarrow> wallets (view V w) k = Some y)"

text \<open>Nothing has changed but that more is loaded and locked.\<close>

definition steady :: "'w absn \<Rightarrow> 'w \<Rightarrow> 'w \<Rightarrow> bool" where
  "steady V w w' \<longleftrightarrow> view V w' = view V w \<and> durable V w' = durable V w \<and> synced V w' \<and>
     loaded_wallet V w \<subseteq>\<^sub>m loaded_wallet V w' \<and> locked V w \<subseteq> locked V w'"

lemma steady_trans: "steady V w w1 \<Longrightarrow> steady V w1 w2 \<Longrightarrow> steady V w w2"
  unfolding steady_def by (auto intro: map_le_trans)

lemma steadyD:
  assumes "steady V w w'"
  shows "view V w' = view V w" "durable V w' = durable V w" "synced V w'"
    "loaded_wallet V w k = Some x \<Longrightarrow> loaded_wallet V w' k = Some x" "k \<in> locked V w \<Longrightarrow> k \<in> locked V w'"
  using assms by (auto simp: steady_def map_le_def dom_def)

lemma synced_clean: "synced V w \<Longrightarrow> \<not> dirty V w"
  by (simp add: synced_def snapshots_ok_def)

lemma up_select_wallet:
  assumes law: "lawful_session db V alone" and up: "session_up db V" and s: "synced V w" and ok: "valid_db (view V w)"
    and x: "wallets (view V w) k = Some x" "wallet_matches c x"
    and only: "\<And>j y. wallets (view V w) j = Some y \<Longrightarrow> wallet_matches c y \<Longrightarrow> j = k"
  shows "wp (select_wallet db c fu)
    (\<lambda>r w'. r = Some k \<and> steady V w w' \<and> loaded_wallet V w' k = Some x \<and> (fu \<longrightarrow> k \<in> locked V w')) (\<lambda>_ _. False) w"
proof -
  have sn: "snapshots_ok V w" and clean: "\<not> dirty V w" and row: "\<And>j y. loaded_wallet V w j = Some y \<Longrightarrow> wallets (view V w) j = Some y"
    using s synced_clean by (simp_all add: synced_def)
  note L = lawful_laws(1) [OF law, unfolded law_select_wallet_def, rule_format, OF clean]
  show ?thesis
  proof (rule wp_mono [OF wp_returns [OF session_upD(1) [OF up clean ok] wp_conj [OF wp_select_wallet [OF law sn] L]]], goal_cases)
    case (1 r w')
    show ?case
    proof (cases r)
      case None
      with 1 x show ?thesis by auto
    next
      case (Some j)
      with 1 obtain y where y: "wallets (view V w) j = Some y" "wallet_matches c y"
        and u: "unchanged V alone w w'" and lk: "fu \<longrightarrow> j \<in> locked V w'"
        and lw: "loaded_wallet V w' = (loaded_wallet V w)(j \<mapsto> (case loaded_wallet V w j of None \<Rightarrow> y | Some z \<Rightarrow> z))"
        by auto
      have j: "j = k" by (rule only [OF y])
      have now: "loaded_wallet V w' = (loaded_wallet V w)(k \<mapsto> x)"
      proof (cases "loaded_wallet V w k")
        case None
        then show ?thesis using lw y(1) x(1) by (simp add: j)
      next
        case (Some z)
        from row [OF this] x(1) have "z = x" by simp
        with Some lw show ?thesis by (simp add: j)
      qed
      have "loaded_wallet V w \<subseteq>\<^sub>m loaded_wallet V w'"
        unfolding now map_le_def
      proof
        fix i assume "i \<in> dom (loaded_wallet V w)"
        then obtain z where z: "loaded_wallet V w i = Some z" by blast
        show "loaded_wallet V w i = ((loaded_wallet V w)(k \<mapsto> x)) i" using row [OF z] z x(1) by auto
      qed
      moreover have v: "view V w' = view V w" "durable V w' = durable V w" "snapshots_ok V w'" "locked V w \<subseteq> locked V w'"
        using u unfolding unchanged_def alone_def by metis+
      moreover have "wallets (view V w') i = Some z" if "loaded_wallet V w' i = Some z" for i z
      proof (cases "i = k")
        case True
        with that x(1) show ?thesis unfolding now v(1) by simp
      next
        case False
        with that have "loaded_wallet V w i = Some z" unfolding now by simp
        then show ?thesis unfolding v(1) by (rule row)
      qed
      then have "synced V w'" using v(3) by (simp add: synced_def)
      ultimately show ?thesis using lk j Some now by (simp add: steady_def)
    qed
  qed simp
qed

text \<open>The wallet of a user, and a wallet by its id.\<close>

lemma up_wallets:
  assumes law: "lawful_session db V alone" and up: "session_up db V" and s: "synced V w" and ok: "valid_db (view V w)"
    and x: "wallets (view V w) k = Some x"
  shows "wp (wallet_get_by_user_id db (w_user_id x))
    (\<lambda>r w'. r = Some k \<and> steady V w w' \<and> loaded_wallet V w' k = Some x) (\<lambda>_ _. False) w"
    and "wp (wallet_get_by_id_for_update db k)
    (\<lambda>r w'. r = Some k \<and> steady V w w' \<and> loaded_wallet V w' k = Some x \<and> k \<in> locked V w') (\<lambda>_ _. False) w"
proof -
  have ids: "w_id y = j" if "wallets (view V w) j = Some y" for j y
    using valid_db_rows(2) [OF ok that] by (simp add: wallet_ok_def)
  have "j = k" if "wallets (view V w) j = Some y" "w_user_id y = w_user_id x" for j y
    using unique_byD [OF valid_db_unique(2) [OF ok] that(1) x that(2)] .
  then show "wp (wallet_get_by_user_id db (w_user_id x))
    (\<lambda>r w'. r = Some k \<and> steady V w w' \<and> loaded_wallet V w' k = Some x) (\<lambda>_ _. False) w"
    unfolding wallet_get_by_user_id_def
    by (intro wp_mono [OF up_select_wallet [OF law up s ok x]]) auto
  show "wp (wallet_get_by_id_for_update db k)
    (\<lambda>r w'. r = Some k \<and> steady V w w' \<and> loaded_wallet V w' k = Some x \<and> k \<in> locked V w') (\<lambda>_ _. False) w"
    unfolding wallet_get_by_id_for_update_def
    by (intro wp_mono [OF up_select_wallet [OF law up s ok x]]) (use ids x in auto)
qed

lemma up_lock_wallets:
  assumes law: "lawful_session db V alone" and up: "session_up db V" and s: "synced V w" and ok: "valid_db (view V w)"
    and x: "wallets (view V w) a = Some xa" "wallets (view V w) b = Some xb"
  shows "wp (lock_wallets db a b)
    (\<lambda>p w'. p = (a, b) \<and> steady V w w' \<and> loaded_wallet V w' a = Some xa \<and> loaded_wallet V w' b = Some xb \<and>
       {a, b} \<subseteq> locked V w') (\<lambda>_ _. False) w"
proof -
  define f g where "f = sort [a, b] ! 0" and "g = sort [a, b] ! 1"
  then have fg: "f = a \<and> g = b \<or> f = b \<and> g = a" unfolding sort_two by auto
  then obtain xf xg where xf: "wallets (view V w) f = Some xf" and xg: "wallets (view V w) g = Some xg" using x by blast
  have idf: "w_id xf = f" using valid_db_rows(2) [OF ok xf] by (simp add: wallet_ok_def)
  show ?thesis
    unfolding lock_wallets_def Let_def f_def [symmetric] g_def [symmetric] wp_bind
  proof (rule wp_mono [OF up_wallets(2) [OF law up s ok xf]], goal_cases)
    case (1 r w1)
    then have s1: "steady V w w1" by simp
    have "valid_db (view V w1)" "wallets (view V w1) g = Some xg" using ok xg by (simp_all add: steadyD(1) [OF s1])
    from up_wallets(2) [OF law up steadyD(3) [OF s1] this] show ?case
    proof (rule wp_mono, goal_cases)
      case (1 q w2)
      then have s2: "steady V w1 w2" by simp
      show ?case
        using 1 \<open>r = Some f \<and> _\<close> steady_trans [OF s1 s2] steadyD(4,5) [OF s2] x xf xg idf fg
        by (auto simp: wp_simps wp_wallet_attrs [OF law])
    qed simp
  qed simp
qed

section \<open>A payment that has to succeed\<close>

lemma up_update_balance:
  assumes law: "lawful_session db V alone" and up: "session_up db V" and sn: "snapshots_ok V w"
    and y: "loaded_wallet V w k = Some y" "wallets (view V w) k = Some y"
    and nb: "whole_cents nb" "0 \<le> cents nb" "cents nb < 10 ^ 18"
  shows "wp (wallet_update_balance db k nb (w_version y))
    (\<lambda>ok w'. ok \<and> (\<exists>b ts. wrote V alone (rebalance b (w_version y + 1) ts y) w w')) (\<lambda>_ _. False) w"
proof -
  have id: "w_id y = k" using snapshot_row [OF sn y(1)] by blast
  have "returns (update_wallet db k (w_version y) nb (w_version y + 1)) w"
    by (rule session_upD(3) [OF up snapshots_clean [OF sn] nb]) (use y(2) id in auto)
  then have "wp (update_wallet db k (w_version y) nb (w_version y + 1)) (\<lambda>_ _. True) (\<lambda>_ _. False) w"
    by (rule wp_returns [where E = "\<lambda>_ _. True"]) (simp add: wpI)
  then have "wp (wallet_update_balance db k nb (w_version y)) (\<lambda>_ _. True) (\<lambda>_ _. False) w"
    unfolding wallet_update_balance_def wp_bind by (rule wp_mono) (simp_all add: wp_return)
  then have "returns (wallet_update_balance db k nb (w_version y)) w" by (rule returnsI)
  from wp_returns [OF this wp_update_balance [OF law sn y(1)]] show ?thesis
    by (rule wp_mono) (use y(2) in \<open>auto split: if_splits\<close>)
qed

lemma up_move_money:
  assumes law: "lawful_session db V alone" and up: "session_up db V" and s: "synced V w"
    and x: "loaded_wallet V w a = Some xa" "loaded_wallet V w b = Some xb" and L: "{a, b} \<subseteq> locked V w"
    and ab: "a \<noteq> b" and amt: "whole_cents amount" "0 < cents amount"
    and enough: "cents amount \<le> cents (w_balance xa)" and fits: "0 \<le> cents (w_balance xb)"
      "cents (w_balance xb) + cents amount < 10 ^ 18" "cents (w_balance xa) < 10 ^ 18"
  shows "wp (move_money db a b amount) (\<lambda>_. moved V alone a b amount w) (\<lambda>_ _. False) w"
proof -
  have sn: "snapshots_ok V w" and rows: "wallets (view V w) a = Some xa" "wallets (view V w) b = Some xb"
    using s x by (auto simp: synced_def)
  have ids: "w_id xa = a" "w_id xb = b" and col: "numeric_column (w_balance xa)" "numeric_column (w_balance xb)"
    using snapshot_row [OF sn x(1)] snapshot_row [OF sn x(2)] by blast+
  note ca = column_exact [OF col(1)] and cb = column_exact [OF col(2)]
  have sub: "whole_cents (dec_sub (w_balance xa) amount) \<and> cents (dec_sub (w_balance xa) amount) = cents (w_balance xa) - cents amount"
    by (rule dec_sub_small) (use ca amt enough fits in auto)
  have add: "whole_cents (dec_add (w_balance xb) amount) \<and> cents (dec_add (w_balance xb) amount) = cents (w_balance xb) + cents amount"
    by (rule dec_add_small) (use cb amt fits in auto)
  have less: "\<not> dec_less (w_balance xa) amount"
    using dec_less_cents [of "w_balance xa" amount] ca amt(1) enough by simp
  have "wp (move_money db a b amount) (\<lambda>_ _. True) (\<lambda>_ _. False) w"
    unfolding move_money_def wp_bind wp_wallet_attrs [OF law] x option.case wp_if if_not_P [OF less] ids
  proof (rule wp_mono [OF up_update_balance [OF law up sn x(1) rows(1)]], goal_cases)
    case (4 debited w1)
    then obtain bs ts where wr: "wrote V alone (rebalance bs (w_version xa + 1) ts xa) w w1" by blast
    then have sn1: "snapshots_ok V w1" and v1: "view V w1 = put_wallet (rebalance bs (w_version xa + 1) ts xa) (view V w)"
      and same: "\<forall>j. j \<noteq> a \<longrightarrow> loaded_wallet V w1 j = loaded_wallet V w j"
      using ids by (simp_all add: wrote_def alone_def)
    have b1: "loaded_wallet V w1 b = Some xb" "wallets (view V w1) b = Some xb"
      using same ids ab x(2) rows(2) by (simp_all add: v1)
    have "wp (wallet_update_balance db b (dec_add (w_balance xb) amount) (w_version xb)) (\<lambda>ok w'. ok) (\<lambda>_ _. False) w1"
      by (rule wp_mono [OF up_update_balance [OF law up sn1 b1]]) (use add amt(2) fits in auto)
    with 4 show ?case by (simp add: wp_simps wp_wallet_attrs [OF law] b1 ids)
  qed (use sub enough fits amt in auto)
  then have "returns (move_money db a b amount) w" by (rule returnsI)
  then show ?thesis
    by (rule wp_returns [OF _ wp_move_money [OF law sn _ ab amt(1)]]) (use L x in \<open>simp add: locked_both_def\<close>)
qed

text \<open>The transaction is recorded, when its key is new and an id is left.\<close>

definition recordable :: "string \<Rightarrow> string \<Rightarrow> tables \<Rightarrow> bool" where
  "recordable currency key t \<longleftrightarrow> length currency \<le> 3 \<and> length key \<le> 255 \<and>
     (\<forall>j x. txns t j = Some x \<longrightarrow> t_idempotency_key x \<noteq> key) \<and> (\<exists>k. txns t k = None)"

lemma up_record:
  assumes law: "lawful_session db V alone" and up: "session_up db V" and ab: "a \<noteq> b"
    and amt: "whole_cents amount" "0 < cents amount" "cents amount < 10 ^ 18"
    and mv: "moved V alone a b amount w w1" and new: "recordable currency key (view V w)"
  shows "wp (txn_create db
      \<lparr>nt_sender_wallet_id = a, nt_receiver_wallet_id = b, nt_amount = amount, nt_currency = currency,
       nt_status = COMPLETED, nt_idempotency_key = key, nt_description = description\<rparr>)
    (\<lambda>k w'. \<exists>y. t_id y = k \<and> recorded V alone a b amount currency key description y w w') (\<lambda>_ _. False) w1"
proof -
  have clean: "\<not> dirty V w1" and v: "txns (view V w1) = txns (view V w)" and dom: "{a, b} \<subseteq> dom (wallets (view V w1))"
    using mv by (auto simp: moved_def alone_def snapshots_ok_def)
  have "insertable \<lparr>nt_sender_wallet_id = a, nt_receiver_wallet_id = b, nt_amount = amount, nt_currency = currency,
       nt_status = COMPLETED, nt_idempotency_key = key, nt_description = description\<rparr> (view V w1)"
    using amt ab dom new by (simp add: insertable_def recordable_def v)
  then show ?thesis
    using wp_record [OF law ab amt(1) mv] unfolding txn_create_def by (rule wp_returns [OF session_upD(4) [OF up clean]])
qed

lemma up_commit:
  assumes law: "lawful_session db V alone" and up: "session_up db V"
    and rc: "recorded V alone a b amount currency key description y w w1" and same: "view V w = durable V w"
  shows "wp (py_bind (commit_tx db) (\<lambda>_. py_bind (refresh_txn db (t_id y)) (\<lambda>_.
           py_bind (txn_attrs db (t_id y)) (\<lambda>t. py_return (transaction_response_of t)))))
    (\<lambda>_ _. True) (\<lambda>_ _. False) w1"
proof -
  have clean: "\<not> dirty V w1" and d: "durable V w1 = durable V w" and row: "txns (view V w1) (t_id y) = Some y"
    and tr: "transfers a b amount currency key description (durable V w) y (view V w1)"
    using rc same by (auto simp: recorded_def alone_def)
  have "returns (commit_tx db) w1"
    by (rule session_upD(5) [OF up clean])
      (simp_all add: d transfers_rows(3,4) [OF tr] map_le_def dom_def transfers_rows(5) [OF tr])
  note C = wp_returns [OF this lawful_laws(8) [OF law, unfolded law_commit_def, rule_format, OF clean]]
  show ?thesis
    unfolding wp_bind
  proof (rule wp_mono [OF C], goal_cases)
    case (1 u w2)
    then have c2: "\<not> dirty V w2" and row2: "txns (view V w2) (t_id y) = Some y"
      using row by (auto simp: alone_def)
    have "returns (refresh_txn db (t_id y)) w2" by (rule session_upD(6) [OF up c2]) (use row2 in blast)
    note F = wp_returns [OF this lawful_laws(10) [OF law, unfolded law_refresh_def, rule_format, OF c2, THEN conjunct2, THEN conjunct1]]
    show ?case
      by (rule wp_mono [OF F]) (use row2 in \<open>auto simp: wp_txn_attrs [OF law] wp_simps\<close>)
  qed
qed

text \<open>One attempt. What is asked for fits the two wallets of valid tables.\<close>

definition affordable :: "decimal \<Rightarrow> wallet \<Rightarrow> wallet \<Rightarrow> bool" where
  "affordable amount xa xb \<longleftrightarrow> whole_cents amount \<and> 0 < cents amount \<and> cents amount \<le> cents (w_balance xa) \<and>
     cents (w_balance xb) + cents amount < 10 ^ 18"

lemma wallet_range:
  assumes "valid_db t" and "wallets t k = Some x"
  shows "0 \<le> cents (w_balance x) \<and> cents (w_balance x) < 10 ^ 18"
  using valid_db_rows(2) [OF assms] expo_2_cents [of "w_balance x"]
  by (auto simp: wallet_ok_def numeric_column_def chk_balance_non_negative_def)

lemma up_execute:
  assumes law: "lawful_session db V alone" and up: "session_up db V" and s: "synced V w" and ok: "valid_db (view V w)"
    and same: "view V w = durable V w"
    and x: "wallets (view V w) a = Some xa" "wallets (view V w) b = Some xb" and ab: "a \<noteq> b"
    and fits: "affordable amount xa xb" and new: "recordable currency key (view V w)"
  shows "returns (execute_transfer db a b amount currency key description) w"
proof -
  have amt: "whole_cents amount" "0 < cents amount" "cents amount \<le> cents (w_balance xa)"
      "cents (w_balance xb) + cents amount < 10 ^ 18"
    using fits by (simp_all add: affordable_def)
  note ra = wallet_range [OF ok x(1)] and rb = wallet_range [OF ok x(2)]
  have "wp (execute_transfer db a b amount currency key description) (\<lambda>_ _. True) (\<lambda>_ _. False) w"
    unfolding execute_transfer_def
  proof (subst wp_bind, rule wp_mono [OF up_lock_wallets [OF law up s ok x]], goal_cases)
    case (1 p w1)
    then have p: "p = (a, b)" and st: "steady V w w1" and l: "loaded_wallet V w1 a = Some xa" "loaded_wallet V w1 b = Some xb"
      and L: "{a, b} \<subseteq> locked V w1" by simp_all
    note v1 = steadyD(1,2) [OF st]
    show ?case
      unfolding p prod.case
    proof (subst wp_bind, rule wp_mono [OF up_move_money [OF law up steadyD(3) [OF st] l L ab amt(1-3)]], goal_cases)
      case (4 u w2)
      then have mv: "moved V alone a b amount w1 w2" by simp
      then have ok2: "snapshots_ok V w2" and "loaded_wallet V w2 a \<noteq> None" "loaded_wallet V w2 b \<noteq> None"
        by (simp_all add: moved_def)
      then obtain za zb where z: "loaded_wallet V w2 a = Some za" "loaded_wallet V w2 b = Some zb" "w_id za = a" "w_id zb = b"
        using snapshot_row [OF ok2] by blast
      have small: "cents amount < 10 ^ 18" using amt(3) ra by simp
      have new1: "recordable currency key (view V w1)" using new by (simp add: v1)
      have same1: "view V w1 = durable V w1" using same by (simp add: v1)
      show ?case
      proof (subst wp_bind, simp only: wp_wallet_attrs [OF law] z option.case, subst wp_bind,
          simp only: wp_wallet_attrs [OF law] z option.case, subst wp_bind,
          rule wp_mono [OF up_record [OF law up ab amt(1,2) small mv new1]], goal_cases)
        case (1 k w3)
        then obtain y where y: "t_id y = k" "recorded V alone a b amount currency key description y w1 w3" by blast
        show ?case using up_commit [OF law up y(2) same1] unfolding y(1) by simp
      qed simp
    qed (use amt ra rb in simp_all)
  qed simp
  then show ?thesis by (rule returnsI)
qed

text \<open>With a Redis that answers, nothing after the commit fails either.\<close>

definition client_up :: "'w redis option \<Rightarrow> bool" where
  "client_up rc \<longleftrightarrow> (\<forall>rd. rc = Some rd \<longrightarrow> redis_up rd)"

lemma up_post_commit:
  assumes law: "lawful_session db V R" and cl: "client_ok rc K V R" and up: "client_up rc" and cs: "cache_sound cdc K V w"
    and y: "txns (durable V w) (t_id y) = Some y" "t_idempotency_key y = key"
    and h: "holds V a w" "holds V b w"
  shows "wp (post_commit cdc db a b key rc (transaction_response_of y)) (\<lambda>_ _. True) (\<lambda>_ _. False) w"
proof (cases rc)
  case None
  then show ?thesis by (simp add: post_commit_def wp_simps)
next
  case (Some rd)
  have answers: "wp (redis_pipeline_delete rd ks) (\<lambda>_ _. True) (\<lambda>_ _. False) w1" for ks w1
    using up Some by (auto simp: wp_def client_up_def up_returns split: prod.splits sum.splits)
  show ?thesis
    unfolding post_commit_def Let_def Some option.case wp_bind y(2) [symmetric]
  proof (rule wp_mono [OF wp_store_response [OF lawful_rely [OF law], of "Some rd" K V cdc w y]], goal_cases)
    case (4 u w1)
    then have q: "db_quiet V R w w1" by simp
    obtain xa xb where x: "loaded_wallet V w1 a = Some xa" "loaded_wallet V w1 b = Some xb"
      using h by (auto simp: holds_def db_quietD(5) [OF q])
    show ?case unfolding wp_wallet_attrs [OF law] x option.case by (rule answers)
  qed (use cl Some cs y in simp_all)
qed

lemma up_attempt:
  assumes law: "lawful_session db V alone" and up: "session_up db V" and cl: "client_ok rc K V alone" "client_up rc"
    and keep: "session_keeps_redis db K" and cs: "cache_sound cdc K V w"
    and s: "synced V w" and ok: "valid_db (view V w)" and same: "view V w = durable V w"
    and l: "loaded_wallet V w a = Some xa" "loaded_wallet V w b = Some xb" and ab: "a \<noteq> b"
    and fits: "affordable (pr_amount req) xa xb"
    and new: "recordable (pr_currency req) (pr_idempotency_key req) (view V w)"
  shows "wp (attempt_payment cdc db a b req rc)
    (\<lambda>resp w'. \<exists>y. resp = transaction_response_of y \<and> paid V alone a b req y w w') (\<lambda>_ _. False) w"
proof -
  have sn: "snapshots_ok V w" and x: "wallets (view V w) a = Some xa" "wallets (view V w) b = Some xb"
    using s l by (auto simp: synced_def)
  have amt: "whole_cents (pr_amount req)" using fits by (simp add: affordable_def)
  have h: "holds V a w" "holds V b w" using holds_snapshot [OF sn] l by simp_all
  have id: "w_id xa = a" "w_id xb = b" using h l by (auto simp: holds_def)
  note R = lawful_rely [OF law]
  note kept = keeps_redis_execute_transfer [OF keep lawful_laws(11) [OF law]]
  note transfer = wp_returns [OF up_execute [OF law up s ok same x ab fits new]
      wp_keeps_redis [OF kept wp_execute_transfer [OF law sn ab amt]]]
  have "wp (attempt_payment cdc db a b req rc) (\<lambda>_ _. True) (\<lambda>_ _. False) w"
    unfolding attempt_payment_def
  proof (simp only: wp_bind wp_wallet_attrs [OF law] l option.case id, rule wp_mono [OF transfer], goal_cases)
    case (1 resp w1)
    then obtain y where y: "resp = transaction_response_of y"
      and c: "committed V alone a b (pr_amount req) (pr_currency req) (pr_idempotency_key req) (pr_description req) y w w1"
      and kv: "kv_same K w w1" and h1: "holds V a w1" "holds V b w1"
      by blast
    have "rows_kept V w w1" using c by (simp add: committed_def)
    then have "cache_sound cdc K V w1" using kv by (rule cache_sound_step [OF cs])
    from up_post_commit [OF law cl this committed_row [OF R c] h1] show ?case
      unfolding y wp_bind by (rule wp_mono) (simp_all add: wp_simps)
  qed
  then have "returns (attempt_payment cdc db a b req rc) w" by (rule returnsI)
  from wp_returns [OF this wp_attempt [OF law cl(1) keep sn cs ab h amt]] show ?thesis by (rule wp_mono) blast+
qed

text \<open>
  The request can be paid: two wallets, money enough in the one, room for it in the other, a key that no
  transaction has, and an id for the new one.
\<close>

definition payable :: "uuid \<Rightarrow> payment_request \<Rightarrow> uuid \<Rightarrow> uuid \<Rightarrow> tables \<Rightarrow> bool" where
  "payable user req a b t \<longleftrightarrow> a \<noteq> b \<and>
     (\<exists>xa xb. wallets t a = Some xa \<and> w_user_id xa = user \<and> wallets t b = Some xb \<and> w_user_id xb = pr_receiver_id req \<and>
        cents (pr_amount req) \<le> cents (w_balance xa) \<and> cents (w_balance xb) + cents (pr_amount req) < 10 ^ 18) \<and>
     (\<forall>j x. txns t j = Some x \<longrightarrow> t_idempotency_key x \<noteq> pr_idempotency_key req) \<and> (\<exists>k. txns t k = None)"

lemma payableE:
  assumes "payable user req a b t" and "payment_request_valid req"
  obtains xa xb where "a \<noteq> b" "wallets t a = Some xa" "wallets t b = Some xb"
    "w_user_id xa = user" "w_user_id xb = pr_receiver_id req" "affordable (pr_amount req) xa xb"
    "recordable (pr_currency req) (pr_idempotency_key req) t"
proof -
  have "whole_cents (pr_amount req) \<and> 0 < cents (pr_amount req)" "length (pr_currency req) \<le> 3"
    "length (pr_idempotency_key req) \<le> 255"
    using assms(2) money_field_cents by (auto simp: payment_request_valid_def currency_pattern_def)
  then show thesis using assms(1) that unfolding payable_def affordable_def recordable_def by blast
qed

lemma up_new_key:
  assumes law: "lawful_session db V alone" and up: "session_up db V" and s: "synced V w" and ok: "valid_db (view V w)"
    and new: "\<forall>j x. txns (view V w) j = Some x \<longrightarrow> t_idempotency_key x \<noteq> key"
  shows "wp (txn_get_by_idempotency_key db key) (\<lambda>r w'. r = None \<and> steady V w w') (\<lambda>_ _. False) w"
proof -
  have sn: "snapshots_ok V w" using s by (simp add: synced_def)
  show ?thesis
    unfolding txn_get_by_idempotency_key_def
  proof (rule wp_mono [OF wp_returns [OF session_upD(2) [OF up synced_clean [OF s] ok] wp_select_txn [OF law sn]]], goal_cases)
    case (1 r w')
    then have v: "view V w' = view V w" "durable V w' = durable V w" "snapshots_ok V w'" "locked V w \<subseteq> locked V w'"
      and l: "loaded_wallet V w' = loaded_wallet V w"
      unfolding unchanged_def alone_def by metis+
    have "steady V w w'" using s v by (simp add: steady_def synced_def l)
    with 1 new show ?case by (auto split: option.splits)
  qed
qed

lemma up_send_uncached:
  assumes law: "lawful_session db V alone" and up: "session_up db V" and cl: "client_ok rc K V alone" "client_up rc"
    and keep: "session_keeps_redis db K" and cs: "cache_sound cdc K V w"
    and s: "synced V w" and ok: "valid_db (view V w)" and same: "view V w = durable V w"
    and pay: "payable user req a b (durable V w)" and val: "payment_request_valid req"
  shows "wp (send_uncached cdc db user req rc)
    (\<lambda>resp w'. \<exists>y. resp = transaction_response_of y \<and>
       transfers a b (pr_amount req) (pr_currency req) (pr_idempotency_key req) (pr_description req)
         (durable V w) y (durable V w')) (\<lambda>_ _. False) w"
proof -
  obtain xa xb where ab: "a \<noteq> b" and new: "recordable (pr_currency req) (pr_idempotency_key req) (durable V w)"
    and x: "wallets (durable V w) a = Some xa" "wallets (durable V w) b = Some xb"
    and u: "w_user_id xa = user" "w_user_id xb = pr_receiver_id req"
    and fits: "affordable (pr_amount req) xa xb"
    by (rule payableE [OF pay val])
  have ids: "w_id xa = a" "w_id xb = b"
    using valid_db_rows(2) [OF ok, of a xa] valid_db_rows(2) [OF ok, of b xb] x by (simp_all add: same wallet_ok_def)
  note R = lawful_rely [OF law]
  have keep_txn: "keeps_redis K (txn_get_by_idempotency_key db key)" for key
    unfolding txn_get_by_idempotency_key_def by (rule keeps_redis_session(3) [OF keep])
  have keep_wallet: "keeps_redis K (wallet_get_by_user_id db i)" for i
    unfolding wallet_get_by_user_id_def by (rule keeps_redis_session(2) [OF keep])
  have frame: "cache_sound cdc K V w' \<and> valid_db (view V w') \<and> view V w' = durable V w'"
    if "steady V w w'" "kv_same K w w'" for w'
    using that ok same rely_refl [OF R] cache_sound_step [OF cs _ that(2)] rows_kept_rely [OF R, of "{}" V w w']
    by (simp add: steadyD(1,2))
  show ?thesis
    unfolding send_uncached_def
  proof (subst wp_bind, rule wp_mono [OF wp_keeps_redis [OF keep_txn up_new_key [OF law up s ok]]], goal_cases)
    case 1
    then show ?case using new by (simp add: recordable_def same)
  next
    case (2 r w1)
    then have r: "r = None" and s1: "steady V w w1" and k1: "kv_same K w w1" by simp_all
    note f1 = frame [OF s1 k1] and v1 = steadyD(1,2) [OF s1]
    have x1: "wallets (view V w1) a = Some xa" using x by (simp add: v1 same)
    show ?case
      unfolding r option.case
    proof (subst wp_bind, rule wp_mono [OF wp_keeps_redis [OF keep_wallet
          up_wallets(1) [OF law up steadyD(3) [OF s1] _ x1, unfolded u]]], goal_cases)
      case (2 r w2)
      then have r: "r = Some a" and s2: "steady V w1 w2" and l2: "loaded_wallet V w2 a = Some xa" and k2: "kv_same K w w2"
        using kv_same_trans [OF k1] by simp_all
      note s12 = steady_trans [OF s1 s2]
      note f2 = frame [OF s12 k2] and v2 = steadyD(1,2) [OF s12]
      have x2: "wallets (view V w2) b = Some xb" using x by (simp add: v2 same)
      show ?case
        unfolding r option.case
      proof (subst wp_bind, rule wp_mono [OF wp_keeps_redis [OF keep_wallet
            up_wallets(1) [OF law up steadyD(3) [OF s2] _ x2, unfolded u]]], goal_cases)
        case (2 r w3)
        then have r: "r = Some b" and s3: "steady V w2 w3" and l3: "loaded_wallet V w3 b = Some xb" and k3: "kv_same K w w3"
          using kv_same_trans [OF k2] by simp_all
        note s13 = steady_trans [OF s12 s3]
        note f3 = frame [OF s13 k3] and v3 = steadyD(1,2) [OF s13] and l3' = steadyD(4) [OF s3 l2]
        have new3: "recordable (pr_currency req) (pr_idempotency_key req) (view V w3)" using new by (simp add: v3 same)
        have d3: "view V w3 = durable V w" using v3(1) same by (rule trans)
        have "wp (payment_loop cdc db a b req rc (1 # ns) le)
          (\<lambda>resp w'. \<exists>y. resp = transaction_response_of y \<and> paid V alone a b req y w3 w') (\<lambda>_ _. False) w3" for ns le
          unfolding payment_loop.simps wp_catch
          by (rule wp_mono [OF up_attempt [OF law up cl keep _ steadyD(3) [OF s3] _ _ l3' l3 ab fits new3]])
            (use f3 in blast)+
        then have loop: "wp (payment_loop cdc db a b req rc (1 # ns) le)
          (\<lambda>resp w'. \<exists>y. resp = transaction_response_of y \<and> transfers a b (pr_amount req) (pr_currency req)
             (pr_idempotency_key req) (pr_description req) (durable V w) y (durable V w')) (\<lambda>_ _. False) w3" for ns le
          by (rule wp_mono) (auto simp: paid_def committed_def alone_def d3)
        have "[1..<MAX_RETRY_ATTEMPTS + 1] = 1 # [2..<MAX_RETRY_ATTEMPTS + 1]"
          by (simp add: MAX_RETRY_ATTEMPTS_def upt_rec)
        then show ?case
          using loop ab unfolding r option.case wp_bind wp_wallet_attrs [OF law] l3 l3' ids by (simp del: payment_loop.simps)
      qed (use f2 in auto)
    qed (use f1 in auto)
  qed simp
qed

lemma funded_payment_returns:
  assumes law: "lawful_session db V alone" and up: "session_up db V" and cl: "client_ok rc K V alone" "client_up rc"
    and keep: "session_keeps_redis db K" and cdc: "lawful_codec cdc" and fresh: "fresh_session V w"
    and cs: "cache_sound cdc K V w" and ok: "valid_db (durable V w)" and val: "payment_request_valid req" and pay: "payable user req a b (durable V w)"
  shows "wp (send_money cdc db user req rc)
    (\<lambda>resp w'. \<exists>y. resp = transaction_response_of y \<and>
       transfers a b (pr_amount req) (pr_currency req) (pr_idempotency_key req) (pr_description req)
         (durable V w) y (durable V w')) (\<lambda>_ _. False) w"
proof -
  have new: "\<forall>j x. txns (durable V w) j = Some x \<longrightarrow> t_idempotency_key x \<noteq> pr_idempotency_key req"
    using pay by (simp add: payable_def)
  have same: "view V w = durable V w" and none: "loaded_wallet V w = Map.empty" "loaded_txn V w = Map.empty" "\<not> dirty V w"
    using fresh by (simp_all add: fresh_session_def)
  show ?thesis
    unfolding send_money_def
  proof (subst wp_bind, rule wp_mono [OF wp_check_key [OF cl(1) lawful_rely [OF law] cdc cs]], goal_cases)
    case (1 r w1)
    then have q: "db_quiet V alone w w1" and kv: "kv_same K w w1" by simp_all
    have d: "durable V w1 = durable V w" "view V w1 = durable V w"
      using db_quietD(1,2) [OF q] same by (simp_all add: alone_def)
    have s: "synced V w1"
      using none db_quietD(4,5,6) [OF q] by (simp add: synced_def snapshots_ok_def)
    have "rows_kept V w w1" by (rule rows_kept_rely [OF lawful_rely [OF law] db_quietD(1) [OF q]])
    then have "cache_sound cdc K V w1" using kv by (rule cache_sound_step [OF cs])
    from up_send_uncached [OF law up cl keep this s] 1 new ok pay val show ?case
      by (auto simp: d)
  qed
qed

section \<open>A payment that has to be refused\<close>

text \<open>
  The reasons, in the order in which the code looks for them: one of the two has no wallet, both are the same
  wallet, or the sender's balance is short.
\<close>

inductive refusal :: "uuid \<Rightarrow> payment_request \<Rightarrow> tables \<Rightarrow> domain_exn \<Rightarrow> bool"
  for user :: uuid and req :: payment_request and t :: tables where
  no_wallet: "\<forall>k x. wallets t k = Some x \<longrightarrow> w_user_id x \<noteq> u \<Longrightarrow> u = user \<or> u = pr_receiver_id req \<Longrightarrow>
     refusal user req t WalletNotFoundException"
| same_wallet: "wallets t (w_id x) = Some x \<Longrightarrow> w_user_id x = user \<Longrightarrow> pr_receiver_id req = user \<Longrightarrow>
     refusal user req t SelfTransferException"
| short_balance: "wallets t (w_id x) = Some x \<Longrightarrow> w_user_id x = user \<Longrightarrow>
     wallets t (w_id y) = Some y \<Longrightarrow> w_user_id y = pr_receiver_id req \<Longrightarrow> w_id x \<noteq> w_id y \<Longrightarrow>
     cents (w_balance x) < cents (pr_amount req) \<Longrightarrow>
     refusal user req t (InsufficientBalanceException (dec_str (w_balance x)) (dec_str (pr_amount req)))"

definition rollback_up :: "'w session \<Rightarrow> bool" where
  "rollback_up db \<longleftrightarrow> (\<forall>w. returns (rollback_tx db) w)"

lemma mem_rollback_up: "rollback_up mem_session"
  by (simp add: rollback_up_def returns_def mem_session_def mem_rollback_def)

abbreviation refuses :: "'w absn \<Rightarrow> domain_exn \<Rightarrow> tables \<Rightarrow> exn \<Rightarrow> 'w \<Rightarrow> bool" where
  "refuses V d t \<equiv> \<lambda>e w'. e = Domain d \<and> durable V w' = t"

lemma up_no_wallet:
  assumes law: "lawful_session db V alone" and up: "session_up db V" and s: "synced V w" and ok: "valid_db (view V w)"
    and no: "\<forall>k x. wallets (view V w) k = Some x \<longrightarrow> w_user_id x \<noteq> user"
  shows "wp (wallet_get_by_user_id db user) (\<lambda>r w'. r = None \<and> durable V w' = durable V w) (\<lambda>_ _. False) w"
proof -
  have sn: "snapshots_ok V w" using s by (simp add: synced_def)
  show ?thesis
    unfolding wallet_get_by_user_id_def
  proof (rule wp_mono [OF wp_returns [OF session_upD(1) [OF up synced_clean [OF s] ok] wp_select_wallet [OF law sn]]], goal_cases)
    case (1 r w')
    then have u: "unchanged V alone w w'" and r: "case r of None \<Rightarrow> True | Some k \<Rightarrow> \<exists>x. wallets (view V w) k = Some x \<and> w_user_id x = user"
      by (auto split: option.splits)
    from u have "durable V w' = durable V w" unfolding unchanged_def alone_def by metis
    with r no show ?case by (auto split: option.splits)
  qed
qed

lemma up_handle_refusal:
  assumes law: "lawful_session db V alone" and rb: "rollback_up db" and keep: "session_keeps_redis db K"
    and d: "d \<noteq> OptimisticLockException" and t: "durable V w = t"
  shows "wp (handle_payment_error db req n continue (Domain d)) (\<lambda>_ _. False) (refuses V d t) w"
proof -
  have other: "Domain d \<noteq> Library IntegrityError" "Domain d \<noteq> Domain OptimisticLockException" using d by simp_all
  have "returns (rollback_tx db) w" using rb by (simp add: rollback_up_def)
  from wp_returns [OF this wp_rollback [OF law keep]] show ?thesis
    unfolding handle_other [OF other] wp_bind wp_raise by (rule wp_mono) (simp_all add: alone_def t)
qed

lemma up_short_attempt:
  assumes law: "lawful_session db V alone" and up: "session_up db V"
    and s: "synced V w" and ok: "valid_db (view V w)"
    and l: "loaded_wallet V w a = Some xa" "loaded_wallet V w b = Some xb" and ab: "a \<noteq> b"
    and amt: "whole_cents (pr_amount req)" and short: "cents (w_balance xa) < cents (pr_amount req)"
  shows "wp (attempt_payment cdc db a b req rc) (\<lambda>_ _. False)
    (refuses V (InsufficientBalanceException (dec_str (w_balance xa)) (dec_str (pr_amount req))) (durable V w)) w"
proof -
  have sn: "snapshots_ok V w" and x: "wallets (view V w) a = Some xa" "wallets (view V w) b = Some xb"
    using s l by (auto simp: synced_def)
  have id: "w_id xa = a" "w_id xb = b" using snapshot_row [OF sn l(1)] snapshot_row [OF sn l(2)] by simp_all
  have "wp (execute_transfer db a b (pr_amount req) cur key desc) (\<lambda>_ _. False)
    (refuses V (InsufficientBalanceException (dec_str (w_balance xa)) (dec_str (pr_amount req))) (durable V w)) w" for cur key desc
    unfolding execute_transfer_def
  proof (subst wp_bind, rule wp_mono [OF up_lock_wallets [OF law up s ok x]], goal_cases)
    case (1 p w1)
    then have p: "p = (a, b)" and st: "steady V w w1" and l1: "loaded_wallet V w1 a = Some xa" "loaded_wallet V w1 b = Some xb"
      and L: "{a, b} \<subseteq> locked V w1" by simp_all
    have sn1: "snapshots_ok V w1" using steadyD(3) [OF st] by (simp add: synced_def)
    have lk: "locked_both V a b w1" using L l1 by (simp add: locked_both_def)
    show ?case
      unfolding p prod.case
      by (subst wp_bind, rule wp_mono [OF wp_move_money_check [OF law sn1 lk ab amt l1(1)]])
        (use short steadyD(2) [OF st] in auto)
  qed simp
  note transfer = this
  show ?thesis
    unfolding attempt_payment_def wp_bind wp_wallet_attrs [OF law] l option.case id
    by (rule wp_mono [OF transfer]) simp_all
qed

lemma up_refuse_uncached:
  assumes law: "lawful_session db V alone" and up: "session_up db V" and rb: "rollback_up db"
    and keep: "session_keeps_redis db K" and s: "synced V w" and ok: "valid_db (view V w)" and same: "view V w = durable V w"
    and new: "\<forall>j x. txns (durable V w) j = Some x \<longrightarrow> t_idempotency_key x \<noteq> pr_idempotency_key req"
    and amt: "whole_cents (pr_amount req)" and why: "refusal user req (durable V w) d"
  shows "wp (send_uncached cdc db user req rc) (\<lambda>_ _. False) (refuses V d (durable V w)) w"
proof -
  let ?E = "refuses V d (durable V w)"
  note ids = valid_db_rows(2) [OF ok, unfolded wallet_ok_def]
  have receiver: "wp (wallet_get_by_user_id db u) (\<lambda>r w'. r = None \<and> durable V w' = durable V w) (\<lambda>_ _. False) w'"
    if "steady V w w'" "\<forall>k x. wallets (durable V w) k = Some x \<longrightarrow> w_user_id x \<noteq> u" for w' u
  proof -
    note v = steadyD(1,2) [OF that(1)]
    from up_no_wallet [OF law up steadyD(3) [OF that(1)]] ok that(2) same show ?thesis by (simp add: v)
  qed
  have known: "wp (wallet_get_by_user_id db (w_user_id x))
      (\<lambda>r w2. r = Some (w_id x) \<and> steady V w w2 \<and> steady V w' w2 \<and> loaded_wallet V w2 (w_id x) = Some x) (\<lambda>_ _. False) w'"
    if st: "steady V w w'" and x: "wallets (durable V w) (w_id x) = Some x" for w' x
  proof -
    note v = steadyD(1,2) [OF st]
    have "valid_db (view V w')" "wallets (view V w') (w_id x) = Some x" using ok x same by (simp_all add: v)
    from up_wallets(1) [OF law up steadyD(3) [OF st] this] show ?thesis
      by (rule wp_mono) (use steady_trans [OF st] in auto)
  qed
  show ?thesis
    unfolding send_uncached_def
  proof (subst wp_bind, rule wp_mono [OF up_new_key [OF law up s ok]], goal_cases)
    case (2 r w1)
    then have r: "r = None" and s1: "steady V w w1" by simp_all
    show ?case
      using why
    proof (cases rule: refusal.cases)
      case (no_wallet u)
      have sender: ?thesis if "\<forall>k x. wallets (durable V w) k = Some x \<longrightarrow> w_user_id x \<noteq> user"
        unfolding r option.case wp_bind
        by (rule wp_mono [OF receiver [OF s1 that]]) (use no_wallet steadyD(2) [OF s1] in \<open>simp_all add: wp_simps\<close>)
      show ?thesis
      proof (cases "\<forall>k x. wallets (durable V w) k = Some x \<longrightarrow> w_user_id x \<noteq> user")
        case False
        then obtain k x where x: "wallets (durable V w) k = Some x" "w_user_id x = user" by blast
        with no_wallet have u: "\<forall>k x. wallets (durable V w) k = Some x \<longrightarrow> w_user_id x \<noteq> pr_receiver_id req" by blast
        have "wallets (durable V w) (w_id x) = Some x" using ids [of k x] x same by simp
        from known [OF s1 this, unfolded x(2)] show ?thesis
          unfolding r option.case wp_bind
        proof (rule wp_mono, goal_cases)
          case (1 q w2)
          then have st: "steady V w w2" and q: "q = Some (w_id x)" by simp_all
          show ?case
            unfolding q option.case wp_bind
            by (rule wp_mono [OF receiver [OF st u]]) (use no_wallet steadyD(2) [OF st] in \<open>simp_all add: wp_simps\<close>)
        qed simp
      qed (rule sender)
    next
      case (same_wallet x)
      show ?thesis
        unfolding r option.case wp_bind
      proof (rule wp_mono [OF known [OF s1 same_wallet(2), unfolded same_wallet(3)]], goal_cases)
        case (1 q w2)
        then have st: "steady V w w2" and q: "q = Some (w_id x)" by simp_all
        show ?case
          unfolding q option.case wp_bind same_wallet(4)
          by (rule wp_mono [OF known [OF st same_wallet(2), unfolded same_wallet(3)]])
            (use same_wallet(1) steadyD(2) in \<open>auto simp: wp_simps wp_wallet_attrs [OF law]\<close>)
      qed simp
    next
      case (short_balance x y)
      show ?thesis
        unfolding r option.case wp_bind
      proof (rule wp_mono [OF known [OF s1 short_balance(2), unfolded short_balance(3)]], goal_cases)
        case (1 q w2)
        then have s2: "steady V w w2" and q: "q = Some (w_id x)" and l2: "loaded_wallet V w2 (w_id x) = Some x" by simp_all
        show ?case
          unfolding q option.case wp_bind
        proof (rule wp_mono [OF known [OF s2 short_balance(4), unfolded short_balance(5)]], goal_cases)
          case (1 q w3)
          then have s3: "steady V w w3" and q: "q = Some (w_id y)" and l3: "loaded_wallet V w3 (w_id y) = Some y"
            "loaded_wallet V w3 (w_id x) = Some x" using steadyD(4) [OF _ l2] by simp_all
          note v3 = steadyD(1,2) [OF s3]
          have ok3: "valid_db (view V w3)" using ok by (simp add: v3)
          have tries: "[1..<MAX_RETRY_ATTEMPTS + 1] = 1 # [2..<MAX_RETRY_ATTEMPTS + 1]"
            by (simp add: MAX_RETRY_ATTEMPTS_def upt_rec)
          have "wp (payment_loop cdc db (w_id x) (w_id y) req rc (1 # ns) le) (\<lambda>_ _. False) ?E w3" for ns le
            unfolding payment_loop.simps wp_catch
            by (rule wp_mono [OF up_short_attempt [OF law up steadyD(3) [OF s3] ok3 l3(2,1) short_balance(6) amt short_balance(7)]])
              (use v3 short_balance(1) in \<open>auto intro!: up_handle_refusal [OF law rb keep]\<close>)
          then show ?case
            using short_balance(6) unfolding q option.case wp_bind wp_wallet_attrs [OF law] l3 tries
            by (simp del: payment_loop.simps)
        qed simp
      qed simp
    qed
  qed (use new same in simp_all)
qed

lemma unfunded_payment_raises:
  assumes law: "lawful_session db V alone" and up: "session_up db V" and rb: "rollback_up db"
    and cl: "client_ok rc K V alone" and keep: "session_keeps_redis db K" and cdc: "lawful_codec cdc"
    and fresh: "fresh_session V w" and cs: "cache_sound cdc K V w" and ok: "valid_db (durable V w)"
    and new: "\<forall>j x. txns (durable V w) j = Some x \<longrightarrow> t_idempotency_key x \<noteq> pr_idempotency_key req"
    and val: "payment_request_valid req" and why: "refusal user req (durable V w) d"
  shows "wp (send_money cdc db user req rc) (\<lambda>_ _. False) (refuses V d (durable V w)) w"
proof -
  have amt: "whole_cents (pr_amount req)" using val money_field_cents by (simp add: payment_request_valid_def)
  have same: "view V w = durable V w" and none: "loaded_wallet V w = Map.empty" "loaded_txn V w = Map.empty" "\<not> dirty V w"
    using fresh by (simp_all add: fresh_session_def)
  show ?thesis
    unfolding send_money_def
  proof (subst wp_bind, rule wp_mono [OF wp_check_key [OF cl lawful_rely [OF law] cdc cs]], goal_cases)
    case (1 r w1)
    then have q: "db_quiet V alone w w1" by simp
    have d: "durable V w1 = durable V w" "view V w1 = durable V w"
      using db_quietD(1,2) [OF q] same by (simp_all add: alone_def)
    have s: "synced V w1"
      using none db_quietD(4,5,6) [OF q] by (simp add: synced_def snapshots_ok_def)
    from up_refuse_uncached [OF law up rb keep s] 1 new ok amt why show ?case
      by (auto simp: d)
  qed simp
qed

section \<open>A top-up that has to succeed\<close>

text \<open>No answer of Redis is needed for it.\<close>

lemma up_finish_top_up:
  assumes law: "lawful_session db V alone" and up: "session_up db V" and cl: "client_ok rc K V alone"
    and clean: "\<not> dirty V w" and h: "holds V k w" and z: "w_id z = k" and t: "durable V w = t" "view V w = put_wallet z t"
  shows "wp (finish_top_up db k rc)
    (\<lambda>resp w'. durable V w' = put_wallet z t \<and> resp = wallet_response_of z) (\<lambda>_ _. False) w"
proof -
  have "returns (commit_tx db) w" by (rule session_upD(5) [OF up clean]) (simp_all add: t)
  note C = wp_returns [OF this lawful_laws(8) [OF law, unfolded law_commit_def, rule_format, OF clean]]
  show ?thesis
    unfolding finish_top_up_def
  proof (subst wp_bind, rule wp_mono [OF C], goal_cases)
    case (1 u w2)
    then have v2: "view V w2 = put_wallet z t" "durable V w2 = put_wallet z t" and c2: "\<not> dirty V w2" and h2: "holds V k w2"
      using h t by (auto simp: alone_def same_objects_def holds_def)
    show ?case
    proof (subst wp_bind, rule wp_mono [OF wp_forget_wallet [OF law cl h2]], goal_cases)
      case (1 u w3)
      then have q: "db_quiet V alone w2 w3" by simp
      have c3: "\<not> dirty V w3" and v3: "view V w3 = put_wallet z t" "durable V w3 = put_wallet z t"
        using c2 v2 db_quietD(1,2,4) [OF q] by (simp_all add: alone_def)
      have "returns (refresh_wallet db k) w3" by (rule session_upD(7) [OF up c3]) (simp add: v3 z [symmetric])
      note F = wp_returns [OF this lawful_laws(10) [OF law, unfolded law_refresh_def, rule_format, OF c3, THEN conjunct1]]
      show ?case
        unfolding wp_bind
        by (rule wp_mono [OF F]) (auto simp: wp_wallet_attrs [OF law] wp_simps tx_step_def alone_def v3 z [symmetric])
    qed simp
  qed simp
qed

lemma funded_top_up_returns:
  assumes law: "lawful_session db V alone" and up: "session_up db V" and cl: "client_ok rc K V alone"
    and fresh: "fresh_session V w" and ok: "valid_db (durable V w)"
    and x: "wallets (durable V w) (w_id x) = Some x" "w_user_id x = user"
    and amt: "whole_cents amount" "0 \<le> cents amount" "cents (w_balance x) + cents amount < 10 ^ 18"
  shows "wp (top_up db user amount rc)
    (\<lambda>resp w'. \<exists>b ts. numeric_column b \<and> cents b = cents (w_balance x) + cents amount \<and>
       durable V w' = put_wallet (rebalance b (w_version x + 1) ts x) (durable V w) \<and>
       resp = wallet_response_of (rebalance b (w_version x + 1) ts x)) (\<lambda>_ _. False) w"
proof -
  have s: "synced V w" and same: "view V w = durable V w"
    using fresh snapshots_ok_fresh [OF fresh] by (simp_all add: synced_def fresh_session_def)
  then have okv: "valid_db (view V w)" and xv: "wallets (view V w) (w_id x) = Some x" using ok x by simp_all
  note rng = wallet_range [OF ok x(1)]
  have col: "numeric_column (w_balance x)" using valid_db_rows(2) [OF ok x(1)] by (simp add: wallet_ok_def)
  have add: "whole_cents (dec_add (w_balance x) amount) \<and> cents (dec_add (w_balance x) amount) = cents (w_balance x) + cents amount"
    by (rule dec_add_small) (use column_exact [OF col] amt rng in auto)
  have loop: "wp (top_up_loop db user amount rc (n # ns))
    (\<lambda>resp w'. \<exists>b ts. numeric_column b \<and> cents b = cents (w_balance x) + cents amount \<and>
       durable V w' = put_wallet (rebalance b (w_version x + 1) ts x) (durable V w) \<and>
       resp = wallet_response_of (rebalance b (w_version x + 1) ts x)) (\<lambda>_ _. False) w" for n ns
    unfolding top_up_loop.simps
  proof (subst wp_bind, rule wp_mono [OF up_wallets(1) [OF law up s okv xv, unfolded x(2)]], goal_cases)
    case (1 r w1)
    then have r: "r = Some (w_id x)" and st: "steady V w w1" and l: "loaded_wallet V w1 (w_id x) = Some x" by simp_all
    note v1 = steadyD(1,2) [OF st]
    have sn: "snapshots_ok V w1" using steadyD(3) [OF st] by (simp add: synced_def)
    have xv1: "wallets (view V w1) (w_id x) = Some x" using xv by (simp add: v1)
    show ?case
      unfolding r option.case wp_bind wp_wallet_attrs [OF law] l Let_def
    proof (rule wp_mono [OF wp_conj [OF up_update_balance [OF law up sn l xv1, of "dec_add (w_balance x) amount"]
          wp_update_balance [OF law sn l]]], goal_cases)
      case (4 updated w2)
      then obtain b ts where b: "numeric_18_2 (dec_add (w_balance x) amount) b"
        and wr: "wrote V alone (rebalance b (w_version x + 1) ts x) w1 w2" and updated by (auto simp: xv1)
      have bal: "cents b = cents (w_balance x) + cents amount" "numeric_column b"
        using numeric_18_2_add [OF _ amt(1) _ b] column_exact [OF col] b
        by (simp_all add: numeric_18_2_def numeric_column_def)
      have w2: "durable V w2 = durable V w" "view V w2 = put_wallet (rebalance b (w_version x + 1) ts x) (durable V w)"
        "snapshots_ok V w2" "loaded_wallet V w2 (w_id x) \<noteq> None"
        using wr l v1 same unfolding wrote_def alone_def rebalance_simps by (metis option.distinct(1))+
      have "holds V (w_id x) w2" "\<not> dirty V w2" using holds_snapshot [OF w2(3,4)] snapshots_clean [OF w2(3)] by simp_all
      then have "wp (finish_top_up db (w_id x) rc)
          (\<lambda>resp w'. durable V w' = put_wallet (rebalance b (w_version x + 1) ts x) (durable V w) \<and>
             resp = wallet_response_of (rebalance b (w_version x + 1) ts x)) (\<lambda>_ _. False) w2"
        by (intro up_finish_top_up [OF law up cl _ _ _ w2(1,2)]) simp_all
      then show ?case
        using bal \<open>updated\<close> by (simp add: wp_if) (rule wp_mono, assumption, blast+)
    qed (use add amt rng in simp_all)
  qed simp
  have "[1..<MAX_TOPUP_RETRIES + 1] = 1 # [2..<MAX_TOPUP_RETRIES + 1]"
    by (simp add: MAX_TOPUP_RETRIES_def upt_rec)
  then show ?thesis unfolding top_up_def by (simp only: loop)
qed

section \<open>The two routes\<close>

text \<open>
  An endpoint that returns, or refuses without an effect: the client gets its response, or a status of the
  refusals \<open>S\<close>.
\<close>

lemma wp_app_answers:
  assumes d: "lawful_deps d V K R"
    and ep: "\<And>w1. obs_stores V K w1 = obs_stores V K w \<Longrightarrow>
      wp (endpoint d request c) (\<lambda>r w'. rs_status r = s \<and> P (rs_body r) (durable V w'))
        (\<lambda>e w'. e \<in> refusals \<and> durable V w' = durable V w) w1"
    and S: "\<And>e rid. e \<in> refusals \<Longrightarrow> (\<forall>l. e \<noteq> Library l) \<and> er_status (handle_exception rid e) \<in> S"
  shows "wp (app d request c)
    (\<lambda>resp w'. rs_status resp = s \<and> P (rs_body resp) (durable V w') \<or>
       rs_status resp \<in> S \<and> durable V w' = durable V w) (\<lambda>_ _. False) w"
proof -
  have same: "durable V w2 = durable V w1" if "obs_stores V K w2 = obs_stores V K w1" for w1 w2
    using that by (blast dest: obs_storesD(1) obs_dbD(2))
  show ?thesis
    unfolding app_def
  proof (rule wp_mono [OF wp_serve_world [OF lawful_depsD(7) [OF d] ep]], goal_cases)
    case (4 resp w')
    then show ?case using S unfolding answers_def by (auto simp: json_response_def)
  qed (auto dest: same)
qed

lemma stores_same:
  assumes "obs_stores V K w' = obs_stores V K w"
  shows "fresh_session V w \<Longrightarrow> fresh_session V w'" and "durable V w' = durable V w"
    and "cache_sound cdc K V w \<Longrightarrow> cache_sound cdc K V w'"
  using fresh_obs [OF obs_storesD(1) [OF assms]] obs_dbD(2) [OF obs_storesD(1) [OF assms]]
    cache_sound_cong [OF _ obs_storesD(2) [OF assms]]
  by simp_all

lemma wp_token_user:
  assumes "lawful_security sec (obs_stores V K)" and "rq_bearer request = Inr (login_token sec st issued u)"
    and "\<And>w1. obs_stores V K w1 = obs_stores V K w \<Longrightarrow> Q u w1"
    and "\<And>w1. durable V w1 = durable V w \<Longrightarrow> E expired_token w1"
  shows "wp (current_user sec st request) Q E w"
proof (rule wp_mono [OF wp_current_user [OF assms(1,2)]], goal_cases)
  case (1 v w1)
  then show ?case using assms(3) by simp
next
  case (2 e w1)
  then have "obs_stores V K w1 = obs_stores V K w" by simp
  from assms(4) [OF stores_same(2) [OF this]] 2 show ?case by simp
qed

lemma up_send_exchange:
  assumes d: "lawful_deps d V K alone" and up: "session_up (dp_db d) V" "redis_up (dp_redis d)"
    and fresh: "fresh_session V w" and cs: "cache_sound (dp_codec d) K V w" and ok: "valid_db (durable V w)"
    and tok: "rq_bearer request = Inr (login_token (dp_security d) (dp_settings d) issued u)"
    and val: "payment_request_valid req" and pay: "payable u req a b (durable V w)"
  shows "wp (app d request (Payments_send (Inr req)))
    (\<lambda>resp w'. rs_status resp = 201 \<and> (\<exists>y. rs_body resp = dump_txn (dp_codec d) (transaction_response_of y) \<and>
         transfers a b (pr_amount req) (pr_currency req) (pr_idempotency_key req) (pr_description req)
           (durable V w) y (durable V w')) \<or>
       rs_status resp \<in> {401, 429} \<and> durable V w' = durable V w) (\<lambda>_ _. False) w"
proof (rule wp_app_answers [OF d, where refusals = "{expired_token, limit_exceeded payment_rate_limit}"], goal_cases)
  case (1 w1)
  note L = lawful_depsD [OF d]
  note R = lawful_rely [OF L(1)]
  note f1 = stores_same(1) [OF 1 fresh] and d1 = stores_same(2) [OF 1] and cs1 = stores_same(3) [OF 1 cs]
  show ?case
    unfolding endpoint.simps respond_def post_payments_send_def wp_bind wp_return
  proof (rule wp_mono [OF wp_rate_limit_spares [OF L(2,3) R]], goal_cases)
    case (1 u' w2)
    then have q: "db_quiet V alone w1 w2" and sp: "spares_keys K w1 w2" by simp_all
    have d2: "durable V w2 = durable V w" using db_quietD(1) [OF q] d1 by (simp add: alone_def)
    have f2: "fresh_session V w2" by (rule fresh_quiet [OF q f1])
    have cs2: "cache_sound (dp_codec d) K V w2" by (rule cache_sound_spares [OF R cs1 db_quietD(1) [OF q] sp])
    show ?case
    proof (rule wp_token_user [OF L(6) tok], goal_cases)
      case (1 w3)
      note f3 = stores_same(1) [OF 1 f2] and d3 = trans [OF stores_same(2) [OF 1] d2] and cs3 = stores_same(3) [OF 1 cs2]
      have "client_ok (Some (dp_redis d)) K V alone" "client_up (Some (dp_redis d))"
        using L(2,3) up(2) by (simp_all add: client_up_def)
      from funded_payment_returns [OF L(1) up(1) this L(4,5) f3 cs3 ok [folded d3] val pay [folded d3]] show ?case
        unfolding wp_valid_body sum.case d3 by (rule wp_mono) auto
    qed (auto simp: d2)
  qed (use d1 in \<open>auto dest: db_quietD(1) simp: alone_def\<close>)
qed (auto simp: expired_token_def limit_exceeded_def http_exception_handler_def)

lemma up_top_up_exchange:
  assumes d: "lawful_deps d V K alone" and up: "session_up (dp_db d) V"
    and fresh: "fresh_session V w" and ok: "valid_db (durable V w)"
    and tok: "rq_bearer request = Inr (login_token (dp_security d) (dp_settings d) issued u)"
    and val: "wallet_top_up_valid data" and x: "wallets (durable V w) (w_id x) = Some x" "w_user_id x = u"
    and fits: "cents (w_balance x) + cents (tu_amount data) < 10 ^ 18"
  shows "wp (app d request (Wallets_top_up (Inr data)))
    (\<lambda>resp w'. rs_status resp = 200 \<and>
         (\<exists>b ts. numeric_column b \<and> cents b = cents (w_balance x) + cents (tu_amount data) \<and>
            durable V w' = put_wallet (rebalance b (w_version x + 1) ts x) (durable V w) \<and>
            rs_body resp = dump_wallet (dp_renderer d) (wallet_response_of (rebalance b (w_version x + 1) ts x))) \<or>
       rs_status resp \<in> {401} \<and> durable V w' = durable V w) (\<lambda>_ _. False) w"
proof (rule wp_app_answers [OF d, where refusals = "{expired_token}"], goal_cases)
  case (1 w1)
  note L = lawful_depsD [OF d]
  note d1 = stores_same(2) [OF 1]
  have amt: "whole_cents (tu_amount data)" "0 \<le> cents (tu_amount data)"
    using val money_field_cents [of "tu_amount data"] by (simp_all add: wallet_top_up_valid_def)
  have cl: "client_ok (Some (dp_redis d)) K V alone" using L(2,3) by simp
  show ?case
    unfolding endpoint.simps respond_def post_wallets_top_up_def wp_bind wp_return
  proof (rule wp_token_user [OF L(6) tok], goal_cases)
    case (1 w2)
    note f2 = stores_same(1) [OF 1 stores_same(1) [OF \<open>obs_stores V K w1 = obs_stores V K w\<close> fresh]]
      and d2 = trans [OF stores_same(2) [OF 1] d1]
    from funded_top_up_returns [OF L(1) up cl f2 ok [folded d2] x [folded d2] amt fits] show ?case
      unfolding wp_valid_body sum.case d2 by (rule wp_mono) auto
  qed (simp add: d1)
qed (auto simp: expired_token_def http_exception_handler_def)

end
