(* ===== verification/Cache_Race.thy ===== *)
theory Cache_Race
  imports Deployment
begin

text \<open>
  How a cached balance becomes stale with every call successful: the wallet view reads the row, finds nothing
  in the cache, and stores what it read; a top-up that commits and invalidates in between has invalidated too
  early. A schedule of two requests, within the laws of the stores and the relation \<open>others\<close>, shows it. The last section
  shows that this reaches the views only: no payment and no top-up depends on a cached value of a wallet.
\<close>

section \<open>The top-up of the other session\<close>

definition bob_row :: wallet where "bob_row = demo_wallet bob_wallet bob 500"
definition bob_topped :: wallet where "bob_topped = rebalance (Dec 600 (- 2)) 2 1000 bob_row"

definition topped_rows :: rows where
  "topped_rows = apply_write (W_wallet bob_topped) demo_rows"

lemma bob_rows:
  "rows_where (wallet_matches (Wallet_user_id bob)) (r_wallets demo_rows) = [(bob_wallet, bob_row)]"
  "rows_where (wallet_matches (Wallet_user_id bob)) (r_wallets topped_rows) = [(bob_wallet, bob_topped)]"
  "map_of (r_wallets demo_rows) bob_wallet = Some bob_row" "map_of (r_wallets topped_rows) bob_wallet = Some bob_topped"
  by (simp_all add: topped_rows_def bob_topped_def bob_row_def demo_defs apply_write.simps)

lemma bob_columns [simp]:
  "w_id bob_row = bob_wallet" "w_balance bob_row = Dec 500 (- 2)" "w_version bob_row = 1"
  "w_id bob_topped = bob_wallet" "w_balance bob_topped = Dec 600 (- 2)" "w_version bob_topped = 2"
  by (simp_all add: bob_topped_def bob_row_def demo_wallet_def)

text \<open>What the session does with Bob's row, whatever else its state is.\<close>

lemma select_bob:
  assumes "m_base m = demo_rows \<and> x = bob_row \<or> m_base m = topped_rows \<and> x = bob_topped" and "m_pend m = []" and "m_wallets m = []"
  shows "wallet_get_by_user_id mem_session bob m = (Inr (Some bob_wallet), m\<lparr>m_wallets := [(bob_wallet, x)]\<rparr>)"
  using assms by (auto simp: wallet_get_by_user_id_def mem_session_def seen_def bob_rows numeric_column_def load_row_def)

lemma attrs_bob: "map_of (m_wallets m) bob_wallet = Some x \<Longrightarrow> wallet_attrs mem_session bob_wallet m = (Inr x, m)"
  by (simp add: mem_session_def mem_attrs_def)

text \<open>Bob's deposit of 1.00 commits exactly these rows and leaves no key.\<close>

lemma topped_by_top_up:
  "m_base (snd (top_up mem_session bob (Dec 100 (- 2)) (Some (mem_redis True)) demo)) = topped_rows"
  "m_keys (snd (top_up mem_session bob (Dec 100 (- 2)) (Some (mem_redis True)) demo)) = []"
proof -
  let ?m = "demo\<lparr>m_wallets := [(bob_wallet, bob_row)]\<rparr>"
  have sel: "wallet_get_by_user_id mem_session bob demo = (Inr (Some bob_wallet), ?m)"
    by (rule select_bob) (simp_all add: demo_def)
  have sum: "dec_add (Dec 500 (- 2)) (Dec 100 (- 2)) = Dec 600 (- 2)" by code_simp
  have upd: "update_wallet mem_session bob_wallet 1 (Dec 600 (- 2)) 2 ?m =
      (Inr 1, ?m\<lparr>m_pend := [W_wallet bob_topped], m_locks := [bob_wallet], m_wallets := [(bob_wallet, bob_topped), (bob_wallet, bob_row)]\<rparr>)"
    by (simp add: mem_session_def mem_update_wallet_def seen_def demo_def bob_rows whole_cents_def cents_def bob_topped_def Let_def)
  have "keeps_rows demo_rows topped_rows"
    by (simp add: keeps_rows_def topped_rows_def apply_write.simps demo_rows_def)
  then show "m_base (snd (top_up mem_session bob (Dec 100 (- 2)) (Some (mem_redis True)) demo)) = topped_rows"
    "m_keys (snd (top_up mem_session bob (Dec 100 (- 2)) (Some (mem_redis True)) demo)) = []"
    by (simp_all add: top_up_def MAX_TOPUP_RETRIES_def upt_rec py_bind_def sel attrs_bob sum wallet_update_balance_def upd
        py_return_def finish_top_up_def) (simp_all add: mem_session_def mem_commit_def seen_def demo_def topped_rows_def mem_attrs_def
        invalidate_balance_def invalidate_wallet_info_def py_catch_def mem_redis_def mem_command_def mem_drop_def
        mem_refresh_wallet_def py_bind_def py_return_def bob_rows(4) [unfolded topped_rows_def])
qed

section \<open>The race\<close>

text \<open>The server, with that request served while it answers a \<open>GET\<close> of ours.\<close>

definition racing :: "mem redis" where
  "racing = (mem_redis True)
     \<lparr>redis_get := \<lambda>k m. if m_base m = demo_rows \<and> m_pend m = [] \<and> m_locks m = []
        then (Inr (live mem_kv m k), m\<lparr>m_base := topped_rows\<rparr>) else redis_get (mem_redis True) k m\<rparr>"

lemma racing_simps [simp]:
  "redis_setex racing = redis_setex (mem_redis True)" "redis_delete racing = redis_delete (mem_redis True)"
  "redis_incr racing = redis_incr (mem_redis True)" "redis_expire racing = redis_expire (mem_redis True)"
  "redis_pipeline_delete racing = redis_pipeline_delete (mem_redis True)" "redis_ping racing = redis_ping (mem_redis True)"
  by (simp_all add: racing_def)

text \<open>It keeps to the laws: its keys are those of a server, and what the database meets is a step of another session.\<close>

lemma racing_get:
  "wp (redis_get racing k) (\<lambda>r w'. r = live mem_kv w k \<and> entries mem_kv w' = entries mem_kv w \<and> clock mem_kv w' = clock mem_kv w \<and>
      db_quiet mem_absn others w w') (\<lambda>_ _. False) w"
proof (cases "m_base w = demo_rows \<and> m_pend w = [] \<and> m_locks w = []")
  case True
  have "others {} (tables_of demo_rows) (tables_of topped_rows)"
    using ledger_step.top_up [of "tables_of demo_rows" bob_wallet bob_row "{}" "Dec 600 (- 2)" 1000]
    by (intro others_step) (simp add: bob_rows numeric_column_def cents_def topped_rows_def bob_topped_def)
  with True show ?thesis
    by (simp add: racing_def wp_def mem_kv_def db_quiet_def tx_step_def same_objects_def seen_def)
next
  case False
  then have "redis_get racing k w = redis_get (mem_redis True) k w" by (auto simp: racing_def)
  then have "redis_get racing k w = (Inr (live mem_kv w k), w)" by (simp add: mem_redis_def mem_command_def)
  then show ?thesis by (simp add: wp_def mem_ledger.keys_quiet)
qed

lemma lawful_racing: "client_ok (Some racing) mem_kv mem_absn others"
proof -
  have get: "wp (redis_get racing k) (\<lambda>v w'. kv_same mem_kv w w' \<and> v = fetched mem_kv w w' k)
      (\<lambda>e. kv_failed mem_kv (\<lambda>_. entries mem_kv w) e w) w" for k w
    by (rule wp_mono [OF racing_get]) (simp_all add: mem_kv_step fetched_exclusive [OF mem_exclusive] live_def)
  have "lawful_redis racing mem_kv"
    unfolding lawful_redis_def racing_simps
    by (intro conjI allI) (rule get redis_laws(2-7) [OF lawful_mem_redis])+
  moreover have quiet: "db_quiet mem_absn others w (snd (redis_get racing k w))" for k w
    using racing_get [of k w] by (auto simp: wp_def split: prod.splits sum.splits)
  have "redis_keeps_db racing mem_absn others"
    using mem_ledger.redis_apart [of True] quiet unfolding redis_keeps_db_def racing_simps by simp
  ultimately show ?thesis by (simp add: client_ok_def)
qed

text \<open>The two requests: Bob looks at his wallet while the deposit is made. Both are answered.\<close>

definition race_end :: mem where
  "race_end = snd (get_wallet mem_session bob (Some racing) demo)"

lemma race:
  "get_wallet mem_session bob (Some racing) demo = (Inr (wallet_response_of bob_row), race_end)"
  "race_end = demo\<lparr>m_base := topped_rows, m_wallets := [(bob_wallet, bob_row)],
     m_keys := [(key_balance bob_wallet, (dec_str (Dec 500 (- 2)), Some (1000 + TTL_BALANCE)))]\<rparr>"
proof -
  have "wallet_get_by_user_id mem_session bob demo = (Inr (Some bob_wallet), demo\<lparr>m_wallets := [(bob_wallet, bob_row)]\<rparr>)"
    by (rule select_bob) (simp_all add: demo_def)
  then have "get_wallet mem_session bob (Some racing) demo =
      (Inr (wallet_response_of bob_row), demo\<lparr>m_base := topped_rows, m_wallets := [(bob_wallet, bob_row)],
        m_keys := [(key_balance bob_wallet, (dec_str (Dec 500 (- 2)), Some (1000 + TTL_BALANCE)))]\<rparr>)"
    by (simp add: get_wallet_def py_bind_def attrs_bob get_balance_def py_catch_def racing_def live_def demo_def py_return_def
        set_balance_def mem_redis_def mem_command_def mem_kv_def)
  then show "get_wallet mem_session bob (Some racing) demo = (Inr (wallet_response_of bob_row), race_end)"
    "race_end = demo\<lparr>m_base := topped_rows, m_wallets := [(bob_wallet, bob_row)],
     m_keys := [(key_balance bob_wallet, (dec_str (Dec 500 (- 2)), Some (1000 + TTL_BALANCE)))]\<rparr>"
    by (simp_all add: race_end_def)
qed

text \<open>
  From then on, until the lifetime of the entry is over, every view of the wallet shows 5.00 where the
  database has 6.00, and reading does not mend it.
\<close>

lemma stale_balance_is_served:
  assumes "0 \<le> secs" and "secs < TTL_BALANCE"
  defines "m \<equiv> (mem_reopen race_end)\<lparr>m_now := 1000 + secs\<rparr>"
  shows "wallets (durable mem_absn m) bob_wallet = Some bob_topped \<and> w_balance bob_topped = Dec 600 (- 2)"
    and "fst (get_wallet mem_session bob (Some (mem_redis True)) m) = Inr (wallet_response_of (bob_topped\<lparr>w_balance := Dec 500 (- 2)\<rparr>))"
    and "m_keys (snd (get_wallet mem_session bob (Some (mem_redis True)) m)) = m_keys m"
proof -
  let ?m = "m\<lparr>m_wallets := [(bob_wallet, bob_topped)]\<rparr>"
  have sel: "wallet_get_by_user_id mem_session bob m = (Inr (Some bob_wallet), ?m)"
    by (rule select_bob) (simp_all add: m_def mem_reopen_def race(2))
  have hit: "get_balance (mem_redis True) bob_wallet ?m = (Inr (Some (Dec 500 (- 2))), ?m)"
    using assms(2) by (simp add: get_balance_def py_catch_def py_bind_def mem_redis_def mem_command_def live_def mem_kv_def m_def
        mem_reopen_def race(2) live_entry_some dec_parse_str py_return_def)
  show "wallets (durable mem_absn m) bob_wallet = Some bob_topped \<and> w_balance bob_topped = Dec 600 (- 2)"
    by (simp add: m_def mem_reopen_def race(2) bob_rows)
  have "get_wallet mem_session bob (Some (mem_redis True)) m = (Inr (wallet_response_of (bob_topped\<lparr>w_balance := Dec 500 (- 2)\<rparr>)),
      ?m\<lparr>m_wallets := [(bob_wallet, bob_topped\<lparr>w_balance := Dec 500 (- 2)\<rparr>), (bob_wallet, bob_topped)], m_dirty := True\<rparr>)"
    by (simp add: get_wallet_def py_bind_def sel attrs_bob hit py_return_def) (simp add: mem_session_def mem_set_balance_def
        mem_attrs_def py_bind_def py_return_def)
  then show "fst (get_wallet mem_session bob (Some (mem_redis True)) m) = Inr (wallet_response_of (bob_topped\<lparr>w_balance := Dec 500 (- 2)\<rparr>))"
    "m_keys (snd (get_wallet mem_session bob (Some (mem_redis True)) m)) = m_keys m"
    by simp_all
qed

section \<open>What it cannot do\<close>

text \<open>A server that gives other answers for everything cached of wallets.\<close>

definition other_balances :: "(string \<Rightarrow> ('w, string option) io) \<Rightarrow> 'w redis \<Rightarrow> 'w redis" where
  "other_balances ans rd = rd\<lparr>redis_get := \<lambda>k. if take 7 k = ''wallet:'' then ans k else redis_get rd k\<rparr>"

lemma other_balances_simps [simp]:
  "redis_setex (other_balances ans rd) = redis_setex rd" "redis_delete (other_balances ans rd) = redis_delete rd"
  "redis_pipeline_delete (other_balances ans rd) = redis_pipeline_delete rd"
  "redis_get (other_balances ans rd) (key_balance a) = ans (key_balance a)"
  "redis_get (other_balances ans rd) (key_wallet_info a) = ans (key_wallet_info a)"
  "redis_get (other_balances ans rd) (''idempotency:'' @ key) = redis_get rd (''idempotency:'' @ key)"
  by (simp_all add: other_balances_def key_balance_def key_wallet_info_def)

text \<open>No service that writes asks for them.\<close>

lemma attempt_ignores:
  "attempt_payment cdc db sw rw request (Some (other_balances ans rd)) = attempt_payment cdc db sw rw request (Some rd)"
  by (simp add: attempt_payment_def post_commit_def store_key_def)

lemma payment_loop_ignores:
  "payment_loop cdc db sw rw request (Some (other_balances ans rd)) attempts err =
     payment_loop cdc db sw rw request (Some rd) attempts err"
  by (induction attempts arbitrary: err) (simp_all add: attempt_ignores)

lemma send_money_ignores:
  "send_money cdc db user request (Some (other_balances ans rd)) = send_money cdc db user request (Some rd)"
proof -
  have "check_key key (Some (other_balances ans rd)) = check_key key (Some rd)" for key
    by (simp add: check_key_def other_balances_def)
  moreover have "send_uncached cdc db user request (Some (other_balances ans rd)) = send_uncached cdc db user request (Some rd)"
    by (simp add: send_uncached_def payment_loop_ignores cong: option.case_cong if_cong)
  ultimately show ?thesis by (simp add: send_money_def cong: option.case_cong if_cong)
qed

lemma finish_top_up_ignores:
  "finish_top_up db wallet (Some (other_balances ans rd)) = finish_top_up db wallet (Some rd)"
  by (simp add: finish_top_up_def invalidate_balance_def invalidate_wallet_info_def)

lemma top_up_ignores: "top_up db user amount (Some (other_balances ans rd)) = top_up db user amount (Some rd)"
proof -
  have "top_up_loop db user amount (Some (other_balances ans rd)) attempts = top_up_loop db user amount (Some rd) attempts"
    for attempts by (induction attempts) (simp_all add: finish_top_up_ignores cong: option.case_cong if_cong)
  then show ?thesis by (simp add: top_up_def)
qed

end
