(* ===== verification/Spec2Isabelle.thy ===== *)
theory Spec2Isabelle
  imports Connections Demo Lock_Order Ledger_Services Application Web_App Bounded_Work Deployment Progress Cache_Race
begin

text \<open>
  A verification development of the payment system (\<open>src/payment-system\<close>): a FastAPI service that keeps
  users, wallets and transactions in PostgreSQL and cached balances, idempotency keys and rate-limit
  counters in Redis.

  The program and the theories.
  A request passes the request-context middleware and the exception handlers, then the dependencies of its
  route (rate limit, bearer token, validated body), and reaches a service; services use the repositories
  over one database session per request, and the cache manager.

  \<^item> \<open>Prelude\<close>: the result monad of the \<open>async\<close> methods (a world, and a value or an exception), weakest
    preconditions \<open>wp m Q E w\<close> (\<open>Q\<close> where it returns, \<open>E\<close> where it raises), frame conditions (\<open>leaves S m\<close>: the
    world before and after are related by \<open>S\<close>; the locale \<open>py_frame\<close> carries them through the control flow for
    every reflexive and transitive \<open>S\<close>), digit strings.
  \<^item> \<open>Errors\<close>, \<open>Http\<close>: \<open>core/exceptions.py\<close>, \<open>middleware/error_handler.py\<close>,
    \<open>middleware/request_context.py\<close>; \<open>serve\<close> puts an endpoint inside the middleware and the handlers.
  \<^item> \<open>Decimals\<close>, \<open>Uuids\<close>, \<open>Json\<close>: what the program uses of Python's \<open>decimal\<close>, \<open>uuid\<close>, \<open>json\<close>.
  \<^item> \<open>Models\<close>, \<open>Schemas\<close>: \<open>models/*.py\<close> (rows, defaults, constraints; \<open>valid_db\<close> collects the constraints)
    and \<open>schemas/*.py\<close>.
  \<^item> \<open>Metadata\<close>: the same declarations as data, with the meaning that SQL gives them, and the proof that it is
    \<open>valid_db\<close> together with the lengths of the columns. \<open>Connections\<close>: the cached settings, engine, session factory
    and client with their options (\<open>core/database.py\<close>, \<open>core/redis.py\<close>), and \<open>scripts/init_db.py\<close>.
  \<^item> \<open>Session\<close>, \<open>Redis_Client\<close>: the two libraries below, as records of the calls made on them, with the laws
    that are assumed of them.
  \<^item> \<open>Repositories\<close>: \<open>repositories/*.py\<close>. \<open>Cache\<close>, \<open>Idempotency\<close>: \<open>services/cache_manager.py\<close>,
    \<open>services/idempotency_service.py\<close>; the locales \<open>best_effort_cache\<close> and \<open>invalidating_cache\<close> are the
    contract of a cached value, interpreted on the balance, wallet-info and idempotency methods.
  \<^item> \<open>Payment\<close>: \<open>services/payment_service.py\<close>. \<open>Money_Transfer\<close> states the abstract transfer and proves that one
    attempt refines it; \<open>Quiet\<close> and \<open>Payment_Safety\<close> carry this through the retry loop, the handlers and the
    idempotency checks; \<open>Ledger\<close> is the step relation of everything the program commits, with its invariant;
    \<open>Payment_Guarantees\<close> joins the two. \<open>Ledger_Services\<close> holds the contract of the writing services as the locale
    \<open>ledger_operation\<close>, interpreted on payment, top-up and registration.
  \<^item> \<open>Wallet_Service\<close>, \<open>User_Service\<close>, \<open>Security\<close>, \<open>Rate_Limit\<close>, \<open>Logging\<close>: \<open>services/wallet_service.py\<close>,
    \<open>services/user_service.py\<close>, \<open>core/security.py\<close> with \<open>middleware/auth.py\<close> and \<open>core/config.py\<close>,
    \<open>middleware/rate_limiter.py\<close>, \<open>core/logging_config.py\<close>.
  \<^item> \<open>Endpoints\<close>, \<open>Api_Guarantees\<close>, \<open>Application\<close>: \<open>api/v1/*.py\<close>, \<open>main.py\<close>, \<open>get_db\<close> of \<open>core/database.py\<close>.
  \<^item> \<open>Web_App\<close>: the whole application, \<open>app d request c\<close>: the libraries it is wired to (\<open>deps\<close>), a call of one of its
    routes (\<open>call\<close>), its endpoint with the declared status and response model, inside handlers and middleware;
    \<open>took_effect\<close> says what one exchange may do to the tables. \<open>Deployment\<close>: exchanges one after the other
    (\<open>served\<close>), and the books of every wallet along them. \<open>Bounded_Work\<close>: the application over libraries that
    count their calls.
  \<^item> \<open>Progress\<close>: total correctness. Over stores that answer, a payment or top-up that the tables
    allow is made, by the services and by their routes, and a payment that they do not allow is refused with the
    exception of the reason.
  \<^item> \<open>Cache_Coherence\<close>, \<open>Lock_Order\<close>: properties across components, cached balances against the database and
    the order of locks.
  \<^item> \<open>Cache_Race\<close>: the schedule of a wallet view and a top-up, all calls successful and all laws kept, after which a
    stale balance is served until its lifetime is over; and that payments and top-ups read no cached balance (C22).
  \<^item> \<open>Memory\<close>, \<open>Demo\<close>: a session, a Redis server, passwords, tokens and a web server held in memory; they
    satisfy all the laws together, and the witnesses of the properties run on them.

  State and concurrency.
  The world \<open>'w\<close> is opaque. An abstraction \<open>V\<close> reads from it what the next statement sees (\<open>view\<close>), what is
  committed (\<open>durable\<close>), the row locks held and the attributes of the objects in the session (absent when
  expired); \<open>K\<close> reads the keys of Redis and its clock. Other clients of Redis run beside ours: after each of our
  calls they may have removed any key and have written any value that \<open>may_write K\<close> allows them, and \<open>kv_step\<close>
  is an effect of ours with such an interference behind it. \<open>cache_sound\<close> asks of them what the program
  itself keeps to: under an idempotency key they write responses of recorded transactions only (\<open>clients_honest\<close>); \<open>among_clients\<close>
  is the server among all clients that do. What is said of payments, top-ups, routes and the application holds
  among them; what is said of the value of one cached balance, stored key or counter (C19 to C21, C23, C26, C27) is
  said of a server that no one else writes (\<open>exclusive K\<close>). Between any two calls other sessions may commit, within
  a relation \<open>R\<close>: \<open>others\<close> allows any number of transfers, top-ups and registrations that do not touch the
  rows locked here, \<open>alone\<close> nothing. Where a property leaves \<open>R\<close> open it holds for both, and with \<open>alone\<close> the
  condition \<open>R {} t u\<close> says that nothing was committed. The guarantee proved for each service is a step of the same relation
  (C6, C31, \<open>top_up_is_a_ledger_run\<close>), so the assumption is the program's own discipline. Every call of the database and of Redis
  may fail at any point, also after it took effect; the properties say what is left then.

  What is assumed of code outside the repository.
  \<^item> \<open>lawful_session\<close>: selects see the current rows and leave the attributes of known objects alone; an
    update matches id and version, locks the row and obeys column and check constraint; inserts obey the
    unique columns and foreign keys; a commit makes the view durable and expires nothing; a rollback expires
    every object; reading an expired attribute raises \<open>MissingGreenlet\<close>. Read committed isolation.
  \<^item> \<open>lawful_redis\<close>: the documented effect of the seven commands, expiry included; \<open>redis_up\<close>: no command fails.
    \<open>session_up\<close>, in C4, C8 and C17 only: a database accepts each statement that violates no constraint;
    \<open>rollback_up\<close>, in C8 only: its rollback does not fail.
    \<open>session_keeps_redis\<close>, \<open>redis_keeps_db\<close>: the stores are separate.
  \<^item> \<open>lawful_codec\<close> (pydantic's JSON form of a response is validated back to it), \<open>lawful_security\<close> (a password
    verifies against its hash; passlib refuses one of more than 4096 characters or with a NUL, \<open>password_refused\<close>, and
    a text that is no hash of its scheme, with a \<open>ValueError\<close> and nothing else; a token decodes to its payload until
    it expires), \<open>lawful_server\<close> (uuid4, the
    performance counter and the logger do not raise).

  Bounds. The retry loops run over the list of attempts left (three), so they end by structural recursion, and
  C15 bounds the calls of the two stores in one exchange, for whatever these answer;
  the JSON reader takes the length of the text plus one as fuel, and \<open>loads_dumps\<close> shows that this is enough for
  every text that \<open>dumps\<close> writes. Amounts are decimals with the 28 digits of the default context; columns
  hold 18 digits, two after the point.

  The properties. C1 to C11 are about payments, from one attempt to the route: all or nothing, idempotency,
  what is paid and what is refused, conservation of money, validity, refinement, conflicts, deadlocks. C12 to C15: the
  application as a whole, one exchange, any number of them, the books, the work. C16 to C18: top-ups and the wallet
  view. C19 to C22: cached balances. C23, C24: cached values and keys. C25: the declared tables. C26 and C27: rate
  limits. C28 to C30: history, its pages, and details. C31 to C34: users and tokens. C35 to C38: answers and logs.
  C39, C40: the exact balance movement of one attempt, and the form of answers.

  Idealised. Elapsed times are integer nanoseconds, rounded half up; strings are ASCII (two messages have
  \<open>--\<close> for an em dash); instants are integers, and the time stamps of log lines arrive as text; log calls inside
  services and handlers of cache errors have no effect. The address of a request's client is always known
  (\<open>limit_identifier\<close>; without one the limiter would end in an \<open>AttributeError\<close>). \<open>IDEMPOTENCY_KEY_TTL_HOURS\<close> has its
  default. A cached balance that is no finite decimal (\<open>dec_parse\<close>), such as a NaN, which the program
  never writes there, counts as unreadable. The decimal places of an amount are those of its exact value, while
  pydantic first rounds it to 28 digits, so \<open>payment_request_valid\<close> is stricter for longer ones.

  Not modelled, and why. FastAPI's matching of paths, parsing of bodies (a body that is no JSON text is refused
  before any dependency runs) and pydantic's error texts; what CORS does (its place is in
  \<open>Application\<close>); what the pool of the engine and the connections of the client do with their options, and how the
  environment is read into the settings: library code.
  Docker and dependency files. The services run over \<open>valid_db\<close>: a value too long for its column is one of the
  failures of the database there (\<open>payment_rows_fit\<close>: no valid payment causes one). \<open>tests\<close> and \<open>utils\<close> are empty.
\<close>

section \<open>Payments\<close>

text \<open>
  C1. A payment is all or nothing, whatever other sessions commit and other Redis clients write meanwhile
  and whatever the two stores refuse: when \<open>send_money\<close> returns, the response is the recorded transaction with
  the request's key, and either this call committed nothing or it committed one transfer of exactly
  the requested amount between the wallets of the two users; when it raises, nothing was
  committed, or the one transfer was and its answer got lost in a failing store. \<open>R\<close> is any relation the other
  sessions keep to; nothing committed by this call means \<open>R\<close> alone between the two states.
\<close>

theorem send_money_all_or_nothing:
  assumes "lawful_session db V R" and "client_ok redis_client K V R" and "session_keeps_redis db K"
    and "lawful_codec cdc" and "fresh_session V w" and "cache_sound cdc K V w"
    and "payment_request_valid request"
  shows "wp (send_money cdc db user request redis_client)
    (\<lambda>resp w'. \<exists>y. resp = transaction_response_of y \<and> txns (durable V w') (t_id y) = Some y \<and>
       t_idempotency_key y = pr_idempotency_key request \<and>
       (R {} (durable V w) (durable V w') \<or> transferred V R user request y w w'))
    (\<lambda>e w'. refused V R (pr_amount request) w e w' \<or>
       lost_answer e \<and> (\<exists>y. transferred V R user request y w w')) w"
proof -
  have "whole_cents (pr_amount request)"
    using assms(7) money_field_cents by (simp add: payment_request_valid_def)
  from wp_send_money [OF assms(1-6) this] show ?thesis
    by (rule wp_mono) (auto simp: send_answered_def send_failed_def dest!: settled_transferred)
qed

lemma demo_request_valid: "payment_request_valid (demo_request ''k1'' 2550)"
  by (simp add: payment_request_valid_def demo_request_def money_field_def whole_cents_def
      currency_pattern_def ord_def)

theorem send_money_all_or_nothing_witness:
  "wp (send_money mem_codec mem_session alice (demo_request ''k1'' 2550) (Some (mem_redis True)))
    (\<lambda>resp w'. \<exists>y. resp = transaction_response_of y \<and> txns (durable mem_absn w') (t_id y) = Some y \<and>
       t_idempotency_key y = pr_idempotency_key (demo_request ''k1'' 2550) \<and>
       (others {} (durable mem_absn demo) (durable mem_absn w') \<or>
        transferred mem_absn others alice (demo_request ''k1'' 2550) y demo w'))
    (\<lambda>e w'. refused mem_absn others (pr_amount (demo_request ''k1'' 2550)) demo e w' \<or>
       lost_answer e \<and> (\<exists>y. transferred mem_absn others alice (demo_request ''k1'' 2550) y demo w')) demo"
  by (rule send_money_all_or_nothing [OF lawful_mem_session(1) mem_shared_client_ok(1) mem_keeps_redis_shared
        lawful_mem_codec demo_fresh demo_shared_sound demo_request_valid])

text \<open>
  C2. A key is charged once: when a transaction with the request's key is already in a valid
  database, \<open>send_money\<close> answers with that very transaction, or fails in a store, and commits nothing
  of its own, whatever the request says, whoever sends it and whatever other workers do at the cache.
\<close>

theorem recorded_key_is_replayed:
  assumes "lawful_session db V R" and "client_ok redis_client K V R" and "session_keeps_redis db K"
    and "lawful_codec cdc" and "fresh_session V w" and "cache_sound cdc K V w"
    and "keeps_valid R" and "valid_db (durable V w)" and "txns (durable V w) (t_id x) = Some x"
    and "t_idempotency_key x = pr_idempotency_key request"
  shows "wp (send_money cdc db user request redis_client)
    (\<lambda>resp w'. resp = transaction_response_of x \<and> R {} (durable V w) (durable V w'))
    (\<lambda>e w'. db_error e \<and> R {} (durable V w) (durable V w')) w"
  by (rule wp_send_recorded [OF assms])

lemma demo_key: "t_idempotency_key demo_txn = pr_idempotency_key (demo_request ''k0'' c)"
  by (simp add: demo_txn_def transaction_row_def demo_request_def)

lemma demo_durable_valid: "valid_db (durable mem_absn demo)"
  unfolding demo_durable by (rule demo_valid)

theorem recorded_key_is_replayed_witness:
  "wp (send_money mem_codec mem_session alice (demo_request ''k0'' 2550) (Some (mem_redis False)))
    (\<lambda>resp w'. resp = transaction_response_of demo_txn \<and> others {} (durable mem_absn demo) (durable mem_absn w'))
    (\<lambda>e w'. db_error e \<and> others {} (durable mem_absn demo) (durable mem_absn w')) demo"
  by (rule recorded_key_is_replayed [OF lawful_mem_session(1) mem_shared_client_ok(1) mem_keeps_redis_shared
        lawful_mem_codec demo_fresh demo_shared_sound keeps_valid_others demo_durable_valid demo_recorded demo_key])

text \<open>
  C3. A client may repeat an answered request: at any later time, in a new session and whatever has been
  committed since, the same key gets the same response, or an error of a store, and moves no
  money.
\<close>

theorem answered_request_may_be_repeated:
  assumes "lawful_session db V R" and "client_ok redis_client K V R" and "session_keeps_redis db K"
    and "lawful_codec cdc" and "fresh_session V w" and "cache_sound cdc K V w"
    and "keeps_valid R" and "payment_request_valid request" and "valid_db (durable V w)"
  shows "wp (send_money cdc db user request redis_client)
    (\<lambda>resp w1. \<forall>w2 user' request'.
       R {} (durable V w1) (durable V w2) \<and> fresh_session V w2 \<and> cache_sound cdc K V w2 \<and>
       pr_idempotency_key request' = pr_idempotency_key request \<longrightarrow>
       wp (send_money cdc db user' request' redis_client)
         (\<lambda>resp' w3. resp' = resp \<and> R {} (durable V w2) (durable V w3))
         (\<lambda>e w3. db_error e \<and> R {} (durable V w2) (durable V w3)) w2)
    (\<lambda>_ _. True) w"
proof (rule wp_mono [OF wp_send_money_recorded [OF assms]], goal_cases)
  case (1 resp w1)
  then obtain y where y: "resp = transaction_response_of y" "txns (durable V w1) (t_id y) = Some y"
      "t_idempotency_key y = pr_idempotency_key request" and ok: "valid_db (durable V w1)" by blast
  show ?case
  proof (intro allI impI, elim conjE)
    fix w2 user' and request' :: payment_request
    assume later: "R {} (durable V w1) (durable V w2)" and w2: "fresh_session V w2" "cache_sound cdc K V w2"
      and key: "pr_idempotency_key request' = pr_idempotency_key request"
    have "txns (durable V w2) (t_id y) = Some y" by (rule rely_txns [OF lawful_rely [OF assms(1)] later y(2)])
    with wp_send_recorded [OF assms(1-4) w2 assms(7) keeps_validD [OF assms(7) later ok]] y key
    show "wp (send_money cdc db user' request' redis_client)
        (\<lambda>resp' w3. resp' = resp \<and> R {} (durable V w2) (durable V w3))
        (\<lambda>e w3. db_error e \<and> R {} (durable V w2) (durable V w3)) w2"
      by simp
  qed
qed simp

theorem answered_request_may_be_repeated_witness:
  "wp (send_money mem_codec mem_session alice (demo_request ''k1'' 2550) (Some (mem_redis True)))
    (\<lambda>resp w1. \<forall>w2 user' request'.
       others {} (durable mem_absn w1) (durable mem_absn w2) \<and> fresh_session mem_absn w2 \<and>
       cache_sound mem_codec mem_shared mem_absn w2 \<and>
       pr_idempotency_key request' = pr_idempotency_key (demo_request ''k1'' 2550) \<longrightarrow>
       wp (send_money mem_codec mem_session user' request' (Some (mem_redis True)))
         (\<lambda>resp' w3. resp' = resp \<and> others {} (durable mem_absn w2) (durable mem_absn w3))
         (\<lambda>e w3. db_error e \<and> others {} (durable mem_absn w2) (durable mem_absn w3)) w2)
    (\<lambda>_ _. True) demo"
  by (rule answered_request_may_be_repeated [OF lawful_mem_session(1) mem_shared_client_ok(1) mem_keeps_redis_shared
        lawful_mem_codec demo_fresh demo_shared_sound keeps_valid_others demo_request_valid demo_durable_valid])

text \<open>
  C4. A payment that can be made is made: with stores that answer and no other session committing, the valid
  request of a user with money enough, for a user with a wallet and room in it, under a key that is not used yet,
  is answered with 201 and the transaction of the one transfer that has been made between the two wallets. Only the
  rate limit and the expiry of the token can stop it; then nothing is committed.
\<close>

theorem funded_payment_succeeds:
  assumes "lawful_deps d V K alone" and "session_up (dp_db d) V" and "redis_up (dp_redis d)"
    and "fresh_session V w" and "cache_sound (dp_codec d) K V w" and "valid_db (durable V w)"
    and "rq_bearer request = Inr (login_token (dp_security d) (dp_settings d) issued u)"
    and "payment_request_valid payment" and "payable u payment a b (durable V w)"
  shows "wp (app d request (Payments_send (Inr payment)))
    (\<lambda>resp w'. rs_status resp = 201 \<and> (\<exists>y. rs_body resp = dump_txn (dp_codec d) (transaction_response_of y) \<and>
         transfers a b (pr_amount payment) (pr_currency payment) (pr_idempotency_key payment) (pr_description payment)
           (durable V w) y (durable V w')) \<or>
       rs_status resp \<in> {401, 429} \<and> durable V w' = durable V w) (\<lambda>_ _. False) w"
  by (rule up_send_exchange [OF assms])

lemma demo_wallets_differ: "alice_wallet \<noteq> bob_wallet"
  by (simp add: alice_wallet_def bob_wallet_def)

lemma demo_payable: "payable alice (demo_request ''k1'' 2550) alice_wallet bob_wallet (durable mem_absn demo)"
  unfolding payable_def demo_durable
proof (intro conjI)
  show "\<exists>xa xb. wallets (tables_of demo_rows) alice_wallet = Some xa \<and> w_user_id xa = alice \<and>
      wallets (tables_of demo_rows) bob_wallet = Some xb \<and> w_user_id xb = pr_receiver_id (demo_request ''k1'' 2550) \<and>
      cents (pr_amount (demo_request ''k1'' 2550)) \<le> cents (w_balance xa) \<and>
      cents (w_balance xb) + cents (pr_amount (demo_request ''k1'' 2550)) < 10 ^ 18"
    by (simp add: demo_defs demo_request_def cents_def)
  show "\<exists>k. txns (tables_of demo_rows) k = None"
    by (rule exI [of _ "UUID 0"]) (simp add: demo_defs)
qed (auto simp: demo_wallets_differ demo_defs demo_request_def split: if_splits)

lemma demo_deps_up: "session_up (dp_db demo_deps) mem_absn" "redis_up (dp_redis demo_deps)"
  by (simp_all add: demo_deps_def mem_session_up mem_redis_up)

lemma demo_deps_token:
  "rq_bearer (demo_http (Inr demo_token)) = Inr (login_token (dp_security demo_deps) (dp_settings demo_deps) 1000 alice)"
  by (simp add: demo_deps_def demo_bearer)

lemma demo_deps_sound:
  "cache_sound (dp_codec demo_deps) mem_kv mem_absn demo" "cache_sound (dp_codec demo_deps) mem_shared mem_absn demo"
  by (simp_all add: demo_deps_def demo_sound demo_shared_sound)

theorem funded_payment_succeeds_witness:
  "wp (app demo_deps (demo_http (Inr demo_token)) (Payments_send (Inr (demo_request ''k1'' 2550))))
    (\<lambda>resp w'. rs_status resp = 201 \<and> (\<exists>y. rs_body resp = dump_txn (dp_codec demo_deps) (transaction_response_of y) \<and>
         transfers alice_wallet bob_wallet (pr_amount (demo_request ''k1'' 2550)) (pr_currency (demo_request ''k1'' 2550))
           (pr_idempotency_key (demo_request ''k1'' 2550)) (pr_description (demo_request ''k1'' 2550))
           (durable mem_absn demo) y (durable mem_absn w')) \<or>
       rs_status resp \<in> {401, 429} \<and> durable mem_absn w' = durable mem_absn demo) (\<lambda>_ _. False) demo"
  by (rule funded_payment_succeeds [OF lawful_demo_deps(4) demo_deps_up demo_fresh demo_deps_sound(2) demo_durable_valid
        demo_deps_token demo_request_valid demo_payable])

text \<open>
  C5. A payment neither makes nor destroys money: with no other session committing, the sum of all
  balances is the same after \<open>send_money\<close> as before, whether it returns or raises and wherever a store
  failed.
\<close>

theorem payment_conserves_money:
  assumes "lawful_session db V alone" and "client_ok redis_client K V alone" and "session_keeps_redis db K"
    and "lawful_codec cdc" and "fresh_session V w" and "cache_sound cdc K V w"
    and "payment_request_valid request" and "finite (dom (wallets (durable V w)))"
  shows "wp (send_money cdc db user request redis_client)
    (\<lambda>_ w'. total_cents (durable V w') = total_cents (durable V w))
    (\<lambda>_ w'. total_cents (durable V w') = total_cents (durable V w)) w"
proof -
  have "whole_cents (pr_amount request)"
    using assms(7) money_field_cents by (simp add: payment_request_valid_def)
  then show ?thesis by (rule wp_send_money_total [OF assms(1-6) _ assms(8)])
qed

theorem payment_conserves_money_witness:
  "wp (send_money mem_codec mem_session alice (demo_request ''k1'' 2550) (Some (mem_redis True)))
    (\<lambda>_ w'. total_cents (durable mem_absn w') = total_cents (durable mem_absn demo))
    (\<lambda>_ w'. total_cents (durable mem_absn w') = total_cents (durable mem_absn demo)) demo"
  by (rule payment_conserves_money [OF lawful_mem_session(2) mem_shared_client_ok(2) mem_keeps_redis_shared lawful_mem_codec
        demo_fresh demo_shared_sound demo_request_valid demo_finite])

text \<open>
  C6. Every payment is a run of ledger steps, so whatever else runs, the database stays valid: the
  constraints hold, no balance is negative, every transfer has two wallets and a key of its own.
\<close>

theorem payment_keeps_database_valid:
  assumes "lawful_session db V others" and "client_ok redis_client K V others" and "session_keeps_redis db K"
    and "lawful_codec cdc" and "fresh_session V w" and "cache_sound cdc K V w"
    and "payment_request_valid request" and "valid_db (durable V w)"
  shows "wp (send_money cdc db user request redis_client)
    (\<lambda>_ w'. others {} (durable V w) (durable V w') \<and> valid_db (durable V w'))
    (\<lambda>_ w'. others {} (durable V w) (durable V w') \<and> valid_db (durable V w')) w"
  by (rule payment_op.keeps_valid [where K = K]) (use assms in blast)+

theorem payment_keeps_database_valid_witness:
  "wp (send_money mem_codec mem_session alice (demo_request ''k1'' 2550) (Some (mem_redis True)))
    (\<lambda>_ w'. others {} (durable mem_absn demo) (durable mem_absn w') \<and> valid_db (durable mem_absn w'))
    (\<lambda>_ w'. others {} (durable mem_absn demo) (durable mem_absn w') \<and> valid_db (durable mem_absn w')) demo"
  by (rule payment_keeps_database_valid [OF lawful_mem_session(1) mem_shared_client_ok(1) mem_keeps_redis_shared
        lawful_mem_codec demo_fresh demo_shared_sound demo_request_valid demo_durable_valid])

text \<open>
  C7. One attempt refines the abstract transfer: when \<open>execute_transfer\<close> returns, it has committed
  exactly one transfer of the amount between the two wallets, applied to the tables as they were when
  it locked them, and the response is the recorded row; an exception means that nothing was committed,
  with its cause, or that the commit itself failed.
\<close>

theorem execute_transfer_refines_transfer:
  assumes "lawful_session db V R" and "fresh_session V w" and "a \<noteq> b" and "whole_cents amount"
  shows "wp (execute_transfer db a b amount currency key description)
    (\<lambda>resp w'. \<exists>y. resp = transaction_response_of y \<and> committed V R a b amount currency key description y w w')
    (\<lambda>e w'. refused V R amount w e w' \<or>
       db_error e \<and> e \<noteq> Library IntegrityError \<and> (\<exists>y. committed V R a b amount currency key description y w w')) w"
  by (rule wp_mono [OF wp_execute_transfer [OF assms(1) snapshots_ok_fresh [OF assms(2)] assms(3,4)]]) blast+

theorem execute_transfer_refines_transfer_witness:
  "wp (execute_transfer mem_session alice_wallet bob_wallet (Dec 2550 (- 2)) ''USD'' ''k1'' None)
    (\<lambda>resp w'. \<exists>y. resp = transaction_response_of y \<and>
       committed mem_absn others alice_wallet bob_wallet (Dec 2550 (- 2)) ''USD'' ''k1'' None y demo w')
    (\<lambda>e w'. refused mem_absn others (Dec 2550 (- 2)) demo e w' \<or>
       db_error e \<and> e \<noteq> Library IntegrityError \<and>
       (\<exists>y. committed mem_absn others alice_wallet bob_wallet (Dec 2550 (- 2)) ''USD'' ''k1'' None y demo w')) demo"
  by (rule execute_transfer_refines_transfer [OF lawful_mem_session(1) demo_fresh demo_wallets_differ]) simp

text \<open>
  C8. A payment that cannot be made is refused, and for the right reason: with a database that answers, no other
  session committing and a key that is not used yet, \<open>send_money\<close> never returns. It raises
  \<open>WalletNotFoundException\<close> where one of the two users has no wallet, \<open>SelfTransferException\<close> where the receiver is
  the sender, and \<open>InsufficientBalanceException\<close>, with the balance and the amount, where two wallets exist and
  the balance is below the amount (\<open>refusal\<close>); whatever Redis does, nothing is committed.
\<close>

theorem unpayable_request_is_refused:
  assumes "lawful_session db V alone" and "session_up db V" and "rollback_up db" and "client_ok redis_client K V alone"
    and "session_keeps_redis db K" and "lawful_codec cdc" and "fresh_session V w" and "cache_sound cdc K V w"
    and "valid_db (durable V w)"
    and "\<forall>j x. txns (durable V w) j = Some x \<longrightarrow> t_idempotency_key x \<noteq> pr_idempotency_key request"
    and "payment_request_valid request" and "refusal user request (durable V w) d"
  shows "wp (send_money cdc db user request redis_client) (\<lambda>_ _. False)
    (\<lambda>e w'. e = Domain d \<and> durable V w' = durable V w) w"
  by (rule unfunded_payment_raises [OF assms])

lemma demo_large_request_valid: "payment_request_valid (demo_request ''k1'' 999999)"
  by (simp add: payment_request_valid_def demo_request_def money_field_def whole_cents_def
      currency_pattern_def ord_def)

lemma demo_short:
  "refusal alice (demo_request ''k1'' 999999) (durable mem_absn demo)
     (InsufficientBalanceException (dec_str (Dec 10000 (- 2))) (dec_str (Dec 999999 (- 2))))"
  using refusal.short_balance [of "durable mem_absn demo" "demo_wallet alice_wallet alice 10000" alice
      "demo_wallet bob_wallet bob 500" "demo_request ''k1'' 999999"]
  by (simp add: demo_defs demo_request_def cents_def)

theorem unpayable_request_is_refused_witness:
  "wp (send_money mem_codec mem_session alice (demo_request ''k1'' 999999) (Some (mem_redis True))) (\<lambda>_ _. False)
    (\<lambda>e w'. e = Domain (InsufficientBalanceException (dec_str (Dec 10000 (- 2))) (dec_str (Dec 999999 (- 2)))) \<and>
       durable mem_absn w' = durable mem_absn demo) demo"
  by (rule unpayable_request_is_refused [OF lawful_mem_session(2) mem_session_up mem_rollback_up mem_shared_client_ok(2)
        mem_keeps_redis_shared lawful_mem_codec demo_fresh demo_shared_sound demo_durable_valid _ demo_large_request_valid
        demo_short]) (simp add: demo_defs demo_request_def split: if_splits)

text \<open>
  C9. After a version conflict a payment never succeeds: the rollback expires the two wallet objects,
  so each of the attempts left ends at its first attribute access, and the caller gets an error of the
  database layer or the conflict itself, with nothing committed.
\<close>

theorem conflict_is_never_retried_successfully:
  assumes "lawful_session db V R" and "session_keeps_redis db K" and "cache_sound cdc K V w"
  shows "wp (handle_payment_error db request attempt
        (payment_loop cdc db a b request redis_client rest (Some (Domain OptimisticLockException)))
        (Domain OptimisticLockException))
    (\<lambda>_ _. False)
    (\<lambda>e w'. (db_error e \<or> e = Domain OptimisticLockException) \<and> R {} (durable V w) (durable V w')) w"
  by (rule wp_mono [OF wp_handle_conflict [OF assms rely_refl [OF lawful_rely [OF assms(1)]]]])
    (simp_all add: gives_up_def)

theorem conflict_is_never_retried_successfully_witness:
  "wp (handle_payment_error mem_session (demo_request ''k1'' 2550) 1
        (payment_loop mem_codec mem_session alice_wallet bob_wallet (demo_request ''k1'' 2550) None [2, 3]
          (Some (Domain OptimisticLockException))) (Domain OptimisticLockException))
    (\<lambda>_ _. False)
    (\<lambda>e w'. (db_error e \<or> e = Domain OptimisticLockException) \<and>
       others {} (durable mem_absn demo) (durable mem_absn w')) demo"
  by (rule conflict_is_never_retried_successfully [OF lawful_mem_session(1) mem_keeps_redis_shared demo_shared_sound])

text \<open>
  C10. Requests do not deadlock: take any number of payments and top-ups, each with the locks that its
  code takes in the order in which it takes them; from every state they can reach, failures
  included, the ones left can all run to their end.
\<close>

theorem requests_never_deadlock:
  assumes "set plans \<subseteq> request_locks" and "lock_step\<^sup>*\<^sup>* (starts_with plans) s"
  shows "\<exists>t. goes_on\<^sup>*\<^sup>* s t \<and> set t \<subseteq> {finished}"
proof -
  have "in_order (starts_with plans)"
    by (rule in_order_start) (use assms(1) request_locks_ordered in blast)
  then show ?thesis by (intro all_done run_in_order [OF assms(2)])
qed

definition demo_plan :: "uuid \<Rightarrow> uuid \<Rightarrow> string \<Rightarrow> resource list" where
  "demo_plan a b key = transfer_locks (\<lambda>k. demo_wallet k alice 10000) (\<lambda>u. u) demo_txn a b (Dec 100 (- 2)) key"

lemma demo_plan_request: "a \<noteq> b \<Longrightarrow> demo_plan a b key \<in> request_locks"
  unfolding demo_plan_def by (rule request_locks.payment) (simp_all add: demo_wallet_def)

theorem requests_never_deadlock_witness:
  "\<exists>t. goes_on\<^sup>*\<^sup>* (starts_with [demo_plan alice_wallet bob_wallet ''k1'', demo_plan bob_wallet alice_wallet ''k2'']) t \<and>
     set t \<subseteq> {finished}"
  by (rule requests_never_deadlock [OF _ rtranclp.rtrancl_refl])
    (simp add: demo_plan_request demo_wallets_differ demo_wallets_differ [symmetric])

section \<open>Payments over the API\<close>

text \<open>
  C11. \<open>POST /payments/send\<close> with the token of a user spends that user's money and no one else's: an
  answer is the recorded transaction of this call or of the key, a refusal (rate limit, expired
  token, invalid body, the service's errors) commits nothing, or the answer to the one committed
  transfer got lost.
\<close>

theorem send_route_pays_for_the_token:
  assumes "lawful_session db V R" and "lawful_redis rd K" and "redis_keeps_db rd V R"
    and "session_keeps_redis db K" and "lawful_codec cdc" and "lawful_security sec (obs_stores V K)"
    and "fresh_session V w" and "cache_sound cdc K V w"
    and "rq_bearer request = Inr (login_token sec st issued u)" and "payment_request_valid b"
  shows "wp (post_payments_send cdc sec st db rd request (Inr b))
    (\<lambda>resp w'. \<exists>y. resp = transaction_response_of y \<and> txns (durable V w') (t_id y) = Some y \<and>
       t_idempotency_key y = pr_idempotency_key b \<and>
       (R {} (durable V w) (durable V w') \<or> transferred V R u b y w w'))
    (\<lambda>e w'. R {} (durable V w) (durable V w') \<and>
         (e = limit_exceeded payment_rate_limit \<or> e = expired_token) \<or>
       refused V R (pr_amount b) w e w' \<or>
       lost_answer e \<and> (\<exists>y. transferred V R u b y w w')) w"
proof -
  have body: "\<And>c. Inr b = (Inr c :: (string list \<times> string) list + payment_request) \<Longrightarrow> payment_request_valid c"
    using assms(10) by simp
  from wp_post_payments_send [OF assms(1-9) body] show ?thesis
    by (rule wp_mono) (auto simp: send_answered_def send_failed_def dest!: settled_transferred)
qed

theorem send_route_pays_for_the_token_witness:
  "wp (post_payments_send mem_codec mem_security default_settings mem_session (mem_redis True)
        (demo_http (Inr demo_token)) (Inr (demo_request ''k1'' 2550)))
    (\<lambda>resp w'. \<exists>y. resp = transaction_response_of y \<and> txns (durable mem_absn w') (t_id y) = Some y \<and>
       t_idempotency_key y = pr_idempotency_key (demo_request ''k1'' 2550) \<and>
       (others {} (durable mem_absn demo) (durable mem_absn w') \<or>
        transferred mem_absn others alice (demo_request ''k1'' 2550) y demo w'))
    (\<lambda>e w'. others {} (durable mem_absn demo) (durable mem_absn w') \<and>
         (e = limit_exceeded payment_rate_limit \<or> e = expired_token) \<or>
       refused mem_absn others (pr_amount (demo_request ''k1'' 2550)) demo e w' \<or>
       lost_answer e \<and> (\<exists>y. transferred mem_absn others alice (demo_request ''k1'' 2550) y demo w')) demo"
proof -
  have rd: "lawful_redis (mem_redis True) mem_shared" "redis_keeps_db (mem_redis True) mem_absn others"
    using mem_shared_client_ok(1) [of True] by simp_all
  show ?thesis
    by (rule send_route_pays_for_the_token [OF lawful_mem_session(1) rd mem_keeps_redis_shared lawful_mem_codec
          lawful_mem_security demo_fresh demo_shared_sound demo_bearer demo_request_valid])
qed

section \<open>The application as a whole\<close>

text \<open>
  C12. Every exchange with the application has exactly one answer and at most one effect, of the kind that its
  route is for: whatever the route, the token, the body, the failures of the two stores, the sessions
  and the Redis clients beside it, the tables go through steps of the others, with at most one transfer, top-up or registration of
  this request between them. An answer of the 4xx class says that there was none.
\<close>

theorem exchange_takes_one_effect:
  assumes "lawful_deps d V K R" and "moves_users R" and "fresh_session V w" and "cache_sound (dp_codec d) K V w"
    and "call_ok c"
  shows "\<exists>resp w'. app d request c w = (Inr resp, w') \<and> took_effect V R c w w' \<and>
    (400 \<le> rs_status resp \<and> rs_status resp < 500 \<longrightarrow> R {} (durable V w) (durable V w'))"
  using wp_total [OF wp_app_sound [OF assms, of request]] by (auto simp: exchanged_def)

lemma demo_top_up_ok: "call_ok (Wallets_top_up (Inr \<lparr>tu_amount = Dec 1250 (- 2)\<rparr>))"
  by (rule demo_calls_ok) (simp add: demo_calls_def)

theorem exchange_takes_one_effect_witness:
  "\<exists>resp w'. app demo_deps (demo_http (Inr demo_token)) (Wallets_top_up (Inr \<lparr>tu_amount = Dec 1250 (- 2)\<rparr>)) demo = (Inr resp, w') \<and>
     took_effect mem_absn alone (Wallets_top_up (Inr \<lparr>tu_amount = Dec 1250 (- 2)\<rparr>)) demo w' \<and>
     (400 \<le> rs_status resp \<and> rs_status resp < 500 \<longrightarrow> alone {} (durable mem_absn demo) (durable mem_absn w'))"
  by (rule exchange_takes_one_effect [OF lawful_demo_deps(4) moves_users_alone demo_fresh demo_deps_sound(2) demo_top_up_ok])

text \<open>
  C13. So the whole service keeps its invariant: however many requests of whatever kind it has served, with
  other workers of the same program committing and writing to Redis all the time and Redis losing any of its
  entries, the database
  is valid, every transaction ever recorded is still there as it was, and every cached response is that of a
  recorded transaction.
\<close>

theorem service_keeps_its_invariant:
  assumes "lawful_deps d V K others" and "served d V K others w0 cs w" and "cache_sound (dp_codec d) K V w0"
    and "valid_db (durable V w0)"
  shows "valid_db (durable V w) \<and> txns (durable V w0) \<subseteq>\<^sub>m txns (durable V w) \<and> cache_sound (dp_codec d) K V w"
proof -
  have "others {} (durable V w0) (durable V w) \<and> cache_sound (dp_codec d) K V w"
    by (rule served_induct_effects [OF assms(1) moves_users_others assms(2,3)])
      (auto intro: took_effect_others others_trans)
  then show ?thesis using others_valid [OF _ assms(4)] others_rows by blast
qed

theorem service_keeps_its_invariant_witness:
  "valid_db (durable mem_absn demo_run) \<and> txns (durable mem_absn demo) \<subseteq>\<^sub>m txns (durable mem_absn demo_run) \<and>
     cache_sound mem_codec mem_shared mem_absn demo_run"
  using service_keeps_its_invariant [OF lawful_demo_deps(3) demo_served [OF opens_reopen(2) [OF rely_ok_others]] demo_deps_sound(2)
      demo_durable_valid]
  by (simp add: demo_deps_def)

text \<open>
  C14. Every cent is accounted for: after any requests, one after the other, there are payments in, among the
  amounts of the top-ups that were asked for and in their order, such that every balance is the old one plus
  what the transactions recorded since moved to the wallet and minus what they moved from it plus what was
  paid in there; and the sum of all balances has grown by what was paid in. So no other request, failed,
  refused or repeated, makes money or loses it, and the transactions explain the balances.
\<close>

theorem balances_are_accounted_for:
  assumes "lawful_deps d V K alone" and "served d V K alone w0 cs w" and "cache_sound (dp_codec d) K V w0"
    and "finite (dom (txns (durable V w0)))" and "finite (dom (wallets (durable V w0)))"
  shows "\<exists>ps. subseq (map snd ps) (deposits cs) \<and>
    total_cents (durable V w) = total_cents (durable V w0) + sum_list (map snd ps) \<and>
    (\<forall>k. balance_of (durable V w) k =
       balance_of (durable V w0) k + (posted (durable V w) k - posted (durable V w0) k) + paid_to k ps)"
proof -
  obtain ps where "subseq (map snd ps) (deposits cs)" and b: "books (durable V w0) ps (durable V w)"
    using served_books [OF assms] by blast
  moreover have "balance_of (durable V w) k =
      balance_of (durable V w0) k + (posted (durable V w) k - posted (durable V w0) k) + paid_to k ps" for k
    using b by (simp add: books_def paid_in_def algebra_simps)
  ultimately show ?thesis using b by (auto simp: books_def)
qed

theorem balances_are_accounted_for_witness:
  "\<exists>ps. subseq (map snd ps) (deposits demo_calls) \<and>
    total_cents (durable mem_absn demo_run) = total_cents (durable mem_absn demo) + sum_list (map snd ps) \<and>
    (\<forall>k. balance_of (durable mem_absn demo_run) k = balance_of (durable mem_absn demo) k +
       (posted (durable mem_absn demo_run) k - posted (durable mem_absn demo) k) + paid_to k ps)"
proof -
  have "finite (dom (txns (durable mem_absn demo)))" by (simp add: demo_def finite_dom_map_of)
  from balances_are_accounted_for [OF lawful_demo_deps(4) demo_served [OF opens_reopen(2) [OF rely_ok_alone]]
      demo_deps_sound(2) this demo_finite]
  show ?thesis .
qed

text \<open>
  C15. Every exchange ends after a bounded amount of work: with each database statement and each Redis command
  counted, the application answers as it does without the counter, and the count is at most 37, for every
  request, every state of the stores and every way in which their calls can answer, conflict or fail. The
  retry loops end.
\<close>

theorem exchange_work_is_bounded:
  "\<exists>n. n \<le> 37 \<and> app (metered d) request c (0, w) = (fst (app d request c w), n, snd (app d request c w))"
  using meters_app [of d request c] unfolding meters_def by (metis add_0)

section \<open>Wallets\<close>

text \<open>
  C16. A top-up adds exactly the amount to the user's wallet in one versioned step, and the answer
  shows that row or a later one; when it raises, nothing was added, or a store failed after the step
  was committed. A server that answers and has no other client no longer has the old balance.
\<close>

theorem top_up_adds_the_amount:
  assumes "lawful_session db V R" and "client_ok redis_client K V R" and "session_keeps_redis db K"
    and "fresh_session V w" and "wallet_top_up_valid data"
  shows "wp (top_up db user (tu_amount data) redis_client)
    (\<lambda>resp w'. \<exists>z z'. topped_up V R user (tu_amount data) z w w' \<and> balance_dropped K redis_client (w_id z) w' \<and>
       later z z' \<and> resp = wallet_response_of z')
    (\<lambda>e w'. R {} (durable V w) (durable V w') \<and>
         (db_error e \<or> e = Domain WalletNotFoundException \<or> e = Domain OptimisticLockException) \<or>
       db_error e \<and> (\<exists>z. topped_up V R user (tu_amount data) z w w')) w"
proof -
  have "whole_cents (tu_amount data)"
    using assms(5) money_field_cents by (simp add: wallet_top_up_valid_def)
  from wp_top_up [OF assms(1-4) this] show ?thesis
    by (rule wp_mono) (auto simp: top_up_failed_def)
qed

definition demo_deposit :: wallet_top_up where
  "demo_deposit = \<lparr>tu_amount = Dec 1000 (- 2)\<rparr>"

lemma demo_deposit_valid: "wallet_top_up_valid demo_deposit"
  by (simp add: wallet_top_up_valid_def demo_deposit_def money_field_def whole_cents_def)

theorem top_up_adds_the_amount_witness:
  "wp (top_up mem_session bob (tu_amount demo_deposit) (Some (mem_redis True)))
    (\<lambda>resp w'. \<exists>z z'. topped_up mem_absn others bob (tu_amount demo_deposit) z demo w' \<and>
       balance_dropped mem_kv (Some (mem_redis True)) (w_id z) w' \<and> later z z' \<and> resp = wallet_response_of z')
    (\<lambda>e w'. others {} (durable mem_absn demo) (durable mem_absn w') \<and>
         (db_error e \<or> e = Domain WalletNotFoundException \<or> e = Domain OptimisticLockException) \<or>
       db_error e \<and> (\<exists>z. topped_up mem_absn others bob (tu_amount demo_deposit) z demo w')) demo"
  by (rule top_up_adds_the_amount [OF lawful_mem_session(1) mem_client_ok(1) mem_keeps_redis demo_fresh demo_deposit_valid])

text \<open>
  A top-up, too, is a run of the ledger that other sessions may rely on, and keeps the database valid,
  however it ends.
\<close>

lemma top_up_is_a_ledger_run:
  assumes "lawful_session db V others" and "client_ok redis_client K V others" and "session_keeps_redis db K"
    and "fresh_session V w" and "wallet_top_up_valid data" and "valid_db (durable V w)"
  shows "wp (top_up db user (tu_amount data) redis_client)
    (\<lambda>_ w'. others {} (durable V w) (durable V w') \<and> valid_db (durable V w'))
    (\<lambda>_ w'. others {} (durable V w) (durable V w') \<and> valid_db (durable V w')) w"
  by (rule top_up_op.keeps_valid [where K = K]) (use assms wallet_top_up_valid_def in blast)+

text \<open>
  C17. A top-up that can be made is made, and needs no Redis for it: with a database that answers, no other
  session committing, and room in the wallet of the user, the request is answered with 200, whatever fails at the
  cache; the only change is the new balance and version of that wallet, which the answer shows. Only the expiry of
  the token can stop it; then nothing is committed.
\<close>

theorem funded_top_up_succeeds:
  assumes "lawful_deps d V K alone" and "session_up (dp_db d) V" and "fresh_session V w" and "valid_db (durable V w)"
    and "rq_bearer request = Inr (login_token (dp_security d) (dp_settings d) issued u)"
    and "wallet_top_up_valid data" and "wallets (durable V w) (w_id x) = Some x" and "w_user_id x = u"
    and "cents (w_balance x) + cents (tu_amount data) < 10 ^ 18"
  shows "wp (app d request (Wallets_top_up (Inr data)))
    (\<lambda>resp w'. rs_status resp = 200 \<and>
         (\<exists>b ts. numeric_column b \<and> cents b = cents (w_balance x) + cents (tu_amount data) \<and>
            durable V w' = put_wallet (rebalance b (w_version x + 1) ts x) (durable V w) \<and>
            rs_body resp = dump_wallet (dp_renderer d) (wallet_response_of (rebalance b (w_version x + 1) ts x))) \<or>
       rs_status resp \<in> {401} \<and> durable V w' = durable V w) (\<lambda>_ _. False) w"
  by (rule up_top_up_exchange [OF assms])

definition quiet_deps :: "mem deps" where
  "quiet_deps = demo_deps\<lparr>dp_redis := mem_redis False\<rparr>"

lemma quiet_deps_ok:
  "lawful_deps quiet_deps mem_absn mem_kv alone" "session_up (dp_db quiet_deps) mem_absn"
  "rq_bearer (demo_http (Inr demo_token)) = Inr (login_token (dp_security quiet_deps) (dp_settings quiet_deps) 1000 alice)"
  using lawful_demo_deps(2) mem_client_ok(3) [of False]
  by (simp_all add: lawful_deps_def quiet_deps_def demo_deps_up(1) demo_deps_token)

lemma demo_alice_wallet:
  "wallets (durable mem_absn demo) (w_id (demo_wallet alice_wallet alice 10000)) = Some (demo_wallet alice_wallet alice 10000)"
  "w_user_id (demo_wallet alice_wallet alice 10000) = alice"
  "cents (w_balance (demo_wallet alice_wallet alice 10000)) + cents (tu_amount demo_deposit) < 10 ^ 18"
  by (simp_all add: demo_defs demo_deposit_def cents_def)

theorem funded_top_up_succeeds_witness:
  "wp (app quiet_deps (demo_http (Inr demo_token)) (Wallets_top_up (Inr demo_deposit)))
    (\<lambda>resp w'. rs_status resp = 200 \<and>
         (\<exists>b ts. numeric_column b \<and>
            cents b = cents (w_balance (demo_wallet alice_wallet alice 10000)) + cents (tu_amount demo_deposit) \<and>
            durable mem_absn w' = put_wallet (rebalance b (w_version (demo_wallet alice_wallet alice 10000) + 1) ts
              (demo_wallet alice_wallet alice 10000)) (durable mem_absn demo) \<and>
            rs_body resp = dump_wallet (dp_renderer quiet_deps) (wallet_response_of
              (rebalance b (w_version (demo_wallet alice_wallet alice 10000) + 1) ts (demo_wallet alice_wallet alice 10000)))) \<or>
       rs_status resp \<in> {401} \<and> durable mem_absn w' = durable mem_absn demo) (\<lambda>_ _. False) demo"
  by (rule funded_top_up_succeeds [OF quiet_deps_ok(1,2) demo_fresh demo_durable_valid quiet_deps_ok(3)
        demo_deposit_valid demo_alice_wallet])

text \<open>
  C18. The wallet view shows a row of the user, with its balance or the one found in the cache (on a server
  with other clients, any they may have written), leaves the database alone, and changes the cache by that balance at most; without a wallet it raises
  \<open>WalletNotFoundException\<close>.
\<close>

theorem get_wallet_shows_own_row:
  assumes "lawful_session db V R" and "client_ok redis_client K V R" and "session_keeps_redis db K"
    and "fresh_session V w"
  shows "wp (get_wallet db user redis_client)
    (\<lambda>resp w'. R {} (durable V w) (durable V w') \<and>
       (\<exists>x b. own_row V user w x \<and> balance_seen K w x b \<and> cache_filled K x w w' \<and>
          resp = wallet_response_of (x\<lparr>w_balance := b\<rparr>)))
    (\<lambda>e w'. R {} (durable V w) (durable V w') \<and> kv_same K w w' \<and>
       (db_error e \<or> e = Domain WalletNotFoundException \<and> no_wallet V user w)) w"
  by (rule wp_mono [OF wp_get_wallet [OF assms]]) (auto simp: no_wallet_def)

theorem get_wallet_shows_own_row_witness:
  "wp (get_wallet mem_session alice (Some (mem_redis True)))
    (\<lambda>resp w'. others {} (durable mem_absn demo) (durable mem_absn w') \<and>
       (\<exists>x b. own_row mem_absn alice demo x \<and> balance_seen mem_kv demo x b \<and> cache_filled mem_kv x demo w' \<and>
          resp = wallet_response_of (x\<lparr>w_balance := b\<rparr>)))
    (\<lambda>e w'. others {} (durable mem_absn demo) (durable mem_absn w') \<and> kv_same mem_kv demo w' \<and>
       (db_error e \<or> e = Domain WalletNotFoundException \<and> no_wallet mem_absn alice demo)) demo"
  by (rule get_wallet_shows_own_row [OF lawful_mem_session(1) mem_client_ok(1) mem_keeps_redis demo_fresh])

section \<open>The cached balances\<close>

text \<open>
  C19. With no other session committing and a Redis server of its own, and every cached balance right before,
  the wallet view answers with the balance in the database and leaves every cached balance right.
\<close>

theorem get_wallet_is_coherent:
  assumes "exclusive K" and "lawful_session db V alone" and "client_ok redis_client K V alone" and "session_keeps_redis db K"
    and "fresh_session V w" and "coherent K V w"
  shows "wp (get_wallet db user redis_client)
    (\<lambda>resp w'. coherent K V w' \<and> (\<exists>x. own_row V user w x \<and> resp = wallet_response_of x))
    (\<lambda>_ w'. coherent K V w') w"
  by (rule wp_get_wallet_coherent [OF assms])

theorem get_wallet_is_coherent_witness:
  "wp (get_wallet mem_session alice (Some (mem_redis True)))
    (\<lambda>resp w'. coherent mem_kv mem_absn w' \<and> (\<exists>x. own_row mem_absn alice demo x \<and> resp = wallet_response_of x))
    (\<lambda>_ w'. coherent mem_kv mem_absn w') demo"
  by (rule get_wallet_is_coherent [OF mem_exclusive lawful_mem_session(2) mem_client_ok(3) mem_keeps_redis demo_fresh demo_coherent])

text \<open>
  So does the balance check: the number is the balance in the database, cached or not.
\<close>

lemma get_balance_fast_is_coherent:
  assumes "exclusive K" and "lawful_session db V alone" and "client_ok redis_client K V alone" and "session_keeps_redis db K"
    and "fresh_session V w" and "coherent K V w"
  shows "wp (get_balance_fast db user redis_client)
    (\<lambda>b w'. coherent K V w' \<and> (\<exists>x. own_row V user w x \<and> b = w_balance x)) (\<lambda>_ w'. coherent K V w') w"
  by (rule wp_get_balance_fast_coherent [OF assms])

text \<open>
  C20. With no other session committing, a Redis server of its own that answers, and every cached balance right
  before, a top-up that answers leaves every cached balance right; only an exception of the database can leave a stale
  one behind.
\<close>

theorem top_up_is_coherent:
  assumes "exclusive K" and "lawful_session db V alone" and "lawful_redis rd K" and "redis_keeps_db rd V alone" and "redis_up rd"
    and "session_keeps_redis db K" and "fresh_session V w" and "wallet_top_up_valid data" and "coherent K V w"
  shows "wp (top_up db user (tu_amount data) (Some rd))
    (\<lambda>_ w'. coherent K V w') (\<lambda>e w'. coherent K V w' \<or> db_error e) w"
proof -
  have "whole_cents (tu_amount data)"
    using assms(8) money_field_cents by (simp add: wallet_top_up_valid_def)
  then show ?thesis by (rule wp_top_up_coherent [OF assms(1-7) _ assms(9)])
qed

theorem top_up_is_coherent_witness:
  "wp (top_up mem_session bob (tu_amount demo_deposit) (Some (mem_redis True)))
    (\<lambda>_ w'. coherent mem_kv mem_absn w') (\<lambda>e w'. coherent mem_kv mem_absn w' \<or> db_error e) demo"
proof -
  have rd: "lawful_redis (mem_redis True) mem_kv" "redis_keeps_db (mem_redis True) mem_absn alone"
    using mem_client_ok(3) [of True] by simp_all
  show ?thesis
    by (rule top_up_is_coherent [OF mem_exclusive lawful_mem_session(2) rd mem_redis_up mem_keeps_redis demo_fresh
          demo_deposit_valid demo_coherent])
qed

text \<open>
  C21. With no other session committing, a Redis server of its own, whether or not that answers the other
  commands, and every cached balance right before, a payment that answers leaves every cached balance right;
  after a lost answer an entry may be stale.
\<close>

theorem send_money_is_coherent:
  assumes "exclusive K" and "lawful_session db V alone" and "lawful_redis rd K" and "redis_keeps_db rd V alone"
    and "session_keeps_redis db K" and "lawful_codec cdc" and "fresh_session V w" and "cache_sound cdc K V w"
    and "payment_request_valid request" and "coherent K V w"
  shows "wp (send_money cdc db user request (Some rd))
    (\<lambda>_ w'. coherent K V w') (\<lambda>e w'. coherent K V w' \<or> lost_answer e) w"
proof -
  have "whole_cents (pr_amount request)"
    using assms(9) money_field_cents by (simp add: payment_request_valid_def)
  then show ?thesis by (rule wp_send_money_coherent [OF assms(1-8) _ assms(10)])
qed

theorem send_money_is_coherent_witness:
  "wp (send_money mem_codec mem_session alice (demo_request ''k1'' 2550) (Some (mem_redis True)))
    (\<lambda>_ w'. coherent mem_kv mem_absn w') (\<lambda>e w'. coherent mem_kv mem_absn w' \<or> lost_answer e) demo"
proof -
  have rd: "lawful_redis (mem_redis True) mem_kv" "redis_keeps_db (mem_redis True) mem_absn alone"
    using mem_client_ok(3) [of True] by simp_all
  show ?thesis
    by (rule send_money_is_coherent [OF mem_exclusive lawful_mem_session(2) rd mem_keeps_redis lawful_mem_codec demo_fresh demo_sound
          demo_request_valid demo_coherent])
qed

text \<open>
  C22. A stale balance moves no money: whatever a Redis server answers for the cached balances and wallets,
  a payment and a top-up do exactly the same, in result and effect. Only the views of a wallet can be wrong.
\<close>

theorem cached_balances_move_no_money:
  "send_money cdc db user request (Some (other_balances ans rd)) = send_money cdc db user request (Some rd) \<and>
   top_up db user amount (Some (other_balances ans rd)) = top_up db user amount (Some rd)"
  by (rule conjI [OF send_money_ignores top_up_ignores])

section \<open>Cached values and keys\<close>

text \<open>
  Where no other client writes, a balance that was stored is what the next read returns until its
  lifetime is over, and the two calls never raise.
\<close>

lemma balance_read_after_write:
  assumes "lawful_redis rd K" and "exclusive K" and "redis_up rd"
  shows "wp (py_bind (set_balance rd k b) (\<lambda>_. get_balance rd k))
    (\<lambda>r w'. r = Some b \<or> (\<exists>t. clock K w + TTL_BALANCE \<le> t \<and> t \<le> clock K w')) (\<lambda>_ _. False) w"
  by (rule balance_cache.read_after_put [OF assms]) simp



text \<open>
  A deleted key is not found by the next check.
\<close>

lemma deleted_key_is_gone:
  assumes "lawful_redis rd K" and "exclusive K" and "redis_up rd" and "key \<noteq> []"
  shows "wp (py_bind (delete_key key (Some rd)) (\<lambda>_. check_key key (Some rd))) (\<lambda>r _. r = None) (\<lambda>_ _. False) w"
  unfolding check_key_get_idempotency [OF assms(4)] by (rule idempotency_keys.read_after_drop [OF assms(1-3)])

text \<open>
  C24. While every cached response is that of a recorded transaction, the fast check answers nothing or
  the stored response of a transaction with exactly this key, in whatever state Redis is and
  whatever its other clients write, and changes nothing in the stores.
\<close>

theorem fast_check_is_sound:
  assumes "client_ok redis_client K V R" and "rely_ok R" and "lawful_codec cdc" and "cache_sound cdc K V w"
  shows "wp (check_key key redis_client)
    (\<lambda>r w'. db_quiet V R w w' \<and> kv_same K w w' \<and>
       (r = None \<or> (\<exists>x. r = Some (stored_response (dump_txn cdc (transaction_response_of x)) 201) \<and>
          txns (durable V w') (t_id x) = Some x \<and> t_idempotency_key x = key)))
    (\<lambda>_ _. False) w"
  by (rule wp_check_key [OF assms])

theorem fast_check_is_sound_witness:
  "wp (check_key ''k0'' (Some (mem_redis True)))
    (\<lambda>r w'. db_quiet mem_absn others demo w' \<and> kv_same mem_kv demo w' \<and>
       (r = None \<or> (\<exists>x. r = Some (stored_response (dump_txn mem_codec (transaction_response_of x)) 201) \<and>
          txns (durable mem_absn w') (t_id x) = Some x \<and> t_idempotency_key x = ''k0'')))
    (\<lambda>_ _. False) demo"
  by (rule fast_check_is_sound [OF mem_client_ok(1) rely_ok_others lawful_mem_codec demo_sound])

text \<open>
  The invariant behind it: a payment leaves the cached responses true to the recorded transactions,
  however it ends and whichever store fails.
\<close>

lemma payment_keeps_responses_sound:
  assumes "lawful_session db V R" and "client_ok redis_client K V R" and "session_keeps_redis db K"
    and "lawful_codec cdc" and "fresh_session V w" and "cache_sound cdc K V w" and "payment_request_valid request"
  shows "wp (send_money cdc db user request redis_client)
    (\<lambda>_ w'. cache_sound cdc K V w') (\<lambda>_ w'. cache_sound cdc K V w') w"
proof -
  have "whole_cents (pr_amount request)"
    using assms(7) money_field_cents by (simp add: payment_request_valid_def)
  from wp_send_money [OF assms(1-6) this] show ?thesis
    by (rule wp_mono) (simp_all add: send_answered_def send_failed_def)
qed

text \<open>
  The key schema keeps the components apart: different wallets and different idempotency keys have
  different Redis keys, and no key of one component, the rate limiter's included, is one of another.
\<close>

lemma cache_keys_are_apart:
  "(key_balance a = key_balance b) = (a = b) \<and> (key_wallet_info a = key_wallet_info b) = (a = b) \<and>
   (key_idempotency s = key_idempotency t) = (s = t) \<and>
   key_balance a \<noteq> key_wallet_info b \<and> key_balance a \<noteq> key_idempotency s \<and> key_wallet_info a \<noteq> key_idempotency s \<and>
   key_rate_limit i ep \<noteq> key_balance a \<and> key_rate_limit i ep \<noteq> key_wallet_info a \<and>
   key_rate_limit i ep \<noteq> key_idempotency s"
  by simp

section \<open>The declared tables\<close>

text \<open>
  C25. The invariant is what the models declare: a database satisfies the columns and constraints that
  \<open>create_all\<close> is given (types, not null, primary, unique and foreign keys, checks, as SQL reads them) exactly when it is
  valid and every value fits its column, that is, the lengths of the texts and the 32 bits of a version.
\<close>

theorem declared_tables_are_the_invariant:
  "satisfies base_metadata (stored_cells t) = (valid_db t \<and> fits_columns t)"
  by (rule satisfies_valid)

text \<open>
  A payment that passed validation never meets the length of a column: while the versions of the wallets
  are below their bound, its transfer keeps every column.
\<close>

lemma payment_rows_fit:
  assumes "transfers a b (pr_amount r) (pr_currency r) (pr_idempotency_key r) description t y T"
    and "payment_request_valid r" and "fits_columns t" and "\<And>k x. wallets t k = Some x \<Longrightarrow> w_version x < 2 ^ 31 - 1"
  shows "fits_columns T"
proof -
  have "txn_fits y"
    using assms(1,2) by (auto simp: transfers_def txn_fits_def payment_request_valid_def currency_pattern_def)
  moreover have "wallet_fits (rebalance c (w_version x + 1) ts x)" if "wallets t k = Some x" for k x c ts
    using assms(3) assms(4) [OF that] that by (fastforce simp: fits_columns_def wallet_fits_def rebalance_def)
  ultimately show ?thesis
    using assms(1,3) unfolding transfers_def fits_columns_def by (auto split: if_splits)
qed

section \<open>Rate limiting\<close>

text \<open>
  C26. With a server that answers and that no one else writes, the checks of a caller and path that are made within a minute of the
  first one of a window admit exactly the first \<open>max_requests\<close>.
\<close>

theorem window_admits_the_limit:
  assumes "lawful_redis rd K" and "exclusive K" and "redis_up rd" and "live K w (key_rate_limit i ep) = None"
  shows "wp (burst rd i ep (rl_max_requests rl) n)
    (\<lambda>rs w'. clock K w' < clock K w + TTL_RATE_LIMIT \<longrightarrow> rs = map (\<lambda>j. int j < rl_max_requests rl) [0..<n])
    (\<lambda>_ _. False) w"
  by (rule wp_burst [OF assms])

lemma demo_no_counter: "live mem_kv demo k = None"
  by (simp add: live_def demo_def)

theorem window_admits_the_limit_witness:
  "wp (burst (mem_redis True) ''10.0.0.1'' ''/api/v1/payments/send'' (rl_max_requests payment_rate_limit) 30)
    (\<lambda>rs w'. clock mem_kv w' < clock mem_kv demo + TTL_RATE_LIMIT \<longrightarrow>
       rs = map (\<lambda>j. int j < rl_max_requests payment_rate_limit) [0..<30]) (\<lambda>_ _. False) demo"
  by (rule window_admits_the_limit [OF lawful_mem_redis mem_exclusive mem_redis_up demo_no_counter])

text \<open>
  C27. With no other client, a counter that has no expiry (the server failed between \<open>INCR\<close> and \<open>EXPIRE\<close>) and has reached the
  limit refuses its caller for good: every later check says no, at whatever time it is made.
\<close>

theorem counter_without_expiry_blocks:
  assumes "lawful_redis rd K" and "exclusive K" and "redis_up rd" and "counted K w (key_rate_limit i ep) k None"
    and "0 < k" and "rl_max_requests rl \<le> int k"
  shows "wp (burst rd i ep (rl_max_requests rl) n) (\<lambda>rs w'. rs = replicate n False) (\<lambda>_ _. False) w"
  by (rule wp_burst_blocked [OF assms])

definition demo_stuck :: mem where
  "demo_stuck = demo\<lparr>m_keys := [(key_rate_limit ''10.0.0.1'' ''/api/v1/payments/send'', (nat_str 20, None))]\<rparr>"

lemma demo_stuck_counted: "counted mem_kv demo_stuck (key_rate_limit ''10.0.0.1'' ''/api/v1/payments/send'') 20 None"
  by (simp add: counted_def demo_stuck_def)

theorem counter_without_expiry_blocks_witness:
  "wp (burst (mem_redis True) ''10.0.0.1'' ''/api/v1/payments/send'' (rl_max_requests payment_rate_limit) 3)
    (\<lambda>rs w'. rs = replicate 3 False) (\<lambda>_ _. False) demo_stuck"
  by (rule counter_without_expiry_blocks [OF lawful_mem_redis mem_exclusive mem_redis_up demo_stuck_counted])
    (simp_all add: payment_rate_limit_def)

text \<open>
  A Redis server that fails at the counter lets the request through.
\<close>

lemma rate_limit_fails_open:
  assumes "redis_incr rd (key_rate_limit (limit_identifier request) (rq_path request)) w = (Inl e, w')"
  shows "rate_limit rl request rd w = (Inr (), w')"
  using check_fails_open [OF assms] by (simp add: rate_limit_def py_bind_def py_return_def)

section \<open>History and details\<close>

text \<open>
  C28. The history answers with a page of the transactions in which the user's wallet takes part, latest
  first, and with the number of them as counted a moment before; without a wallet, with nothing.
  The database is left alone. The status filter has no influence.
\<close>

theorem history_is_a_page:
  assumes "lawful_session db V R" and "fresh_session V w" and "page_query_valid page page_size"
  shows "wp (get_transaction_history db user page page_size status)
    (\<lambda>r w'. R {} (durable V w) (durable V w') \<and> tl_page r = page \<and> tl_page_size r = page_size \<and>
       (if no_wallet V user w then tl_transactions r = [] \<and> tl_total r = 0
        else history_seen V R user page page_size w r w'))
    (\<lambda>e w'. failed V R e w w') w"
proof -
  have "view V w = durable V w" using assms(2) by (simp add: fresh_session_def)
  from wp_history [OF assms(1) snapshots_ok_fresh [OF assms(2)] this assms(3)] show ?thesis
    by (rule wp_mono) (simp_all add: unchanged_def)
qed

theorem history_is_a_page_witness:
  "wp (get_transaction_history mem_session alice 1 20 (Some ''FAILED''))
    (\<lambda>r w'. others {} (durable mem_absn demo) (durable mem_absn w') \<and> tl_page r = 1 \<and> tl_page_size r = 20 \<and>
       (if no_wallet mem_absn alice demo then tl_transactions r = [] \<and> tl_total r = 0
        else history_seen mem_absn others alice 1 20 demo r w'))
    (\<lambda>e w'. failed mem_absn others e demo w') demo"
  by (rule history_is_a_page [OF lawful_mem_session(1) demo_fresh]) (simp add: page_query_valid_def)

text \<open>
  C29. The pages of a history part it: with no other session committing and no two transactions of the wallet made
  at the same instant, the handler answers page \<open>p\<close> of size \<open>n\<close> with exactly the transactions of the
  user's wallet that have at least \<open>(p - 1) * n\<close> and fewer than \<open>p * n\<close> newer ones (\<open>newer_txns\<close>), each once. So no
  transaction is on two pages, and none is on no page.
\<close>

theorem history_page_by_rank:
  assumes "lawful_session db V alone" and "fresh_session V w" and "valid_db (durable V w)"
    and "page_query_valid page page_size" and "own_row V user w x"
    and "inj_on (\<lambda>k. t_created_at (the (txns (durable V w) k))) (matching_txns (Txn_wallet_id (w_id x)) (durable V w))"
  shows "wp (get_transaction_history db user page page_size status)
    (\<lambda>r w'. distinct (map tr_id (tl_transactions r)) \<and>
       set (map tr_id (tl_transactions r)) = {k \<in> matching_txns (Txn_wallet_id (w_id x)) (durable V w).
         (page - 1) * page_size \<le> int (card (newer_txns (Txn_wallet_id (w_id x)) (durable V w) k)) \<and>
         int (card (newer_txns (Txn_wallet_id (w_id x)) (durable V w) k)) < page * page_size})
    (\<lambda>e w'. db_error e) w"
  by (rule wp_history_by_rank [OF assms])

lemma demo_matching: "matching_txns (Txn_wallet_id alice_wallet) (durable mem_absn demo) = {UUID 40}"
  by (auto simp: matching_txns_def demo_defs split: if_splits)

lemma demo_own_row:
  "own_row mem_absn alice demo (demo_wallet alice_wallet alice 10000)" "w_id (demo_wallet alice_wallet alice 10000) = alice_wallet"
  by (simp_all add: own_row_def demo_defs)

lemma demo_one_instant: "inj_on f (matching_txns (Txn_wallet_id alice_wallet) (durable mem_absn demo))"
  unfolding demo_matching by simp

theorem history_page_by_rank_witness:
  "wp (get_transaction_history mem_session alice 1 20 None)
    (\<lambda>r w'. distinct (map tr_id (tl_transactions r)) \<and>
       set (map tr_id (tl_transactions r)) = {k \<in> matching_txns (Txn_wallet_id alice_wallet) (durable mem_absn demo).
         (1 - 1) * 20 \<le> int (card (newer_txns (Txn_wallet_id alice_wallet) (durable mem_absn demo) k)) \<and>
         int (card (newer_txns (Txn_wallet_id alice_wallet) (durable mem_absn demo) k)) < 1 * 20})
    (\<lambda>e w'. db_error e) demo"
  by (rule history_page_by_rank [OF lawful_mem_session(2) demo_fresh demo_durable_valid _ demo_own_row(1),
        unfolded demo_own_row(2), OF _ demo_one_instant]) (simp add: page_query_valid_def)

text \<open>
  C30. The details of a transaction are shown to its sender and its receiver only: an answer is the row with
  the requested id, and the user's wallet is one of its two; a 403 means that it is neither.
\<close>

theorem details_for_participants_only:
  assumes "lawful_session db V R" and "fresh_session V w"
  shows "wp (get_transaction db k user)
    (\<lambda>r w'. R {} (durable V w) (durable V w') \<and> (\<exists>x y. own_row V user w x \<and>
       txns (durable V w') k = Some y \<and> takes_part x y \<and> r = transaction_response_of y))
    (\<lambda>e w'. R {} (durable V w) (durable V w') \<and> (db_error e \<or>
        e = HTTPExc 404 ''Wallet not found'' [] \<and> no_wallet V user w \<or>
        e = HTTPExc 404 ''Transaction not found'' [] \<and> (\<forall>y. txns (durable V w) k = Some y \<longrightarrow> t_id y \<noteq> k) \<or>
        e = HTTPExc 403 ''Not authorized to view this transaction'' [] \<and>
          (\<exists>x y. own_row V user w x \<and> txns (durable V w') k = Some y \<and> \<not> takes_part x y))) w"
proof -
  have "view V w = durable V w" using assms(2) by (simp add: fresh_session_def)
  from wp_get_transaction [OF assms(1) snapshots_ok_fresh [OF assms(2)] this] show ?thesis
    by (rule wp_mono) (unfold unchanged_def failed_def, blast+)
qed

theorem details_for_participants_only_witness:
  "wp (get_transaction mem_session (UUID 40) alice)
    (\<lambda>r w'. others {} (durable mem_absn demo) (durable mem_absn w') \<and> (\<exists>x y. own_row mem_absn alice demo x \<and>
       txns (durable mem_absn w') (UUID 40) = Some y \<and> takes_part x y \<and> r = transaction_response_of y))
    (\<lambda>e w'. others {} (durable mem_absn demo) (durable mem_absn w') \<and> (db_error e \<or>
        e = HTTPExc 404 ''Wallet not found'' [] \<and> no_wallet mem_absn alice demo \<or>
        e = HTTPExc 404 ''Transaction not found'' [] \<and>
          (\<forall>y. txns (durable mem_absn demo) (UUID 40) = Some y \<longrightarrow> t_id y \<noteq> UUID 40) \<or>
        e = HTTPExc 403 ''Not authorized to view this transaction'' [] \<and>
          (\<exists>x y. own_row mem_absn alice demo x \<and> txns (durable mem_absn w') (UUID 40) = Some y \<and> \<not> takes_part x y))) demo"
  by (rule details_for_participants_only [OF lawful_mem_session(1) demo_fresh])

section \<open>Users and tokens\<close>

text \<open>
  C31. A registration that answers has made one user and one wallet for that user in a single step: the
  row has the requested address and name and verifies the password. A refusal leaves the ledger
  to the others: the address was taken, the hashing refused the password, or a store failed (possibly after the
  commit).
\<close>

theorem registration_makes_user_and_wallet:
  assumes "lawful_session db V R" and "moves_users R" and "lawful_security sec (obs_db V)" and "fresh_session V w"
  shows "wp (register db sec data)
    (\<lambda>resp w'. \<exists>y. user_for sec data y \<and> resp = user_response_of y \<and> registered V R y w w')
    (\<lambda>e w'. R {} (durable V w) (durable V w') \<and>
         (db_error e \<or> e = Domain (UserAlreadyExistsException (uc_email data)) \<and>
            (\<exists>k x. users (durable V w) k = Some x \<and> u_email x = uc_email data) \<or>
          e = Library ValueError \<and> password_refused (uc_password data)) \<or>
       db_error e \<and> (\<exists>y. user_for sec data y \<and> registered V R y w w')) w"
  by (rule wp_register [OF assms])

theorem registration_makes_user_and_wallet_witness:
  "wp (register mem_session mem_security demo_signup)
    (\<lambda>resp w'. \<exists>y. user_for mem_security demo_signup y \<and> resp = user_response_of y \<and> registered mem_absn others y demo w')
    (\<lambda>e w'. others {} (durable mem_absn demo) (durable mem_absn w') \<and>
         (db_error e \<or> e = Domain (UserAlreadyExistsException (uc_email demo_signup)) \<and>
            (\<exists>k x. users (durable mem_absn demo) k = Some x \<and> u_email x = uc_email demo_signup) \<or>
          e = Library ValueError \<and> password_refused (uc_password demo_signup)) \<or>
       db_error e \<and> (\<exists>y. user_for mem_security demo_signup y \<and> registered mem_absn others y demo w')) demo"
  by (rule registration_makes_user_and_wallet [OF lawful_mem_session(1) moves_users_others lawful_mem_security demo_fresh])

text \<open>
  C32. The address and the password of a row give the token of that user, for every user of a valid
  database, active or not; only a failing database can prevent it.
\<close>

theorem login_gives_own_token:
  assumes "lawful_session db V R" and "lawful_security sec (obs_db V)" and "fresh_session V w"
    and "valid_db (durable V w)" and "users (durable V w) (u_id x) = Some x"
    and "pwd_verify sec (ul_password data) (u_password_hash x) = Inr True" and "ul_email data = u_email x"
  shows "wp (login db sec st data)
    (\<lambda>resp w'. \<exists>issued. resp = token_response_of (login_token sec st issued (u_id x))) (\<lambda>e w'. db_error e) w"
  by (rule wp_login_password [OF assms])

lemma demo_user_row: "users (durable mem_absn demo) (u_id (demo_user alice ''a@x.org'')) = Some (demo_user alice ''a@x.org'')"
  by (simp add: demo_defs)

theorem login_gives_own_token_witness:
  "wp (login mem_session mem_security default_settings demo_login)
    (\<lambda>resp w'. \<exists>issued. resp = token_response_of
       (login_token mem_security default_settings issued (u_id (demo_user alice ''a@x.org''))))
    (\<lambda>e w'. db_error e) demo"
  by (rule login_gives_own_token [OF lawful_mem_session(1) lawful_mem_security demo_fresh demo_durable_valid demo_user_row])
    (simp_all add: mem_security_def password_refused_def demo_login_def demo_user_def user_row_def)

text \<open>
  C33. Nothing else gives one: a login that answers has met a row with the address whose password it
  verified. An unknown address and a wrong password end in the same exception, and only they do; but where the
  verification itself refuses the password (it is too long or has a NUL character) a \<open>ValueError\<close> escapes, and only
  for an address that exists. The database stays as it was.
\<close>

theorem login_needs_the_password:
  assumes "lawful_session db V R" and "lawful_security sec (obs_db V)" and "fresh_session V w"
  shows "wp (login db sec st data)
    (\<lambda>resp w'. R {} (durable V w) (durable V w') \<and>
       (\<exists>x issued. users (durable V w) (u_id x) = Some x \<and> u_email x = ul_email data \<and>
          pwd_verify sec (ul_password data) (u_password_hash x) = Inr True \<and>
          resp = token_response_of (login_token sec st issued (u_id x))))
    (\<lambda>e w'. R {} (durable V w) (durable V w') \<and>
       (db_error e \<or> e = Domain (UserNotFoundException []) \<and>
          (\<forall>k x. users (durable V w) k = Some x \<longrightarrow> u_email x = ul_email data \<longrightarrow>
             (\<exists>y. users (durable V w) (u_id y) = Some y \<and> u_email y = ul_email data \<and>
               pwd_verify sec (ul_password data) (u_password_hash y) = Inr False)) \<or>
        e = Library ValueError \<and>
          (\<exists>y. users (durable V w) (u_id y) = Some y \<and> u_email y = ul_email data \<and>
             pwd_verify sec (ul_password data) (u_password_hash y) = Inl e))) w"
  by (rule wp_login [OF assms])

definition demo_wrong_login :: user_login where
  "demo_wrong_login = \<lparr>ul_email = ''a@x.org'', ul_password = ''guess''\<rparr>"

theorem login_needs_the_password_witness:
  "wp (login mem_session mem_security default_settings demo_wrong_login)
    (\<lambda>resp w'. others {} (durable mem_absn demo) (durable mem_absn w') \<and>
       (\<exists>x issued. users (durable mem_absn demo) (u_id x) = Some x \<and> u_email x = ul_email demo_wrong_login \<and>
          pwd_verify mem_security (ul_password demo_wrong_login) (u_password_hash x) = Inr True \<and>
          resp = token_response_of (login_token mem_security default_settings issued (u_id x))))
    (\<lambda>e w'. others {} (durable mem_absn demo) (durable mem_absn w') \<and>
       (db_error e \<or> e = Domain (UserNotFoundException []) \<and>
          (\<forall>k x. users (durable mem_absn demo) k = Some x \<longrightarrow> u_email x = ul_email demo_wrong_login \<longrightarrow>
             (\<exists>y. users (durable mem_absn demo) (u_id y) = Some y \<and> u_email y = ul_email demo_wrong_login \<and>
               pwd_verify mem_security (ul_password demo_wrong_login) (u_password_hash y) = Inr False)) \<or>
        e = Library ValueError \<and>
          (\<exists>y. users (durable mem_absn demo) (u_id y) = Some y \<and> u_email y = ul_email demo_wrong_login \<and>
             pwd_verify mem_security (ul_password demo_wrong_login) (u_password_hash y) = Inl e))) demo"
  by (rule login_needs_the_password [OF lawful_mem_session(1) lawful_mem_security demo_fresh])

text \<open>
  C34. The token made for a user id authenticates as exactly that id for
  \<open>ACCESS_TOKEN_EXPIRE_MINUTES\<close>, and is refused with a 401 from then on.
\<close>

theorem token_round_trip:
  assumes "lawful_security sec obs" and "utc_now sec w = (Inr issued, w1)" and "utc_now sec w1 = (Inr now, w2)"
  shows "py_bind (create_access_token sec st [(''sub'', JStr (uuid_str u))] None) (get_current_user_id sec st) w =
    (if now \<le> issued + 60 * st_access_token_expire_minutes st then Inr u else Inl expired_token, w2)"
  using authenticate_at [OF assms(1,3)]
  by (simp add: py_bind_def create_login_token_at [OF assms(2)] expired_token_def)

theorem token_round_trip_witness:
  "py_bind (create_access_token mem_security default_settings [(''sub'', JStr (uuid_str alice))] None)
     (get_current_user_id mem_security default_settings) demo = (Inr alice, demo)"
  using token_round_trip [OF lawful_mem_security, of demo 1000 demo 1000 demo default_settings alice]
  by (simp add: mem_security_def demo_def default_settings_def)

text \<open>
  The profile is the row of the user the token was made for.
\<close>

lemma profile_is_of_the_token:
  assumes "lawful_session db V R" and "lawful_security sec (obs_db V)" and "fresh_session V w"
    and "rq_bearer request = Inr (login_token sec st issued u)"
  shows "wp (get_users_me sec st db request)
    (\<lambda>resp w'. R {} (durable V w) (durable V w') \<and> (\<exists>x. users (durable V w) u = Some x \<and> resp = user_response_of x))
    (\<lambda>e w'. R {} (durable V w) (durable V w') \<and>
       (e = expired_token \<or> db_error e \<or> e = Domain (UserNotFoundException (uuid_str u)) \<and>
          (\<forall>j x. users (durable V w) j = Some x \<longrightarrow> u_id x \<noteq> u))) w"
  by (rule wp_get_users_me [OF assms])

section \<open>Answers and logs\<close>

text \<open>
  C35. Every request gets an answer, however its endpoint ends: the endpoint's own response or the
  rendering of its exception, with the id of the request in the header (in the body only, for an
  unhandled exception). No exception leaves the server.
\<close>

theorem every_request_is_answered:
  assumes "lawful_server srv obs"
    and "\<And>rid w'. obs w' = obs w \<Longrightarrow> wp (handler (request_vars rid)) (\<lambda>r w'. Q r (obs w')) (\<lambda>e w'. E e (obs w')) w'"
  shows "wp (serve srv request handler)
    (\<lambda>resp w'. \<exists>rid. names_request request rid \<and> answers rid (\<lambda>r. Q r (obs w')) (\<lambda>e. E e (obs w')) resp)
    (\<lambda>_ _. False) w"
  using assms by (rule wp_serve)

theorem every_request_is_answered_witness:
  "wp (serve mem_server (demo_http (Inr demo_token)) (\<lambda>cv. raise_domain WalletNotFoundException))
    (\<lambda>resp w'. \<exists>rid. names_request (demo_http (Inr demo_token)) rid \<and>
       answers rid (\<lambda>r. False) (\<lambda>e. e = Domain WalletNotFoundException \<and> m_now w' = m_now demo) resp)
    (\<lambda>_ _. False) demo"
proof -
  have "wp (raise_domain WalletNotFoundException :: (mem, json response) io) (\<lambda>r w'. False)
      (\<lambda>e w'. e = Domain WalletNotFoundException \<and> m_now w' = m_now demo) w'" if "m_now w' = m_now demo" for w'
    using that by (simp add: wp_raise)
  then show ?thesis
    by (rule every_request_is_answered [OF lawful_mem_server, of m_now demo "\<lambda>cv. raise_domain WalletNotFoundException"
          "\<lambda>r _. False" "\<lambda>e n. e = Domain WalletNotFoundException \<and> n = m_now demo"])
qed

text \<open>
  C36. What a client may conclude from an error body: a domain exception always has a known code and the
  code tells its status; an exception of a library reveals nothing, whichever it was; the response
  headers that an exception asks for (the limiter's \<open>Retry-After\<close>) are lost.
\<close>

theorem error_codes_name_the_status:
  "er_error (handle_exception rid (Domain d)) \<noteq> ''unknown_error'' \<and>
   (er_error (handle_exception rid (Domain d)) = er_error (handle_exception rid (Domain d')) \<longleftrightarrow>
      er_status (handle_exception rid (Domain d)) = er_status (handle_exception rid (Domain d'))) \<and>
   handle_exception rid (Library l) = handle_exception rid (Library l') \<and>
   er_status (handle_exception rid (Library l)) = 500 \<and>
   rs_headers (json_response (handle_exception rid (limit_exceeded rl))) = [] \<and>
   limit_exceeded rl \<noteq> HTTPExc 429 s []"
proof -
  have known: "status_to_error_code (domain_status d) \<noteq> ''unknown_error''" for d
    using domain_status_known [of d] unfolding status_to_error_code_known by auto
  have "status_to_error_code (domain_status d) = status_to_error_code (domain_status d') \<longleftrightarrow>
      domain_status d = domain_status d'"
    by (rule iffI, erule status_to_error_code_inj, rule known, erule arg_cong)
  moreover have "rs_headers (json_response e) = []" for e by (simp add: json_response_def)
  moreover have "limit_exceeded rl \<noteq> HTTPExc 429 s []"
    by (simp only: limit_exceeded_def exn.inject list.distinct simp_thms)
  ultimately show ?thesis
    using known [of d]
    by (simp only: handle_exception.simps http_exception_handler_def unhandled_exception_handler_def
        error_response.simps simp_thms)
qed

text \<open>
  C37. A production log line says what happened, to a reader of JSON: it decodes to an object that has, under their
  names, the time, the level, the application, the place and the message of the record, the request and user ids of
  the context or their defaults (\<open>-\<close> and \<open>anonymous\<close>), and an exception exactly when the record carries one. It
  contains printable ASCII only, so no message and no client-chosen request id can start a line of its own.
\<close>

theorem log_line_tells_the_record:
  "\<exists>j. loads (json_format settings timestamp cv rec) = Some j \<and>
     json_get ''timestamp'' j = Some (JStr timestamp) \<and>
     json_get ''level'' j = Some (JStr (lr_levelname rec)) \<and>
     json_get ''service'' j = Some (JStr (st_app_name settings)) \<and>
     json_get ''module'' j = Some (JStr (lr_module rec)) \<and>
     json_get ''function'' j = Some (JStr (lr_funcName rec)) \<and>
     json_get ''line'' j = Some (JInt (lr_lineno rec)) \<and>
     json_get ''message'' j = Some (JStr (lr_message rec)) \<and>
     json_get ''request_id'' j = Some (JStr (case cv_request_id cv of None \<Rightarrow> ''-'' | Some r \<Rightarrow> r)) \<and>
     json_get ''user_id'' j = Some (JStr (case cv_user_id cv of None \<Rightarrow> ''anonymous'' | Some u \<Rightarrow> u)) \<and>
     json_get ''exception'' j =
       (case lr_exc_info rec of
          Some (Some (ty, msg)) \<Rightarrow> Some (JObj [(''type'', JStr ty), (''message'', JStr msg)])
        | _ \<Rightarrow> None) \<and>
     list_all printable (json_format settings timestamp cv rec)"
  by (rule exI [of _ "log_entry settings timestamp cv rec"])
    (simp add: json_line log_entry_fields log_entry_exception ctx_get_def)

text \<open>
  C38. In production every record that passes the level of its logger is written as exactly one JSON line,
  however often the setup has run, and the two noisy libraries need a warning for it.
\<close>

theorem production_writes_one_json_line:
  assumes "\<not> st_debug settings"
  shows "written settings ((setup_logging settings ^^ Suc n) ls) name lv utc hms cv rec =
    (if severity (effective_level ((setup_logging settings ^^ Suc n) ls) name) \<le> severity lv
     then [json_format settings utc cv rec] else []) \<and>
    effective_level ((setup_logging settings ^^ Suc n) ls) ''sqlalchemy.engine'' = WARNING \<and>
    effective_level ((setup_logging settings ^^ Suc n) ls) ''uvicorn.access'' = WARNING"
  using assms written_json [of settings "(setup_logging settings ^^ n) ls" name lv utc hms cv rec] effective_quiet
  by (simp add: written_def)

definition demo_loggers :: loggers where
  "demo_loggers = \<lparr>root_level = WARNING, root_handlers = [DevFormatter, DevFormatter], logger_levels = []\<rparr>"

definition demo_record :: log_record where
  "demo_record = \<lparr>lr_levelname = ''INFO'', lr_module = ''payment_service'', lr_funcName = ''send_money'', lr_lineno = 128,
     lr_message = ''Payment completed'', lr_exc_info = None\<rparr>"

theorem production_writes_one_json_line_witness:
  "written default_settings ((setup_logging default_settings ^^ Suc 1) demo_loggers) ''app'' INFO
      ''2025-01-01T00:00:00'' ''00:00:00'' (request_vars ''r1'') demo_record =
    (if severity (effective_level ((setup_logging default_settings ^^ Suc 1) demo_loggers) ''app'') \<le> severity INFO
     then [json_format default_settings ''2025-01-01T00:00:00'' (request_vars ''r1'') demo_record] else []) \<and>
    effective_level ((setup_logging default_settings ^^ Suc 1) demo_loggers) ''sqlalchemy.engine'' = WARNING \<and>
    effective_level ((setup_logging default_settings ^^ Suc 1) demo_loggers) ''uvicorn.access'' = WARNING"
  by (rule production_writes_one_json_line) (simp add: default_settings_def)

text \<open>
  C39. The balance arithmetic of a payment is exact to the cent. Where \<open>move_money\<close> returns, the sender's
  balance was not below the amount, the column holds the difference for the sender and the sum for the
  receiver, each row one version on, and nothing else has changed but what others committed. Where the balance is below,
  by a cent even, it raises exactly \<open>InsufficientBalanceException\<close> with the balance and the amount, and changes
  nothing; where it is not, only a failing database or a version conflict can stop it.
\<close>

theorem balance_moves_are_exact:
  assumes "lawful_session db V R" and "snapshots_ok V w" and "locked_both V a b w" and "a \<noteq> b"
    and "whole_cents amount" and "loaded_wallet V w a = Some x"
  shows "wp (move_money db a b amount)
    (\<lambda>_ w'. cents amount \<le> cents (w_balance x) \<and>
       (\<exists>t xs xr bs br ts us. R {} (view V w) t \<and> wallets t a = Some xs \<and> wallets t b = Some xr \<and>
          numeric_column bs \<and> cents bs = cents (w_balance xs) - cents amount \<and> cents amount \<le> cents (w_balance xs) \<and>
          numeric_column br \<and> cents br = cents (w_balance xr) + cents amount \<and>
          view V w' = put_wallet (rebalance br (w_version xr + 1) us xr)
            (put_wallet (rebalance bs (w_version xs + 1) ts xs) t)))
    (\<lambda>e w'. if cents (w_balance x) < cents amount
       then e = Domain (InsufficientBalanceException (dec_str (w_balance x)) (dec_str amount)) \<and> w' = w
       else db_error e \<or> e = Domain OptimisticLockException) w"
  by (rule wp_mono [OF wp_conj [OF wp_move_money [OF assms(1-5)] wp_move_money_check [OF assms]]])
    (unfold moved_def, blast+)

definition demo_locked :: mem where
  "demo_locked = demo\<lparr>m_locks := [alice_wallet, bob_wallet],
     m_wallets := [(alice_wallet, demo_wallet alice_wallet alice 10000), (bob_wallet, demo_wallet bob_wallet bob 500)]\<rparr>"

lemma demo_locked_ok:
  "snapshots_ok mem_absn demo_locked" "locked_both mem_absn alice_wallet bob_wallet demo_locked"
  "loaded_wallet mem_absn demo_locked alice_wallet = Some (demo_wallet alice_wallet alice 10000)"
  by (auto simp: snapshots_ok_def locked_both_def later_def demo_locked_def seen_def demo_defs numeric_column_def
      split: if_splits)

theorem balance_moves_are_exact_witness:
  "wp (move_money mem_session alice_wallet bob_wallet (Dec 255 (- 1)))
    (\<lambda>_ w'. cents (Dec 255 (- 1)) \<le> cents (w_balance (demo_wallet alice_wallet alice 10000)) \<and>
       (\<exists>t xs xr bs br ts us. others {} (view mem_absn demo_locked) t \<and>
          wallets t alice_wallet = Some xs \<and> wallets t bob_wallet = Some xr \<and>
          numeric_column bs \<and> cents bs = cents (w_balance xs) - cents (Dec 255 (- 1)) \<and>
          cents (Dec 255 (- 1)) \<le> cents (w_balance xs) \<and>
          numeric_column br \<and> cents br = cents (w_balance xr) + cents (Dec 255 (- 1)) \<and>
          view mem_absn w' = put_wallet (rebalance br (w_version xr + 1) us xr)
            (put_wallet (rebalance bs (w_version xs + 1) ts xs) t)))
    (\<lambda>e w'. if cents (w_balance (demo_wallet alice_wallet alice 10000)) < cents (Dec 255 (- 1))
       then e = Domain (InsufficientBalanceException (dec_str (w_balance (demo_wallet alice_wallet alice 10000)))
              (dec_str (Dec 255 (- 1)))) \<and> w' = demo_locked
       else db_error e \<or> e = Domain OptimisticLockException) demo_locked"
  by (rule balance_moves_are_exact [OF lawful_mem_session(1) demo_locked_ok(1,2) demo_wallets_differ _ demo_locked_ok(3)])
    (simp add: whole_cents_def)

text \<open>
  C40. Every answer of a payment, replayed ones included, is a well-formed transaction: a positive amount with two
  digits after the point, two different wallets that exist in the database, and one of the three statuses.
\<close>

theorem payment_answers_are_well_formed:
  assumes "lawful_session db V R" and "client_ok redis_client K V R" and "session_keeps_redis db K"
    and "lawful_codec cdc" and "fresh_session V w" and "cache_sound cdc K V w"
    and "keeps_valid R" and "payment_request_valid request" and "valid_db (durable V w)"
  shows "wp (send_money cdc db user request redis_client)
    (\<lambda>resp w'. numeric_column (tr_amount resp) \<and> 0 < coef (tr_amount resp) \<and>
       tr_sender_wallet_id resp \<noteq> tr_receiver_wallet_id resp \<and>
       {tr_sender_wallet_id resp, tr_receiver_wallet_id resp} \<subseteq> dom (wallets (durable V w')) \<and>
       tr_status resp \<in> {''PENDING'', ''COMPLETED'', ''FAILED''})
    (\<lambda>_ _. True) w"
proof (rule wp_mono [OF wp_send_money_recorded [OF assms]], goal_cases)
  case (1 resp w1)
  then obtain y where y: "resp = transaction_response_of y" "txns (durable V w1) (t_id y) = Some y"
      and ok: "valid_db (durable V w1)" by blast
  from valid_db_rows(3) [OF ok y(2)] show ?case
    unfolding y(1) by (cases "t_status y") (simp_all add: transaction_response_of_def txn_ok_def
        chk_amount_positive_def chk_different_wallets_def)
qed simp

theorem payment_answers_are_well_formed_witness:
  "wp (send_money mem_codec mem_session alice (demo_request ''k0'' 2550) (Some (mem_redis True)))
    (\<lambda>resp w'. numeric_column (tr_amount resp) \<and> 0 < coef (tr_amount resp) \<and>
       tr_sender_wallet_id resp \<noteq> tr_receiver_wallet_id resp \<and>
       {tr_sender_wallet_id resp, tr_receiver_wallet_id resp} \<subseteq> dom (wallets (durable mem_absn w')) \<and>
       tr_status resp \<in> {''PENDING'', ''COMPLETED'', ''FAILED''})
    (\<lambda>_ _. True) demo"
proof -
  have "payment_request_valid (demo_request ''k0'' 2550)"
    by (simp add: payment_request_valid_def demo_request_def money_field_def whole_cents_def currency_pattern_def ord_def)
  then show ?thesis
    by (rule payment_answers_are_well_formed [OF lawful_mem_session(1) mem_client_ok(1) mem_keeps_redis lawful_mem_codec
          demo_fresh demo_sound keeps_valid_others _ demo_durable_valid])
qed

end
